(* ===== verification/Prelude.thy ===== *)
theory Prelude
  imports Complex_Main "HOL-Library.Word"
begin

text \<open>
  Shared vocabulary of the development.

  \<^item> The Go integer types the program uses are machine words: \<open>int64\<close> is a 64-bit word that the
    code reads as two's complement, so comparisons go through \<^const>\<open>sint\<close>.
  \<^item> A table of the database is the list of its rows in insertion order. \<open>lookup_by\<close>,
    \<open>update_by\<close> and \<open>total_by\<close> are the keyed operations on such a list that the SQL statements,
    the audit queries and the invariants share; their interaction lemmas are simplification rules.
  \<^item> The \<^theory_text>\<open>named_theorems\<close> collections carry the component proofs: \<open>run_simps\<close> steps a
    program through its database interactions, \<open>db_simps\<close> evaluates statements and writes on tables,
    \<open>err_simps\<close> decides questions about error chains.
\<close>

named_theorems run_simps "stepping a program through its database interactions"
named_theorems db_simps "evaluating SQL statements and writes on tables"
named_theorems err_simps "classifying error values along their wrap chain"

type_synonym int64 = "64 word"

type_synonym timestamp = int

subsection \<open>Keyed rows\<close>

definition lookup_by :: "('r \<Rightarrow> 'k) \<Rightarrow> 'k \<Rightarrow> 'r list \<Rightarrow> 'r option" where
  "lookup_by key k rows = find (\<lambda>r. key r = k) rows"

definition update_by :: "('r \<Rightarrow> 'k) \<Rightarrow> 'k \<Rightarrow> ('r \<Rightarrow> 'r) \<Rightarrow> 'r list \<Rightarrow> 'r list" where
  "update_by key k f rows = map (\<lambda>r. if key r = k then f r else r) rows"

definition total_by :: "('r \<Rightarrow> int) \<Rightarrow> 'r list \<Rightarrow> int" where
  "total_by amount rows = sum_list (map amount rows)"

lemma lookup_by_Nil [simp]: "lookup_by key k [] = None"
  by (simp add: lookup_by_def)

lemma lookup_by_Cons [simp]:
  "lookup_by key k (r # rows) = (if key r = k then Some r else lookup_by key k rows)"
  by (simp add: lookup_by_def)

lemma lookup_by_append:
  "lookup_by key k (xs @ ys) = (case lookup_by key k xs of None \<Rightarrow> lookup_by key k ys | Some r \<Rightarrow> Some r)"
  by (induction xs) auto

lemma lookup_by_SomeD: "lookup_by key k rows = Some r \<Longrightarrow> r \<in> set rows \<and> key r = k"
  by (induction rows) (auto split: if_splits)

lemma lookup_by_None_iff: "lookup_by key k rows = None \<longleftrightarrow> k \<notin> key ` set rows"
  by (induction rows) auto

lemma dom_lookup_by: "dom (\<lambda>k. lookup_by key k rows) = key ` set rows"
  by (rule set_eqI) (simp only: domIff lookup_by_None_iff not_not)

lemma lookup_by_eq_Some_iff:
  assumes "distinct (map key rows)"
  shows "lookup_by key k rows = Some r \<longleftrightarrow> r \<in> set rows \<and> key r = k"
  using assms by (induction rows) (auto simp: rev_image_eqI)

lemma update_by_Nil [simp]: "update_by key k f [] = []"
  by (simp add: update_by_def)

lemma update_by_Cons [simp]:
  "update_by key k f (r # rows) = (if key r = k then f r else r) # update_by key k f rows"
  by (simp add: update_by_def)

lemma map_key_update_by [simp]:
  assumes "\<And>r. key (f r) = key r"
  shows "map key (update_by key k f rows) = map key rows"
  using assms by (induction rows) auto

lemma map_proj_update_by:
  assumes "\<And>r. g (f r) = g r"
  shows "map g (update_by key k f rows) = map g rows"
  using assms by (induction rows) auto

lemma lookup_by_update_by:
  assumes "\<And>r. key (f r) = key r"
  shows "lookup_by key j (update_by key k f rows) =
    (if j = k then map_option f (lookup_by key j rows) else lookup_by key j rows)"
  using assms by (induction rows) auto

lemma set_update_by:
  "r \<in> set (update_by key k f rows) \<longleftrightarrow>
     (\<exists>r0 \<in> set rows. (key r0 = k \<and> r = f r0) \<or> (key r0 \<noteq> k \<and> r = r0))"
  by (induction rows) auto

lemma total_by_Nil [simp]: "total_by g [] = 0"
  by (simp add: total_by_def)

lemma total_by_Cons [simp]: "total_by g (r # rows) = g r + total_by g rows"
  by (simp add: total_by_def)

lemma total_by_append [simp]: "total_by g (xs @ ys) = total_by g xs + total_by g ys"
  by (simp add: total_by_def)

lemma total_by_cong: "(\<And>r. r \<in> set rows \<Longrightarrow> g r = h r) \<Longrightarrow> total_by g rows = total_by h rows"
  by (induction rows) auto

lemma update_by_absent: "k \<notin> key ` set rows \<Longrightarrow> update_by key k f rows = rows"
  by (induction rows) auto

text \<open>Updating the one row with key \<open>k\<close> moves a total by that row's own change.\<close>

lemma total_by_update_by:
  assumes "distinct (map key rows)" and "lookup_by key k rows = Some r"
  shows "total_by g (update_by key k f rows) = total_by g rows - g r + g (f r)"
  using assms
proof (induction rows)
  case Nil
  then show ?case by simp
next
  case (Cons a rows)
  show ?case
  proof (cases "key a = k")
    case True
    with Cons.prems have "k \<notin> key ` set rows" and "a = r" by auto
    with True show ?thesis by (simp add: update_by_absent)
  next
    case False
    with Cons show ?thesis by simp
  qed
qed

text \<open>The total over the rows of one key, as the audit queries compute it with \<open>WHERE\<close>.\<close>

lemma total_by_filter_append [simp]:
  "total_by g (filter p (xs @ ys)) = total_by g (filter p xs) + total_by g (filter p ys)"
  by simp

subsection \<open>Fixed-point amounts\<close>

text \<open>The number that \<open>n\<close> units of \<open>10 ^ (-18)\<close> denote, and the bound that 20 integer digits put
  on \<open>n\<close>.\<close>

definition numeric_value :: "int \<Rightarrow> rat" where
  "numeric_value n = of_int n / 10 ^ 18"

definition numeric_limit :: int where
  "numeric_limit = 10 ^ 38"

lemma numeric_value_add: "numeric_value m + numeric_value n = numeric_value (m + n)"
  by (simp add: numeric_value_def add_divide_distrib)

lemma numeric_value_diff: "numeric_value m - numeric_value n = numeric_value (m - n)"
  by (simp add: numeric_value_def diff_divide_distrib)

lemma numeric_value_less [simp]: "numeric_value m < numeric_value n \<longleftrightarrow> m < n"
  by (simp add: numeric_value_def divide_less_cancel)

lemma numeric_value_eq [simp]: "numeric_value m = numeric_value n \<longleftrightarrow> m = n"
  by (simp add: numeric_value_def)

lemma numeric_value_pos [simp]: "0 < numeric_value n \<longleftrightarrow> 0 < n"
  by (simp add: numeric_value_def)

lemma numeric_limit_pos [simp]: "0 < numeric_limit"
  by (simp add: numeric_limit_def)

subsection \<open>Sums and options\<close>

lemma case_sum_Inl_Inr [simp]: "(case r of Inl e \<Rightarrow> Inl e | Inr x \<Rightarrow> Inr x) = r"
  by (cases r) auto

lemma sum_not_Inl [simp]: "(\<forall>e. r \<noteq> Inl e) \<longleftrightarrow> (\<exists>x. r = Inr x)"
  by (cases r) auto

end
