(* ===== verification/Go_Strings.thy ===== *)
theory Go_Strings
  imports Prelude
begin

text \<open>
  The parts of Go's \<open>strconv\<close> and \<open>fmt\<close> the program uses on integers: \<open>fmt_d\<close> renders an
  integer as \<open>%d\<close> and \<open>strconv.Itoa\<close> do, \<open>ParseInt64\<close> is \<open>strconv.ParseInt(s, 10, 64)\<close>: an
  optional sign, at least one ASCII digit, nothing else, and a value in the int64 range.
  Go strings are byte sequences; \<^typ>\<open>string\<close> is a list of bytes.
\<close>

subsection \<open>Rendering integers\<close>

definition digit_char :: "nat \<Rightarrow> char" where
  "digit_char d = char_of (48 + d)"

definition char_digit :: "char \<Rightarrow> nat option" where
  "char_digit c = (let n = of_char c in if 48 \<le> n \<and> n \<le> 57 then Some (n - 48) else None)"

fun nat_digits :: "nat \<Rightarrow> string" where
  "nat_digits n = (if n < 10 then [digit_char n] else nat_digits (n div 10) @ [digit_char (n mod 10)])"

declare nat_digits.simps [simp del]

definition fmt_d :: "int \<Rightarrow> string" where
  "fmt_d i = (if i < 0 then ''-'' @ nat_digits (nat (- i)) else nat_digits (nat i))"

subsection \<open>Parsing integers\<close>

fun digits_value :: "nat \<Rightarrow> string \<Rightarrow> nat option" where
  "digits_value acc [] = Some acc"
| "digits_value acc (c # cs) =
     (case char_digit c of None \<Rightarrow> None | Some d \<Rightarrow> digits_value (10 * acc + d) cs)"

definition parse_digits :: "string \<Rightarrow> nat option" where
  "parse_digits s = (if s = [] then None else digits_value 0 s)"

definition int64_of :: "int \<Rightarrow> int64 option" where
  "int64_of i = (if - (2 ^ 63) \<le> i \<and> i < 2 ^ 63 then Some (word_of_int i) else None)"

definition ParseInt64 :: "string \<Rightarrow> int64 option" where
  "ParseInt64 s =
     (case s of
        [] \<Rightarrow> None
      | c # cs \<Rightarrow>
          if c = CHR ''+'' then Option.bind (parse_digits cs) (\<lambda>n. int64_of (int n))
          else if c = CHR ''-'' then Option.bind (parse_digits cs) (\<lambda>n. int64_of (- int n))
          else Option.bind (parse_digits s) (\<lambda>n. int64_of (int n)))"

subsection \<open>Parsing inverts rendering\<close>

lemma char_digit_digit_char [simp]: "d < 10 \<Longrightarrow> char_digit (digit_char d) = Some d"
  by (simp add: char_digit_def digit_char_def)

lemma digits_value_append:
  "digits_value acc (s @ t) = Option.bind (digits_value acc s) (\<lambda>m. digits_value m t)"
  by (induction acc s rule: digits_value.induct) (auto split: option.splits)

lemma nat_digits_nonempty [simp]: "nat_digits n \<noteq> []"
  by (subst nat_digits.simps) simp

lemma digits_value_nat_digits: "digits_value 0 (nat_digits n) = Some n"
proof (induction n rule: nat_digits.induct)
  case (1 n)
  then show ?case by (subst nat_digits.simps) (simp add: digits_value_append)
qed

lemma parse_digits_nat_digits [simp]: "parse_digits (nat_digits n) = Some n"
  by (simp add: parse_digits_def digits_value_nat_digits)

lemma digit_char_not_sign: "d < 10 \<Longrightarrow> digit_char d \<noteq> CHR ''+'' \<and> digit_char d \<noteq> CHR ''-''"
proof -
  assume "d < 10"
  then have "char_digit (digit_char d) \<noteq> None" by simp
  moreover have "char_digit CHR ''+'' = None" "char_digit CHR ''-'' = None"
    by (simp_all add: char_digit_def)
  ultimately show ?thesis by metis
qed

lemma hd_nat_digits: "hd (nat_digits n) \<noteq> CHR ''+'' \<and> hd (nat_digits n) \<noteq> CHR ''-''"
proof (induction n rule: nat_digits.induct)
  case (1 n)
  then show ?case
    by (subst (1 2) nat_digits.simps) (auto simp: digit_char_not_sign)
qed

lemma int64_of_sint [simp]: "int64_of (sint (i :: int64)) = Some i"
proof -
  have "- (2 ^ 63) \<le> sint i" and "sint i < 2 ^ 63"
    using sint_range_size [of i] by (simp_all add: word_size)
  then show ?thesis by (simp add: int64_of_def)
qed

lemma ParseInt64_nonneg:
  assumes "0 \<le> k"
  shows "ParseInt64 (fmt_d k) = int64_of k"
proof -
  obtain c cs where s: "nat_digits (nat k) = c # cs"
    using nat_digits_nonempty list.exhaust by metis
  have c: "c \<noteq> CHR ''+''" "c \<noteq> CHR ''-''" using hd_nat_digits [of "nat k"] s by auto
  have "parse_digits (c # cs) = Some (nat k)"
    using parse_digits_nat_digits [of "nat k"] s by simp
  with assms s c show ?thesis
    by (simp add: ParseInt64_def fmt_d_def)
qed

lemma ParseInt64_neg: "k < 0 \<Longrightarrow> ParseInt64 (fmt_d k) = int64_of k"
  by (simp add: ParseInt64_def fmt_d_def)

lemma ParseInt64_fmt_d: "ParseInt64 (fmt_d k) = int64_of k"
  by (cases "0 \<le> k") (simp_all add: ParseInt64_nonneg ParseInt64_neg)

lemma ParseInt64_roundtrip: "ParseInt64 (fmt_d (sint i)) = Some i"
  by (simp add: ParseInt64_fmt_d)

end
