(* ===== verification/Domain.thy ===== *)
theory Domain
  imports Prelude Go_Strings
begin

text \<open>
  \<open>internal/domain\<close>: the entities (\<open>account.go\<close>, \<open>transfer.go\<close>) and the error values
  (\<open>errors.go\<close>), with the error chain operations of Go's \<open>errors\<close> package that the other layers
  use on them. \<open>'d\<close> is the type of \<open>decimal.Decimal\<close>, which is not part of the repository.

  An error value is one of the sentinels, an \<open>AccountNotFoundError\<close>, the repository's
  \<open>ErrDuplicateIdempotencyKey\<close>, an error that enters from a library (\<open>pgx.ErrNoRows\<close>, a
  \<open>pgconn.PgError\<close> with its SQLSTATE code, constraint name and rendered text, or any other error
  with its text), or a wrapping \<open>fmt.Errorf("prefix: %w", err)\<close>.
\<close>

subsection \<open>Entities\<close>

record 'd Account =
  acc_ID :: int64
  acc_Balance :: 'd
  acc_Version :: int64
  acc_CreatedAt :: timestamp
  acc_UpdatedAt :: timestamp

datatype Direction = DirectionDebit | DirectionCredit

definition direction_string :: "Direction \<Rightarrow> string" where
  "direction_string dir = (case dir of DirectionDebit \<Rightarrow> ''debit'' | DirectionCredit \<Rightarrow> ''credit'')"

definition StatusCompleted :: string where
  "StatusCompleted = ''completed''"

definition StatusFailed :: string where
  "StatusFailed = ''failed''"

text \<open>A pointer \<open>*string\<close> that may be nil is an option. A \<open>Transfer\<close> that was not read back from
  the database carries the zero \<open>CreatedAt\<close>.\<close>

record 'd Transfer =
  tr_ID :: int64
  tr_IdempotencyKey :: "string option"
  tr_SourceID :: int64
  tr_DestinationID :: int64
  tr_Amount :: 'd
  tr_Status :: string
  tr_CreatedAt :: timestamp

record 'd LedgerEntry =
  le_ID :: int64
  le_TransferID :: int64
  le_AccountID :: int64
  le_Direction :: Direction
  le_Amount :: 'd
  le_BalanceAfter :: 'd
  le_CreatedAt :: timestamp

lemma direction_string_inject [simp]: "direction_string a = direction_string b \<longleftrightarrow> a = b"
  by (cases a; cases b) (simp_all add: direction_string_def)

subsection \<open>Error values\<close>

datatype go_error =
    ErrAccountNotFound
  | ErrAccountAlreadyExists
  | ErrInsufficientFunds
  | ErrInvalidAmount
  | ErrInvalidAccountID
  | ErrSameAccount
  | ErrInvalidIdempotency
  | ErrIdempotencyConflict
  | AccountNotFoundError int64
  | ErrDuplicateIdempotencyKey
  | ErrNoRows
  | PgError string string string
  | ExternalError string
  | Wrapf string go_error

definition AccountNotFound :: "int64 \<Rightarrow> go_error" where
  "AccountNotFound i = AccountNotFoundError i"

text \<open>\<open>errors.Unwrap\<close>: one link of the chain.\<close>

fun unwrap :: "go_error \<Rightarrow> go_error option" where
  "unwrap (AccountNotFoundError i) = Some ErrAccountNotFound"
| "unwrap (Wrapf p e) = Some e"
| "unwrap _ = None"

text \<open>\<open>errors.Is(err, target)\<close>: the chain of \<open>err\<close> contains \<open>target\<close>. The targets of the program are
  the sentinels, which are compared by identity.\<close>

fun errors_Is :: "go_error \<Rightarrow> go_error \<Rightarrow> bool" where
  "errors_Is (Wrapf p e) target = (Wrapf p e = target \<or> errors_Is e target)"
| "errors_Is (AccountNotFoundError i) target =
     (AccountNotFoundError i = target \<or> ErrAccountNotFound = target)"
| "errors_Is e target = (e = target)"

text \<open>\<open>errors.As(err, &pgErr)\<close> with \<open>pgErr\<close> a \<open>*pgconn.PgError\<close>: the first one of the chain, as
  its code and constraint name.\<close>

fun errors_As_PgError :: "go_error \<Rightarrow> (string \<times> string) option" where
  "errors_As_PgError (PgError code constraint msg) = Some (code, constraint)"
| "errors_As_PgError (Wrapf p e) = errors_As_PgError e"
| "errors_As_PgError _ = None"

text \<open>\<open>err.Error()\<close>.\<close>

fun error_text :: "go_error \<Rightarrow> string" where
  "error_text ErrAccountNotFound = ''account not found''"
| "error_text ErrAccountAlreadyExists = ''account already exists''"
| "error_text ErrInsufficientFunds = ''insufficient funds''"
| "error_text ErrInvalidAmount = ''invalid amount''"
| "error_text ErrInvalidAccountID = ''invalid account id''"
| "error_text ErrSameAccount = ''source and destination must differ''"
| "error_text ErrInvalidIdempotency = ''invalid idempotency key''"
| "error_text ErrIdempotencyConflict = ''idempotency key conflict''"
| "error_text (AccountNotFoundError i) = ''account '' @ fmt_d (sint i) @ '' not found''"
| "error_text ErrDuplicateIdempotencyKey = ''duplicate idempotency key''"
| "error_text ErrNoRows = ''no rows in result set''"
| "error_text (PgError code constraint msg) = msg"
| "error_text (ExternalError msg) = msg"
| "error_text (Wrapf p e) = p @ '': '' @ error_text e"

subsection \<open>Chains\<close>

text \<open>The whole chain of an error, and \<open>errors.Is\<close> as membership in it.\<close>

fun error_chain :: "go_error \<Rightarrow> go_error list" where
  "error_chain (AccountNotFoundError i) = [AccountNotFoundError i, ErrAccountNotFound]"
| "error_chain (Wrapf p e) = Wrapf p e # error_chain e"
| "error_chain e = [e]"

lemma errors_Is_iff_chain: "errors_Is e target \<longleftrightarrow> target \<in> set (error_chain e)"
  by (induction e) auto

lemma error_chain_unwrap:
  "error_chain e = e # (case unwrap e of None \<Rightarrow> [] | Some e' \<Rightarrow> error_chain e')"
  by (cases e) auto

lemma errors_Is_refl [simp]: "errors_Is e e"
  by (cases e) auto

text \<open>A library error (no domain sentinel anywhere on its chain) is what the API maps to 500.\<close>

definition domain_sentinels :: "go_error list" where
  "domain_sentinels =
     [ErrInvalidAmount, ErrInvalidAccountID, ErrSameAccount, ErrInvalidIdempotency,
      ErrAccountNotFound, ErrAccountAlreadyExists, ErrInsufficientFunds, ErrIdempotencyConflict]"

definition internal_error :: "go_error \<Rightarrow> bool" where
  "internal_error e \<longleftrightarrow> (\<forall>s \<in> set domain_sentinels. \<not> errors_Is e s)"

lemma internal_error_Wrapf [err_simps]: "internal_error (Wrapf p e) \<longleftrightarrow> internal_error e"
  by (auto simp: internal_error_def domain_sentinels_def)

lemma internal_error_library [err_simps]:
  "internal_error (PgError c n m)" "internal_error (ExternalError m)" "internal_error ErrNoRows"
  "internal_error ErrDuplicateIdempotencyKey"
  by (simp_all add: internal_error_def domain_sentinels_def)

lemma internal_error_domain [err_simps]:
  "\<not> internal_error ErrInvalidAmount" "\<not> internal_error ErrInvalidAccountID"
  "\<not> internal_error ErrSameAccount" "\<not> internal_error ErrInvalidIdempotency"
  "\<not> internal_error ErrAccountNotFound" "\<not> internal_error ErrAccountAlreadyExists"
  "\<not> internal_error ErrInsufficientFunds" "\<not> internal_error ErrIdempotencyConflict"
  "\<not> internal_error (AccountNotFoundError i)"
  by (simp_all add: internal_error_def domain_sentinels_def)

end
