(* ===== verification/Schema.thy ===== *)
theory Schema
  imports Domain
begin

text \<open>
  The database schema of \<open>migrations/0001_init.up.sql\<close>: one record per table's rows, a table as the
  list of its rows in insertion order, the id sequences of the \<open>BIGSERIAL\<close> columns, and the writes
  that the repositories' statements make on them.

  \<open>NUMERIC(38, 18)\<close> columns hold whole numbers of \<open>10 ^ (-18)\<close> units below \<open>10 ^ 38\<close> in absolute
  value; \<open>numeric_in\<close> is the conversion of a value to the column's type, which rounds to 18 decimal
  places, half away from zero, and fails with SQLSTATE 22003 when the result has more than 20
  integer digits. \<open>'u\<close> is the type of a stored \<open>UUID\<close>.
\<close>

subsection \<open>Rows and tables\<close>

record account_row =
  ar_id :: int64
  ar_balance :: int
  ar_version :: int64
  ar_created_at :: timestamp
  ar_updated_at :: timestamp

record deposit_row =
  dr_id :: int64
  dr_account_id :: int64
  dr_amount :: int
  dr_created_at :: timestamp

record 'u transfer_row =
  xr_id :: int64
  xr_idempotency_key :: "'u option"
  xr_source_id :: int64
  xr_destination_id :: int64
  xr_amount :: int
  xr_status :: string
  xr_created_at :: timestamp

record ledger_row =
  lr_id :: int64
  lr_transfer_id :: int64
  lr_account_id :: int64
  lr_direction :: string
  lr_amount :: int
  lr_balance_after :: int
  lr_created_at :: timestamp

record 'u tables =
  accounts :: "account_row list"
  deposits :: "deposit_row list"
  transfers :: "'u transfer_row list"
  ledger_entries :: "ledger_row list"

definition empty_tables :: "'u tables" where
  "empty_tables = \<lparr>accounts = [], deposits = [], transfers = [], ledger_entries = []\<rparr>"

subsection \<open>NUMERIC(38, 18)\<close>

definition numeric_round :: "rat \<Rightarrow> int" where
  "numeric_round x = (if 0 \<le> x then \<lfloor>x * 10 ^ 18 + 1 / 2\<rfloor> else - \<lfloor>- x * 10 ^ 18 + 1 / 2\<rfloor>)"

definition numeric_in :: "rat \<Rightarrow> int option" where
  "numeric_in x = (let n = numeric_round x in if \<bar>n\<bar> < numeric_limit then Some n else None)"

lemma numeric_round_value [db_simps]: "numeric_round (numeric_value n) = n"
proof -
  have "\<lfloor>(of_int m :: rat) + 1 / 2\<rfloor> = m" for m
    by (simp add: floor_eq_iff)
  from this [of n] this [of "- n"] show ?thesis
    by (simp add: numeric_round_def numeric_value_def)
qed

lemma numeric_in_value [db_simps]:
  "numeric_in (numeric_value n) = (if \<bar>n\<bar> < numeric_limit then Some n else None)"
  by (simp add: numeric_in_def numeric_round_value Let_def)

subsection \<open>Sequences\<close>

text \<open>The last value each \<open>BIGSERIAL\<close> sequence has given out (0 before the first). A value that was
  given out is never taken back, not even by a rollback.\<close>

record sequences =
  deposits_id_seq :: int
  transfers_id_seq :: int
  ledger_entries_id_seq :: int

definition nextval :: "int \<Rightarrow> int option" where
  "nextval s = (if s < 2 ^ 63 - 1 then Some (s + 1) else None)"

subsection \<open>Writes\<close>

datatype 'u db_write =
    WAccount account_row
  | WDeposit deposit_row
  | WBalance int64 int timestamp
  | WTransfer "'u transfer_row"
  | WLedgerEntry ledger_row

definition set_balance :: "int \<Rightarrow> timestamp \<Rightarrow> account_row \<Rightarrow> account_row" where
  "set_balance n now r = r\<lparr>ar_balance := n, ar_version := ar_version r + 1, ar_updated_at := now\<rparr>"

fun apply_write :: "'u db_write \<Rightarrow> 'u tables \<Rightarrow> 'u tables" where
  "apply_write (WAccount r) t = t\<lparr>accounts := accounts t @ [r]\<rparr>"
| "apply_write (WDeposit r) t = t\<lparr>deposits := deposits t @ [r]\<rparr>"
| "apply_write (WBalance i n now) t =
     t\<lparr>accounts := update_by ar_id i (set_balance n now) (accounts t)\<rparr>"
| "apply_write (WTransfer r) t = t\<lparr>transfers := transfers t @ [r]\<rparr>"
| "apply_write (WLedgerEntry r) t = t\<lparr>ledger_entries := ledger_entries t @ [r]\<rparr>"

definition apply_writes :: "'u db_write list \<Rightarrow> 'u tables \<Rightarrow> 'u tables" where
  "apply_writes ws t = fold apply_write ws t"

lemma apply_writes_Nil [simp]: "apply_writes [] t = t"
  by (simp add: apply_writes_def)

lemma apply_writes_append [simp]:
  "apply_writes (ws @ ws') t = apply_writes ws' (apply_writes ws t)"
  by (simp add: apply_writes_def)

lemma apply_writes_Cons [simp]: "apply_writes (x # ws) t = apply_writes ws (apply_write x t)"
  by (simp add: apply_writes_def)

lemma set_balance_sel [simp]:
  "ar_id (set_balance n now r) = ar_id r" "ar_balance (set_balance n now r) = n"
  "ar_version (set_balance n now r) = ar_version r + 1"
  "ar_created_at (set_balance n now r) = ar_created_at r"
  "ar_updated_at (set_balance n now r) = now"
  by (simp_all add: set_balance_def)

definition account_row_of :: "'u tables \<Rightarrow> int64 \<Rightarrow> account_row option" where
  "account_row_of t i = lookup_by ar_id i (accounts t)"

lemma account_row_of_apply_write [db_simps]:
  "account_row_of (apply_write (WAccount r) t) i =
     (case account_row_of t i of None \<Rightarrow> if ar_id r = i then Some r else None | Some r0 \<Rightarrow> Some r0)"
  "account_row_of (apply_write (WDeposit d) t) i = account_row_of t i"
  "account_row_of (apply_write (WBalance j n now) t) i =
     (if i = j then map_option (set_balance n now) (account_row_of t i) else account_row_of t i)"
  "account_row_of (apply_write (WTransfer x) t) i = account_row_of t i"
  "account_row_of (apply_write (WLedgerEntry e) t) i = account_row_of t i"
  by (simp_all add: account_row_of_def lookup_by_append lookup_by_update_by split: option.split)

end
