(* ===== verification/Querier.thy ===== *)
theory Querier
  imports Domain
begin

text \<open>
  The boundary between the program and its database: \<open>Querier\<close> of
  \<open>internal/repository/tx.go\<close> and the transaction calls of \<open>pgx\<close> (\<open>Begin\<close>, \<open>Commit\<close>,
  \<open>Rollback\<close>).

  \<^item> \<open>sql\<close> has one constructor per SQL statement of the repositories, with the statement's arguments
    in the order of \<open>$1, $2, ...\<close>.
  \<^item> A computation that talks to the database is a \<open>prog\<close>: it returns, or it performs one
    interaction and continues with the answer it gets. The repositories, the transaction manager and
    the services are programs, so that one text of the code serves every semantics of the database:
    a handler answers the interactions (\<open>run\<close>).
  \<^item> An answer is \<open>Inl err\<close> or \<open>Inr\<close> of what the call returns. Rows are lists of cells, and a
    \<open>Query\<close> answers with the rows that \<open>rows.Next\<close> yields and the value of \<open>rows.Err()\<close> after them.
\<close>

subsection \<open>Statements, rows, programs\<close>

datatype querier = Pool | Tx

datatype 'd sql =
    SqlInsertAccount int64 'd
  | SqlInsertDeposit int64 'd
  | SqlSelectAccount int64
  | SqlLockAccounts "int64 list"
  | SqlUpdateBalance int64 'd
  | SqlFindTransfer string
  | SqlInsertTransfer "string option" int64 int64 'd string
  | SqlInsertLedgerEntry int64 int64 string 'd 'd

datatype 'd cell = CInt int64 | CDecimal 'd | CText string | CNull | CTime timestamp

type_synonym 'd rows = "'d cell list list \<times> go_error option"

datatype ('d, 'a) prog =
    Return 'a
  | DoExec querier "'d sql" "go_error + unit \<Rightarrow> ('d, 'a) prog"
  | DoQuery querier "'d sql" "go_error + 'd rows \<Rightarrow> ('d, 'a) prog"
  | DoQueryRow querier "'d sql" "go_error + 'd cell list \<Rightarrow> ('d, 'a) prog"
  | DoBegin "go_error + unit \<Rightarrow> ('d, 'a) prog"
  | DoCommit "go_error + unit \<Rightarrow> ('d, 'a) prog"
  | DoRollback "go_error + unit \<Rightarrow> ('d, 'a) prog"

primrec bind_prog :: "('d, 'a) prog \<Rightarrow> ('a \<Rightarrow> ('d, 'b) prog) \<Rightarrow> ('d, 'b) prog" where
  "bind_prog (Return a) f = f a"
| "bind_prog (DoExec q s k) f = DoExec q s (\<lambda>r. bind_prog (k r) f)"
| "bind_prog (DoQuery q s k) f = DoQuery q s (\<lambda>r. bind_prog (k r) f)"
| "bind_prog (DoQueryRow q s k) f = DoQueryRow q s (\<lambda>r. bind_prog (k r) f)"
| "bind_prog (DoBegin k) f = DoBegin (\<lambda>r. bind_prog (k r) f)"
| "bind_prog (DoCommit k) f = DoCommit (\<lambda>r. bind_prog (k r) f)"
| "bind_prog (DoRollback k) f = DoRollback (\<lambda>r. bind_prog (k r) f)"

text \<open>\<open>if err != nil { return err }\<close>: continue with the result, or return the error as it is.\<close>

definition andThen :: "('d, go_error + 'a) prog \<Rightarrow> ('a \<Rightarrow> ('d, go_error + 'b) prog) \<Rightarrow> ('d, go_error + 'b) prog" where
  "andThen p f = bind_prog p (\<lambda>r. case r of Inl err \<Rightarrow> Return (Inl err) | Inr x \<Rightarrow> f x)"

abbreviation Exec :: "querier \<Rightarrow> 'd sql \<Rightarrow> ('d, go_error + unit) prog" where
  "Exec q s \<equiv> DoExec q s Return"

abbreviation Query :: "querier \<Rightarrow> 'd sql \<Rightarrow> ('d, go_error + 'd rows) prog" where
  "Query q s \<equiv> DoQuery q s Return"

abbreviation QueryRow :: "querier \<Rightarrow> 'd sql \<Rightarrow> ('d, go_error + 'd cell list) prog" where
  "QueryRow q s \<equiv> DoQueryRow q s Return"

lemma bind_prog_assoc:
  "bind_prog (bind_prog p f) g = bind_prog p (\<lambda>x. bind_prog (f x) g)"
  by (induction p) (simp_all add: fun_eq_iff)

lemma bind_prog_Return [simp]: "bind_prog p Return = p"
  by (induction p) (simp_all add: fun_eq_iff)

subsection \<open>Running a program against a database\<close>

record ('d, 'w) handler =
  h_Exec :: "querier \<Rightarrow> 'd sql \<Rightarrow> 'w \<Rightarrow> (go_error + unit) \<times> 'w"
  h_Query :: "querier \<Rightarrow> 'd sql \<Rightarrow> 'w \<Rightarrow> (go_error + 'd rows) \<times> 'w"
  h_QueryRow :: "querier \<Rightarrow> 'd sql \<Rightarrow> 'w \<Rightarrow> (go_error + 'd cell list) \<times> 'w"
  h_Begin :: "'w \<Rightarrow> (go_error + unit) \<times> 'w"
  h_Commit :: "'w \<Rightarrow> (go_error + unit) \<times> 'w"
  h_Rollback :: "'w \<Rightarrow> (go_error + unit) \<times> 'w"

primrec run :: "('d, 'w) handler \<Rightarrow> ('d, 'a) prog \<Rightarrow> 'w \<Rightarrow> 'a \<times> 'w" where
  "run h (Return a) = (\<lambda>w. (a, w))"
| "run h (DoExec q s k) = (\<lambda>w. case h_Exec h q s w of (r, w') \<Rightarrow> run h (k r) w')"
| "run h (DoQuery q s k) = (\<lambda>w. case h_Query h q s w of (r, w') \<Rightarrow> run h (k r) w')"
| "run h (DoQueryRow q s k) = (\<lambda>w. case h_QueryRow h q s w of (r, w') \<Rightarrow> run h (k r) w')"
| "run h (DoBegin k) = (\<lambda>w. case h_Begin h w of (r, w') \<Rightarrow> run h (k r) w')"
| "run h (DoCommit k) = (\<lambda>w. case h_Commit h w of (r, w') \<Rightarrow> run h (k r) w')"
| "run h (DoRollback k) = (\<lambda>w. case h_Rollback h w of (r, w') \<Rightarrow> run h (k r) w')"

lemma run_bind_prog [run_simps]:
  "run h (bind_prog p f) w = (case run h p w of (a, w') \<Rightarrow> run h (f a) w')"
  by (induction p arbitrary: w) (simp_all split: prod.split)

lemma run_andThen [run_simps]:
  "run h (andThen p f) w =
     (case run h p w of (Inl err, w') \<Rightarrow> (Inl err, w') | (Inr x, w') \<Rightarrow> run h (f x) w')"
  by (simp add: andThen_def run_bind_prog split: prod.split sum.split)

text \<open>Properties of the result and final state of every run that starts in \<open>P\<close>.\<close>

definition hoare :: "('d, 'w) handler \<Rightarrow> ('w \<Rightarrow> bool) \<Rightarrow> ('d, 'a) prog \<Rightarrow> ('a \<Rightarrow> 'w \<Rightarrow> bool) \<Rightarrow> bool" where
  "hoare h P p Q \<longleftrightarrow> (\<forall>w. P w \<longrightarrow> (case run h p w of (a, w') \<Rightarrow> Q a w'))"

lemma hoareD: "hoare h P p Q \<Longrightarrow> P w \<Longrightarrow> run h p w = (a, w') \<Longrightarrow> Q a w'"
  by (force simp: hoare_def)

lemma hoareI: "(\<And>w a w'. P w \<Longrightarrow> run h p w = (a, w') \<Longrightarrow> Q a w') \<Longrightarrow> hoare h P p Q"
  by (auto simp: hoare_def)

lemma hoare_Return: "(\<And>w. P w \<Longrightarrow> Q a w) \<Longrightarrow> hoare h P (Return a) Q"
  by (simp add: hoare_def)

lemma hoare_bind:
  assumes "hoare h P p R" and "\<And>a. hoare h (R a) (f a) Q"
  shows "hoare h P (bind_prog p f) Q"
  using assms by (force simp: hoare_def run_bind_prog split: prod.splits)

lemma hoare_andThen:
  assumes "hoare h P p (\<lambda>r w. case r of Inl e \<Rightarrow> Q (Inl e) w | Inr x \<Rightarrow> R x w)"
    and "\<And>x. hoare h (R x) (f x) Q"
  shows "hoare h P (andThen p f) Q"
  unfolding andThen_def
proof (rule hoare_bind [OF assms(1)])
  fix r
  show "hoare h (\<lambda>w. case r of Inl e \<Rightarrow> Q (Inl e) w | Inr x \<Rightarrow> R x w)
      (case r of Inl err \<Rightarrow> Return (Inl err) | Inr x \<Rightarrow> f x) Q"
    using assms(2) by (cases r) (auto intro: hoare_Return)
qed

lemma hoare_weaken:
  assumes "hoare h P p Q" and "\<And>w. P' w \<Longrightarrow> P w" and "\<And>a w. Q a w \<Longrightarrow> Q' a w"
  shows "hoare h P' p Q'"
  using assms by (force simp: hoare_def split: prod.splits)

end
