(* ===== verification/Decimal.thy ===== *)
theory Decimal
  imports Prelude
begin

text \<open>
  The interface of \<open>decimal.Decimal\<close> (github.com/shopspring/decimal, not part of the repository)
  and of its \<open>NUMERIC\<close> codec for pgx. The operations the program calls are the fields of a record
  \<open>'d decimal_ops\<close> that every definition using them takes as an argument; the locale
  \<open>decimal_laws\<close> states their documented behaviour (a decimal is \<open>coefficient * 10 ^ exponent\<close>,
  comparisons and arithmetic are those of that value, the codec keeps the value), and
  \<open>refdec\<close> is a coefficient/exponent implementation that satisfies it, on which the witnesses run.
\<close>

record 'd decimal_ops =
  Coefficient :: "'d \<Rightarrow> int"
  Exponent :: "'d \<Rightarrow> int"
  Sign :: "'d \<Rightarrow> int"
  NewDecimal :: "int \<Rightarrow> int \<Rightarrow> 'd"
  Abs :: "'d \<Rightarrow> 'd"
  GreaterThanOrEqual :: "'d \<Rightarrow> 'd \<Rightarrow> bool"
  LessThan :: "'d \<Rightarrow> 'd \<Rightarrow> bool"
  Equal :: "'d \<Rightarrow> 'd \<Rightarrow> bool"
  Add :: "'d \<Rightarrow> 'd \<Rightarrow> 'd"
  Sub :: "'d \<Rightarrow> 'd \<Rightarrow> 'd"
  of_numeric :: "int \<Rightarrow> 'd"

text \<open>The number a decimal denotes.\<close>

definition decimal_value :: "'d decimal_ops \<Rightarrow> 'd \<Rightarrow> rat" where
  "decimal_value D d = of_int (Coefficient D d) * 10 powi Exponent D d"

text \<open>\<open>of_numeric n\<close> is the decimal scanned from the \<open>NUMERIC(38,18)\<close> value \<open>n * 10 ^ (-18)\<close>.\<close>

locale decimal_laws =
  fixes D :: "'d decimal_ops"
  assumes Sign_value: "of_int (Sign D a) = sgn (decimal_value D a)"
    and NewDecimal_value: "decimal_value D (NewDecimal D c e) = of_int c * 10 powi e"
    and Abs_value: "decimal_value D (Abs D a) = \<bar>decimal_value D a\<bar>"
    and GreaterThanOrEqual_value:
      "GreaterThanOrEqual D a b \<longleftrightarrow> decimal_value D a \<ge> decimal_value D b"
    and LessThan_value: "LessThan D a b \<longleftrightarrow> decimal_value D a < decimal_value D b"
    and Equal_value: "Equal D a b \<longleftrightarrow> decimal_value D a = decimal_value D b"
    and Add_value: "decimal_value D (Add D a b) = decimal_value D a + decimal_value D b"
    and Sub_value: "decimal_value D (Sub D a b) = decimal_value D a - decimal_value D b"
    and of_numeric_value: "decimal_value D (of_numeric D n) = numeric_value n"
begin

lemmas value_laws = Sign_value NewDecimal_value Abs_value GreaterThanOrEqual_value LessThan_value
  Equal_value Add_value Sub_value of_numeric_value

lemma Sign_pos_iff: "Sign D a \<le> 0 \<longleftrightarrow> decimal_value D a \<le> 0"
proof -
  have "Sign D a \<le> 0 \<longleftrightarrow> (of_int (Sign D a) :: rat) \<le> 0" by simp
  then show ?thesis by (simp only: Sign_value) (simp add: sgn_if)
qed

lemma Sign_neg_iff: "Sign D a < 0 \<longleftrightarrow> decimal_value D a < 0"
proof -
  have "Sign D a < 0 \<longleftrightarrow> (of_int (Sign D a) :: rat) < 0" by simp
  then show ?thesis by (simp only: Sign_value) (simp add: sgn_if)
qed

lemma Sign_gt_iff: "Sign D a > 0 \<longleftrightarrow> decimal_value D a > 0"
  using Sign_pos_iff [of a] by linarith

end

subsection \<open>Decimals with at most 18 fractional digits\<close>

text \<open>A decimal whose exponent is at least \<open>-18\<close> is a whole number of \<open>10 ^ (-18)\<close> units.\<close>

definition units :: "'d decimal_ops \<Rightarrow> 'd \<Rightarrow> int" where
  "units D d = Coefficient D d * 10 ^ nat (Exponent D d + 18)"

lemma of_int_units:
  assumes "- 18 \<le> Exponent D d"
  shows "of_int (units D d) = decimal_value D d * 10 ^ 18"
proof -
  have "(10 :: rat) powi Exponent D d * 10 ^ 18 = 10 powi (Exponent D d + 18)"
    using power_int_add [of "10 :: rat" "Exponent D d" 18] by simp
  also have "\<dots> = 10 ^ nat (Exponent D d + 18)"
    using assms by (simp add: power_int_def)
  finally show ?thesis
    by (simp add: units_def decimal_value_def)
qed

lemma decimal_value_units:
  "- 18 \<le> Exponent D d \<Longrightarrow> decimal_value D d = numeric_value (units D d)"
  by (simp add: of_int_units numeric_value_def)

subsection \<open>The reference implementation\<close>

type_synonym refdec = "int \<times> int"

definition ref_rescale :: "refdec \<Rightarrow> int \<Rightarrow> int" where
  "ref_rescale d e = fst d * 10 ^ nat (snd d - e)"

definition ref_align :: "refdec \<Rightarrow> refdec \<Rightarrow> int" where
  "ref_align a b = min (snd a) (snd b)"

definition ref_less :: "refdec \<Rightarrow> refdec \<Rightarrow> bool" where
  "ref_less a b = (ref_rescale a (ref_align a b) < ref_rescale b (ref_align a b))"

definition ref_equal :: "refdec \<Rightarrow> refdec \<Rightarrow> bool" where
  "ref_equal a b = (ref_rescale a (ref_align a b) = ref_rescale b (ref_align a b))"

definition ref_add :: "refdec \<Rightarrow> refdec \<Rightarrow> refdec" where
  "ref_add a b = (ref_rescale a (ref_align a b) + ref_rescale b (ref_align a b), ref_align a b)"

definition ref_sub :: "refdec \<Rightarrow> refdec \<Rightarrow> refdec" where
  "ref_sub a b = (ref_rescale a (ref_align a b) - ref_rescale b (ref_align a b), ref_align a b)"

definition ref_decimal :: "refdec decimal_ops" where
  "ref_decimal =
     \<lparr>Coefficient = fst, Exponent = snd, Sign = (\<lambda>a. sgn (fst a)), NewDecimal = Pair,
      Abs = (\<lambda>a. (\<bar>fst a\<bar>, snd a)), GreaterThanOrEqual = (\<lambda>a b. \<not> ref_less a b),
      LessThan = ref_less, Equal = ref_equal, Add = ref_add, Sub = ref_sub,
      of_numeric = (\<lambda>n. (n, - 18))\<rparr>"

lemma ref_rescale_value:
  assumes "e \<le> snd a"
  shows "of_int (fst a) * 10 powi snd a = (of_int (ref_rescale a e) :: rat) * 10 powi e"
proof -
  have "(10 :: rat) powi snd a = 10 powi (snd a - e) * 10 powi e"
    using power_int_add [of "10 :: rat" "snd a - e" e] by simp
  also have "(10 :: rat) powi (snd a - e) = 10 ^ nat (snd a - e)"
    using assms by (simp add: power_int_def)
  finally show ?thesis by (simp add: ref_rescale_def)
qed

lemma ref_values:
  "of_int (fst a) * 10 powi snd a = (of_int (ref_rescale a (ref_align a b)) :: rat) * 10 powi ref_align a b"
  "of_int (fst b) * 10 powi snd b = (of_int (ref_rescale b (ref_align a b)) :: rat) * 10 powi ref_align a b"
  by (simp_all add: ref_rescale_value ref_align_def)

lemma ref_less_value:
  "ref_less a b \<longleftrightarrow> (of_int (fst a) * 10 powi snd a :: rat) < of_int (fst b) * 10 powi snd b"
proof -
  have "(0 :: rat) < 10 powi ref_align a b" by simp
  then show ?thesis
    unfolding ref_values [where a = a and b = b]
    by (simp only: ref_less_def mult_less_cancel_right_pos of_int_less_iff)
qed

lemma ref_equal_value:
  "ref_equal a b \<longleftrightarrow> (of_int (fst a) * 10 powi snd a :: rat) = of_int (fst b) * 10 powi snd b"
  unfolding ref_values [where a = a and b = b] by (simp add: ref_equal_def)

lemma ref_add_value:
  "(of_int (fst (ref_add a b)) * 10 powi snd (ref_add a b) :: rat) =
     of_int (fst a) * 10 powi snd a + of_int (fst b) * 10 powi snd b"
  unfolding ref_values [where a = a and b = b] by (simp add: ref_add_def algebra_simps)

lemma ref_sub_value:
  "(of_int (fst (ref_sub a b)) * 10 powi snd (ref_sub a b) :: rat) =
     of_int (fst a) * 10 powi snd a - of_int (fst b) * 10 powi snd b"
  unfolding ref_values [where a = a and b = b] by (simp add: ref_sub_def algebra_simps)

lemma ref_decimal_sel [simp]:
  "Coefficient ref_decimal = fst" "Exponent ref_decimal = snd"
  "Sign ref_decimal a = sgn (fst a)" "NewDecimal ref_decimal = Pair"
  "Abs ref_decimal a = (\<bar>fst a\<bar>, snd a)" "GreaterThanOrEqual ref_decimal a b = (\<not> ref_less a b)"
  "LessThan ref_decimal = ref_less" "Equal ref_decimal = ref_equal"
  "Add ref_decimal = ref_add" "Sub ref_decimal = ref_sub" "of_numeric ref_decimal n = (n, - 18)"
  by (simp_all add: ref_decimal_def)

lemma ref_decimal_value: "decimal_value ref_decimal d = of_int (fst d) * 10 powi snd d"
  by (simp add: decimal_value_def)

interpretation refdec: decimal_laws ref_decimal
proof
  fix a b :: refdec and c e n :: int
  show "of_int (Sign ref_decimal a) = sgn (decimal_value ref_decimal a)"
    by (simp add: ref_decimal_value sgn_mult) (simp add: sgn_if)
  show "decimal_value ref_decimal (NewDecimal ref_decimal c e) = of_int c * 10 powi e"
    by (simp add: ref_decimal_value)
  show "decimal_value ref_decimal (Abs ref_decimal a) = \<bar>decimal_value ref_decimal a\<bar>"
    by (simp add: ref_decimal_value abs_mult)
  show "GreaterThanOrEqual ref_decimal a b \<longleftrightarrow>
      decimal_value ref_decimal b \<le> decimal_value ref_decimal a"
    by (simp only: ref_decimal_sel ref_decimal_value ref_less_value not_less)
  show "LessThan ref_decimal a b \<longleftrightarrow>
      decimal_value ref_decimal a < decimal_value ref_decimal b"
    by (simp only: ref_decimal_sel ref_decimal_value ref_less_value)
  show "Equal ref_decimal a b \<longleftrightarrow>
      decimal_value ref_decimal a = decimal_value ref_decimal b"
    by (simp only: ref_decimal_sel ref_decimal_value ref_equal_value)
  show "decimal_value ref_decimal (Add ref_decimal a b) =
      decimal_value ref_decimal a + decimal_value ref_decimal b"
    by (simp only: ref_decimal_sel ref_decimal_value ref_add_value)
  show "decimal_value ref_decimal (Sub ref_decimal a b) =
      decimal_value ref_decimal a - decimal_value ref_decimal b"
    by (simp only: ref_decimal_sel ref_decimal_value ref_sub_value)
  show "decimal_value ref_decimal (of_numeric ref_decimal n) = numeric_value n"
    by (simp add: numeric_value_def ref_decimal_value power_int_def field_simps)
qed

end
