(* ===== verification/Repository.thy ===== *)
theory Repository
  imports Querier Decimal
begin

text \<open>
  \<open>internal/repository\<close>: the classification of PostgreSQL errors (\<open>errors.go\<close>), the account and
  transfer repositories (\<open>account_repo.go\<close>, \<open>transfer_repo.go\<close>) and the transaction manager with
  its retry loop (\<open>tx.go\<close>). Every method is a program over the database interactions of
  \<open>Querier\<close>; a method that returns only an \<open>error\<close> answers \<open>Inl err\<close> or \<open>Inr ()\<close>.
\<close>

subsection \<open>errors.go\<close>

definition codeUniqueViolation :: string where
  "codeUniqueViolation = ''23505''"

definition codeCheckViolation :: string where
  "codeCheckViolation = ''23514''"

definition pgErrorCode :: "go_error \<Rightarrow> string" where
  "pgErrorCode err = (case errors_As_PgError err of Some (code, constraint) \<Rightarrow> code | None \<Rightarrow> '''')"

definition constraintName :: "go_error \<Rightarrow> string" where
  "constraintName err =
     (case errors_As_PgError err of Some (code, constraint) \<Rightarrow> constraint | None \<Rightarrow> '''')"

definition isUniqueViolation :: "go_error \<Rightarrow> string \<Rightarrow> bool" where
  "isUniqueViolation err constraint \<longleftrightarrow>
     pgErrorCode err = codeUniqueViolation \<and> constraintName err = constraint"

subsection \<open>account_repo.go\<close>

text \<open>\<open>Scan\<close> into the five fields of an account; any other row shape is a scan error.\<close>

definition scanAccount :: "'d cell list \<Rightarrow> go_error + 'd Account" where
  "scanAccount cells =
     (case cells of
        [CInt i, CDecimal b, CInt v, CTime c, CTime u] \<Rightarrow>
          Inr \<lparr>acc_ID = i, acc_Balance = b, acc_Version = v, acc_CreatedAt = c, acc_UpdatedAt = u\<rparr>
      | _ \<Rightarrow> Inl (ExternalError ''scan''))"

definition AccountRepository_Create ::
    "'d decimal_ops \<Rightarrow> querier \<Rightarrow> int64 \<Rightarrow> 'd \<Rightarrow> ('d, go_error + unit) prog" where
  "AccountRepository_Create D q i balance =
     bind_prog (Exec q (SqlInsertAccount i balance)) (\<lambda>r. case r of
       Inl err \<Rightarrow>
         (if isUniqueViolation err ''accounts_pkey'' then Return (Inl ErrAccountAlreadyExists)
          else Return (Inl (Wrapf ''insert account'' err)))
     | Inr _ \<Rightarrow>
         (if Sign D balance > 0 then
            bind_prog (Exec q (SqlInsertDeposit i balance)) (\<lambda>r. case r of
              Inl err \<Rightarrow> Return (Inl (Wrapf ''insert deposit'' err))
            | Inr _ \<Rightarrow> Return (Inr ()))
          else Return (Inr ())))"

text \<open>\<open>q.QueryRow(...).Scan(...)\<close>: one error for the query and the scan.\<close>

definition QueryRowScan ::
    "querier \<Rightarrow> 'd sql \<Rightarrow> ('d cell list \<Rightarrow> go_error + 'a) \<Rightarrow> ('d, go_error + 'a) prog" where
  "QueryRowScan q stmt scan = andThen (QueryRow q stmt) (\<lambda>cells. Return (scan cells))"

definition AccountRepository_Get :: "querier \<Rightarrow> int64 \<Rightarrow> ('d, go_error + 'd Account) prog" where
  "AccountRepository_Get q i =
     bind_prog (QueryRowScan q (SqlSelectAccount i) scanAccount) (\<lambda>r. case r of
       Inl err \<Rightarrow>
         (if errors_Is err ErrNoRows then Return (Inl (AccountNotFound i))
          else Return (Inl (Wrapf ''get account'' err)))
     | Inr a \<Rightarrow> Return (Inr a))"

text \<open>The loop of \<open>LockForUpdate\<close> over the result rows, with the map built so far.\<close>

fun collectAccounts ::
    "'d cell list list \<Rightarrow> (int64 \<Rightarrow> 'd Account option) \<Rightarrow> go_error + (int64 \<Rightarrow> 'd Account option)" where
  "collectAccounts [] out = Inr out"
| "collectAccounts (row # rows) out =
     (case scanAccount row of
        Inl err \<Rightarrow> Inl (Wrapf ''scan account'' err)
      | Inr a \<Rightarrow> collectAccounts rows (out(acc_ID a \<mapsto> a)))"

definition AccountRepository_LockForUpdate ::
    "querier \<Rightarrow> int64 list \<Rightarrow> ('d, go_error + (int64 \<Rightarrow> 'd Account option)) prog" where
  "AccountRepository_LockForUpdate q ids =
     bind_prog (Query q (SqlLockAccounts ids)) (\<lambda>r. case r of
       Inl err \<Rightarrow> Return (Inl (Wrapf ''lock accounts'' err))
     | Inr (rows, rowsErr) \<Rightarrow>
         (case collectAccounts rows Map.empty of
            Inl err \<Rightarrow> Return (Inl err)
          | Inr out \<Rightarrow>
              (case rowsErr of
                 Some err \<Rightarrow> Return (Inl (Wrapf ''iterate accounts'' err))
               | None \<Rightarrow> Return (Inr out))))"

definition AccountRepository_UpdateBalance ::
    "querier \<Rightarrow> int64 \<Rightarrow> 'd \<Rightarrow> ('d, go_error + unit) prog" where
  "AccountRepository_UpdateBalance q i balance =
     bind_prog (Exec q (SqlUpdateBalance i balance)) (\<lambda>r. case r of
       Inl err \<Rightarrow>
         (if pgErrorCode err = codeCheckViolation then Return (Inl ErrInsufficientFunds)
          else Return (Inl (Wrapf ''update balance'' err)))
     | Inr _ \<Rightarrow> Return (Inr ()))"

subsection \<open>transfer_repo.go\<close>

definition scanTransfer :: "'d cell list \<Rightarrow> go_error + 'd Transfer" where
  "scanTransfer cells =
     (case cells of
        [CInt i, k, CInt src, CInt dst, CDecimal amt, CText st, CTime c] \<Rightarrow>
          (case k of
             CText key \<Rightarrow> Inr \<lparr>tr_ID = i, tr_IdempotencyKey = Some key, tr_SourceID = src,
               tr_DestinationID = dst, tr_Amount = amt, tr_Status = st, tr_CreatedAt = c\<rparr>
           | CNull \<Rightarrow> Inr \<lparr>tr_ID = i, tr_IdempotencyKey = None, tr_SourceID = src,
               tr_DestinationID = dst, tr_Amount = amt, tr_Status = st, tr_CreatedAt = c\<rparr>
           | _ \<Rightarrow> Inl (ExternalError ''scan''))
      | _ \<Rightarrow> Inl (ExternalError ''scan''))"

definition scanID :: "'d cell list \<Rightarrow> go_error + int64" where
  "scanID cells = (case cells of [CInt i] \<Rightarrow> Inr i | _ \<Rightarrow> Inl (ExternalError ''scan''))"

text \<open>The pair of results \<open>(transfer, found)\<close> is an option.\<close>

definition TransferRepository_FindByIdempotencyKey ::
    "querier \<Rightarrow> string \<Rightarrow> ('d, go_error + 'd Transfer option) prog" where
  "TransferRepository_FindByIdempotencyKey q key =
     bind_prog (QueryRowScan q (SqlFindTransfer key) scanTransfer) (\<lambda>r. case r of
       Inl err \<Rightarrow>
         (if errors_Is err ErrNoRows then Return (Inr None)
          else Return (Inl (Wrapf ''find transfer'' err)))
     | Inr t \<Rightarrow> Return (Inr (Some t)))"

definition TransferRepository_Insert ::
    "querier \<Rightarrow> 'd Transfer \<Rightarrow> ('d, go_error + int64) prog" where
  "TransferRepository_Insert q t =
     bind_prog (QueryRowScan q (SqlInsertTransfer (tr_IdempotencyKey t) (tr_SourceID t)
         (tr_DestinationID t) (tr_Amount t) (tr_Status t)) scanID) (\<lambda>r. case r of
       Inl err \<Rightarrow>
         (if isUniqueViolation err ''uq_transfers_idempotency_key''
          then Return (Inl ErrDuplicateIdempotencyKey)
          else Return (Inl (Wrapf ''insert transfer'' err)))
     | Inr i \<Rightarrow> Return (Inr i))"

definition TransferRepository_InsertLedgerEntry ::
    "querier \<Rightarrow> 'd LedgerEntry \<Rightarrow> ('d, go_error + unit) prog" where
  "TransferRepository_InsertLedgerEntry q e =
     bind_prog (Exec q (SqlInsertLedgerEntry (le_TransferID e) (le_AccountID e)
         (direction_string (le_Direction e)) (le_Amount e) (le_BalanceAfter e))) (\<lambda>r. case r of
       Inl err \<Rightarrow> Return (Inl (Wrapf ''insert ledger entry'' err))
     | Inr _ \<Rightarrow> Return (Inr ()))"

subsection \<open>tx.go\<close>

definition maxTxRetries :: nat where
  "maxTxRetries = 3"

definition isRetryable :: "go_error \<Rightarrow> bool" where
  "isRetryable err =
     (case errors_As_PgError err of
        Some (code, constraint) \<Rightarrow> code = ''40001'' \<or> code = ''40P01''
      | None \<Rightarrow> False)"

text \<open>
  The function given to \<open>WithTx\<close> returns an \<open>error\<close> and leaves its other results in variables of
  its caller; here it answers both, and the caller reads the second only on success.
  The deferred \<open>Rollback\<close> runs after the body on every path; its error is ignored.
\<close>

definition runOnce :: "(querier \<Rightarrow> ('d, go_error + 'a) prog) \<Rightarrow> ('d, go_error + 'a) prog" where
  "runOnce fn =
     DoBegin (\<lambda>r. case r of
       Inl err \<Rightarrow> Return (Inl (Wrapf ''begin'' err))
     | Inr _ \<Rightarrow>
         bind_prog
           (andThen (fn Tx) (\<lambda>x. DoCommit (\<lambda>r. case r of
              Inl err \<Rightarrow> Return (Inl (Wrapf ''commit'' err))
            | Inr _ \<Rightarrow> Return (Inr x))))
           (\<lambda>result. DoRollback (\<lambda>_. Return result)))"

text \<open>The loop with the number of attempts left. \<open>fmt.Errorf\<close> renders a nil error as \<open>%!w(<nil>)\<close>.\<close>

fun withTxLoop ::
    "nat \<Rightarrow> go_error option \<Rightarrow> (querier \<Rightarrow> ('d, go_error + 'a) prog) \<Rightarrow> ('d, go_error + 'a) prog" where
  "withTxLoop 0 lastErr fn =
     (let prefix = ''transaction failed after '' @ fmt_d (int maxTxRetries) @ '' attempts''
      in Return (Inl (case lastErr of
           Some err \<Rightarrow> Wrapf prefix err
         | None \<Rightarrow> ExternalError (prefix @ '': %!w(<nil>)''))))"
| "withTxLoop (Suc n) lastErr fn =
     bind_prog (runOnce fn) (\<lambda>r. case r of
       Inr x \<Rightarrow> Return (Inr x)
     | Inl err \<Rightarrow>
         (if \<not> isRetryable err then Return (Inl err) else withTxLoop n (Some err) fn))"

definition WithTx :: "(querier \<Rightarrow> ('d, go_error + 'a) prog) \<Rightarrow> ('d, go_error + 'a) prog" where
  "WithTx fn = withTxLoop maxTxRetries None fn"

end
