(* ===== verification/Uuid.thy ===== *)
theory Uuid
  imports Prelude
begin

text \<open>
  The interfaces of the two parsers of idempotency keys, neither of which is part of the
  repository: \<open>uuid.Parse\<close> (github.com/google/uuid; the service only asks whether it succeeds), and
  the input and output functions of PostgreSQL's \<open>uuid\<close> type, which the casts \<open>$1::uuid\<close> and
  \<open>idempotency_key::text\<close> of the statements call. \<open>'u\<close> is the type of a stored UUID. The record
  also holds the rendered text of a server error, by code and constraint.

  Nothing says that the two parsers accept the same strings, and they do not: \<open>uuid.Parse\<close>
  documents that it takes a \<open>urn:uuid:\<close> prefix, which PostgreSQL's input function does not. The
  reference implementation, on which the witnesses run, has that difference.
\<close>

record 'u uuid_ops =
  uuid_Parse :: "string \<Rightarrow> bool"
  pg_uuid_in :: "string \<Rightarrow> 'u option"
  pg_uuid_out :: "'u \<Rightarrow> string"
  pg_message :: "string \<Rightarrow> string \<Rightarrow> string"

subsection \<open>A reference implementation: the hexadecimal digits\<close>

definition hex_value :: "char \<Rightarrow> nat option" where
  "hex_value c = (let n = of_char c in
     if 48 \<le> n \<and> n \<le> 57 then Some (n - 48)
     else if 97 \<le> n \<and> n \<le> 102 then Some (n - 87)
     else if 65 \<le> n \<and> n \<le> 70 then Some (n - 55)
     else None)"

definition hex_char :: "nat \<Rightarrow> char" where
  "hex_char d = (if d < 10 then char_of (48 + d) else char_of (87 + d))"

text \<open>The hexadecimal digits of a string, with hyphens allowed after every fourth digit.\<close>

fun hex_digits :: "nat \<Rightarrow> string \<Rightarrow> nat list option" where
  "hex_digits n [] = Some []"
| "hex_digits n (c # cs) =
     (if c = CHR ''-'' \<and> 0 < n \<and> n mod 4 = 0 \<and> cs \<noteq> [] then hex_digits n cs
      else case hex_value c of None \<Rightarrow> None | Some d \<Rightarrow> map_option (Cons d) (hex_digits (Suc n) cs))"

definition ref_pg_uuid_in :: "string \<Rightarrow> nat list option" where
  "ref_pg_uuid_in s =
     (let body = (if s \<noteq> [] \<and> hd s = CHR ''{'' \<and> last s = CHR ''}'' then butlast (tl s) else s) in
      case hex_digits 0 body of
        None \<Rightarrow> None
      | Some ds \<Rightarrow> if length ds = 32 then Some ds else None)"

definition ref_uuid_Parse :: "string \<Rightarrow> bool" where
  "ref_uuid_Parse s =
     (let body = (if take 9 s = ''urn:uuid:'' then drop 9 s else s) in
      ref_pg_uuid_in body \<noteq> None)"

definition ref_uuid :: "nat list uuid_ops" where
  "ref_uuid =
     \<lparr>uuid_Parse = ref_uuid_Parse, pg_uuid_in = ref_pg_uuid_in, pg_uuid_out = map hex_char,
      pg_message = (\<lambda>code constraint. code @ '' '' @ constraint)\<rparr>"

text \<open>The key of the unit and integration tests, and the same key as a URN.\<close>

definition sample_key :: string where
  "sample_key = ''550e8400-e29b-41d4-a716-446655440000''"

lemma ref_uuid_sample:
  "uuid_Parse ref_uuid sample_key" "pg_uuid_in ref_uuid sample_key \<noteq> None"
  "uuid_Parse ref_uuid (''urn:uuid:'' @ sample_key)"
  "pg_uuid_in ref_uuid (''urn:uuid:'' @ sample_key) = None"
  by code_simp+

end
