(* ===== verification/Database.thy ===== *)
theory Database
  imports Schema Repository Uuid
begin

text \<open>
  What the statements of the repositories do on the schema, and transactions: the semantics of the
  SQL text of \<open>account_repo.go\<close> and \<open>transfer_repo.go\<close> over the tables of
  \<open>migrations/0001_init.up.sql\<close>.

  \<^item> \<open>sql_step\<close> evaluates one statement on the tables that its session sees. It answers the rows it
    returns and the writes it makes, or the server error, and the sequences after it. Values are
    converted to the column's type first, then come the \<open>CHECK\<close> constraints, the unique indexes and
    the foreign keys, each with the constraint's name.
  \<^item> A \<open>world\<close> is the database as one session meets it: the committed tables, the sequences, the
    session's open transaction (the writes it has made so far, and whether a statement of it has
    failed), the server's clock, and a script of what goes wrong outside the program's control at
    its next interactions (a broken connection, a deadlock or serialization failure chosen by the
    server, an acknowledgement that is lost with the connection, so that a commit took effect but its
    caller gets an error). Theorems hold for every script.
  \<^item> \<open>pg\<close> is the handler that answers a program's interactions on a world.

  \<open>D\<close> and \<open>U\<close> are the decimal and UUID libraries.
\<close>

subsection \<open>Statements\<close>

definition pg_error :: "'u uuid_ops \<Rightarrow> string \<Rightarrow> string \<Rightarrow> go_error" where
  "pg_error U code constraint = PgError code constraint (pg_message U code constraint)"

definition has_account :: "'u tables \<Rightarrow> int64 \<Rightarrow> bool" where
  "has_account t i \<longleftrightarrow> account_row_of t i \<noteq> None"

definition has_transfer :: "'u tables \<Rightarrow> int64 \<Rightarrow> bool" where
  "has_transfer t i \<longleftrightarrow> lookup_by xr_id i (transfers t) \<noteq> None"

definition transfer_by_key :: "'u tables \<Rightarrow> 'u \<Rightarrow> 'u transfer_row option" where
  "transfer_by_key t k = lookup_by xr_idempotency_key (Some k) (transfers t)"

definition account_cells :: "'d decimal_ops \<Rightarrow> account_row \<Rightarrow> 'd cell list" where
  "account_cells D r =
     [CInt (ar_id r), CDecimal (of_numeric D (ar_balance r)), CInt (ar_version r),
      CTime (ar_created_at r), CTime (ar_updated_at r)]"

definition transfer_cells :: "'d decimal_ops \<Rightarrow> 'u uuid_ops \<Rightarrow> 'u transfer_row \<Rightarrow> 'd cell list" where
  "transfer_cells D U r =
     [CInt (xr_id r), (case xr_idempotency_key r of None \<Rightarrow> CNull | Some k \<Rightarrow> CText (pg_uuid_out U k)),
      CInt (xr_source_id r), CInt (xr_destination_id r), CDecimal (of_numeric D (xr_amount r)),
      CText (xr_status r), CTime (xr_created_at r)]"

type_synonym ('d, 'u) step_result = "(go_error + ('d cell list list \<times> 'u db_write list)) \<times> sequences"

text \<open>\<open>INSERT INTO accounts (id, balance) VALUES ($1, $2)\<close>\<close>

definition insert_account ::
    "'d decimal_ops \<Rightarrow> 'u uuid_ops \<Rightarrow> timestamp \<Rightarrow> 'u tables \<Rightarrow> sequences \<Rightarrow> int64 \<Rightarrow> 'd \<Rightarrow> ('d, 'u) step_result" where
  "insert_account D U now t sq i balance =
     (case numeric_in (decimal_value D balance) of
        None \<Rightarrow> (Inl (pg_error U ''22003'' ''''), sq)
      | Some n \<Rightarrow>
          if n < 0 then (Inl (pg_error U ''23514'' ''balance_non_negative''), sq)
          else if has_account t i then (Inl (pg_error U ''23505'' ''accounts_pkey''), sq)
          else (Inr ([], [WAccount \<lparr>ar_id = i, ar_balance = n, ar_version = 0,
                                    ar_created_at = now, ar_updated_at = now\<rparr>]), sq))"

text \<open>\<open>INSERT INTO deposits (account_id, amount) VALUES ($1, $2)\<close>\<close>

definition insert_deposit ::
    "'d decimal_ops \<Rightarrow> 'u uuid_ops \<Rightarrow> timestamp \<Rightarrow> 'u tables \<Rightarrow> sequences \<Rightarrow> int64 \<Rightarrow> 'd \<Rightarrow> ('d, 'u) step_result" where
  "insert_deposit D U now t sq i amount =
     (case nextval (deposits_id_seq sq) of
        None \<Rightarrow> (Inl (pg_error U ''2200H'' ''''), sq)
      | Some k \<Rightarrow>
          let sq' = sq\<lparr>deposits_id_seq := k\<rparr> in
          (case numeric_in (decimal_value D amount) of
             None \<Rightarrow> (Inl (pg_error U ''22003'' ''''), sq')
           | Some n \<Rightarrow>
               if n \<le> 0 then (Inl (pg_error U ''23514'' ''deposits_amount_check''), sq')
               else if word_of_int k \<in> dr_id ` set (deposits t)
                 then (Inl (pg_error U ''23505'' ''deposits_pkey''), sq')
               else if \<not> has_account t i then (Inl (pg_error U ''23503'' ''deposits_account_id_fkey''), sq')
               else (Inr ([], [WDeposit \<lparr>dr_id = word_of_int k, dr_account_id = i, dr_amount = n,
                                         dr_created_at = now\<rparr>]), sq')))"

text \<open>\<open>SELECT id, balance, version, created_at, updated_at FROM accounts WHERE id = $1\<close>, and the same
  columns for \<open>WHERE id = ANY($1) ORDER BY id FOR UPDATE\<close>. The row locks matter to other sessions
  only.\<close>

definition select_account :: "'d decimal_ops \<Rightarrow> 'u tables \<Rightarrow> int64 \<Rightarrow> 'd cell list list" where
  "select_account D t i = map (account_cells D) (filter (\<lambda>r. ar_id r = i) (accounts t))"

definition lock_rows :: "'u tables \<Rightarrow> int64 list \<Rightarrow> account_row list" where
  "lock_rows t ids = sort_key (\<lambda>r. sint (ar_id r)) (filter (\<lambda>r. ar_id r \<in> set ids) (accounts t))"

text \<open>\<open>UPDATE accounts SET balance = $2, version = version + 1, updated_at = now() WHERE id = $1\<close>;
  \<open>version\<close> is a \<open>BIGINT\<close>, whose addition is checked.\<close>

definition update_balance ::
    "'d decimal_ops \<Rightarrow> 'u uuid_ops \<Rightarrow> timestamp \<Rightarrow> 'u tables \<Rightarrow> sequences \<Rightarrow> int64 \<Rightarrow> 'd \<Rightarrow> ('d, 'u) step_result" where
  "update_balance D U now t sq i balance =
     (case account_row_of t i of
        None \<Rightarrow> (Inr ([], []), sq)
      | Some r \<Rightarrow>
          (case numeric_in (decimal_value D balance) of
             None \<Rightarrow> (Inl (pg_error U ''22003'' ''''), sq)
           | Some n \<Rightarrow>
               if sint (ar_version r) = 2 ^ 63 - 1 then (Inl (pg_error U ''22003'' ''''), sq)
               else if n < 0 then (Inl (pg_error U ''23514'' ''balance_non_negative''), sq)
               else (Inr ([], [WBalance i n now]), sq)))"

text \<open>\<open>SELECT id, idempotency_key::text, ... FROM transfers WHERE idempotency_key = $1::uuid\<close>\<close>

definition find_transfer ::
    "'d decimal_ops \<Rightarrow> 'u uuid_ops \<Rightarrow> 'u tables \<Rightarrow> sequences \<Rightarrow> string \<Rightarrow> ('d, 'u) step_result" where
  "find_transfer D U t sq key =
     (case pg_uuid_in U key of
        None \<Rightarrow> (Inl (pg_error U ''22P02'' ''''), sq)
      | Some k \<Rightarrow>
          (Inr (map (transfer_cells D U)
                 (filter (\<lambda>r. xr_idempotency_key r = Some k) (transfers t)), []), sq))"

text \<open>\<open>INSERT INTO transfers (...) VALUES ($1::uuid, $2, $3, $4, $5) RETURNING id\<close>. The parameter
  \<open>$1\<close> is a UUID, or NULL, before the statement runs.\<close>

definition uuid_param :: "'u uuid_ops \<Rightarrow> string option \<Rightarrow> 'u option option" where
  "uuid_param U key =
     (case key of None \<Rightarrow> Some None | Some s \<Rightarrow> map_option Some (pg_uuid_in U s))"

definition insert_transfer ::
    "'d decimal_ops \<Rightarrow> 'u uuid_ops \<Rightarrow> timestamp \<Rightarrow> 'u tables \<Rightarrow> sequences \<Rightarrow>
     string option \<Rightarrow> int64 \<Rightarrow> int64 \<Rightarrow> 'd \<Rightarrow> string \<Rightarrow> ('d, 'u) step_result" where
  "insert_transfer D U now t sq key src dst amount status =
     (case uuid_param U key of
        None \<Rightarrow> (Inl (pg_error U ''22P02'' ''''), sq)
      | Some ukey \<Rightarrow>
     (case nextval (transfers_id_seq sq) of
        None \<Rightarrow> (Inl (pg_error U ''2200H'' ''''), sq)
      | Some k \<Rightarrow>
          let sq' = sq\<lparr>transfers_id_seq := k\<rparr> in
          (case numeric_in (decimal_value D amount) of
             None \<Rightarrow> (Inl (pg_error U ''22003'' ''''), sq')
           | Some n \<Rightarrow>
               if src = dst then (Inl (pg_error U ''23514'' ''chk_diff_accounts''), sq')
               else if n \<le> 0 then (Inl (pg_error U ''23514'' ''transfers_amount_check''), sq')
               else if has_transfer t (word_of_int k) then (Inl (pg_error U ''23505'' ''transfers_pkey''), sq')
               else if ukey \<noteq> None \<and> transfer_by_key t (the ukey) \<noteq> None
                 then (Inl (pg_error U ''23505'' ''uq_transfers_idempotency_key''), sq')
               else if \<not> has_account t src then (Inl (pg_error U ''23503'' ''transfers_source_id_fkey''), sq')
               else if \<not> has_account t dst then (Inl (pg_error U ''23503'' ''transfers_destination_id_fkey''), sq')
               else (Inr ([[CInt (word_of_int k)]],
                          [WTransfer \<lparr>xr_id = word_of_int k, xr_idempotency_key = ukey,
                             xr_source_id = src, xr_destination_id = dst, xr_amount = n,
                             xr_status = status, xr_created_at = now\<rparr>]), sq'))))"

text \<open>\<open>INSERT INTO ledger_entries (transfer_id, account_id, direction, amount, balance_after) ...\<close>\<close>

definition insert_ledger_entry ::
    "'d decimal_ops \<Rightarrow> 'u uuid_ops \<Rightarrow> timestamp \<Rightarrow> 'u tables \<Rightarrow> sequences \<Rightarrow>
     int64 \<Rightarrow> int64 \<Rightarrow> string \<Rightarrow> 'd \<Rightarrow> 'd \<Rightarrow> ('d, 'u) step_result" where
  "insert_ledger_entry D U now t sq tid i dir amount balance_after =
     (case nextval (ledger_entries_id_seq sq) of
        None \<Rightarrow> (Inl (pg_error U ''2200H'' ''''), sq)
      | Some k \<Rightarrow>
          let sq' = sq\<lparr>ledger_entries_id_seq := k\<rparr> in
          (case (numeric_in (decimal_value D amount), numeric_in (decimal_value D balance_after)) of
             (Some n, Some b) \<Rightarrow>
               if n \<le> 0 then (Inl (pg_error U ''23514'' ''ledger_entries_amount_check''), sq')
               else if word_of_int k \<in> lr_id ` set (ledger_entries t)
                 then (Inl (pg_error U ''23505'' ''ledger_entries_pkey''), sq')
               else if \<not> has_transfer t tid then (Inl (pg_error U ''23503'' ''ledger_entries_transfer_id_fkey''), sq')
               else if \<not> has_account t i then (Inl (pg_error U ''23503'' ''ledger_entries_account_id_fkey''), sq')
               else (Inr ([], [WLedgerEntry \<lparr>lr_id = word_of_int k, lr_transfer_id = tid,
                             lr_account_id = i, lr_direction = dir, lr_amount = n,
                             lr_balance_after = b, lr_created_at = now\<rparr>]), sq')
           | _ \<Rightarrow> (Inl (pg_error U ''22003'' ''''), sq')))"

fun sql_step ::
    "'d decimal_ops \<Rightarrow> 'u uuid_ops \<Rightarrow> timestamp \<Rightarrow> 'u tables \<Rightarrow> sequences \<Rightarrow> 'd sql \<Rightarrow> ('d, 'u) step_result" where
  "sql_step D U now t sq (SqlInsertAccount i b) = insert_account D U now t sq i b"
| "sql_step D U now t sq (SqlInsertDeposit i a) = insert_deposit D U now t sq i a"
| "sql_step D U now t sq (SqlSelectAccount i) = (Inr (select_account D t i, []), sq)"
| "sql_step D U now t sq (SqlLockAccounts ids) = (Inr (map (account_cells D) (lock_rows t ids), []), sq)"
| "sql_step D U now t sq (SqlUpdateBalance i b) = update_balance D U now t sq i b"
| "sql_step D U now t sq (SqlFindTransfer key) = find_transfer D U t sq key"
| "sql_step D U now t sq (SqlInsertTransfer key src dst a st) = insert_transfer D U now t sq key src dst a st"
| "sql_step D U now t sq (SqlInsertLedgerEntry tid i dir a b) = insert_ledger_entry D U now t sq tid i dir a b"

subsection \<open>Transactions\<close>

text \<open>What an interaction meets: nothing, an error of the server's own (a deadlock, a serialization
  failure, a cancelled statement, ...), a broken connection, or a connection that breaks when the
  server has done its part.\<close>

datatype fault = NoFault | ServerError string string string | ConnError string | LostAck string

definition fault_error :: "fault \<Rightarrow> go_error option" where
  "fault_error f =
     (case f of
        NoFault \<Rightarrow> None
      | ServerError code constraint msg \<Rightarrow> Some (PgError code constraint msg)
      | ConnError msg \<Rightarrow> Some (ExternalError msg)
      | LostAck msg \<Rightarrow> Some (ExternalError msg))"

record 'u txn =
  tx_writes :: "'u db_write list"
  tx_failed :: bool

record 'u world =
  committed :: "'u tables"
  seqs :: sequences
  txn :: "'u txn option"
  clock :: timestamp
  script :: "fault list"

definition next_fault :: "'u world \<Rightarrow> fault \<times> 'u world" where
  "next_fault w = (case script w of [] \<Rightarrow> (NoFault, w) | f # fs \<Rightarrow> (f, w\<lparr>script := fs\<rparr>))"

text \<open>What the session sees: the committed tables with its own uncommitted writes.\<close>

definition view :: "'u world \<Rightarrow> 'u tables" where
  "view w = (case txn w of None \<Rightarrow> committed w | Some t \<Rightarrow> apply_writes (tx_writes t) (committed w))"

definition ErrTxClosed :: go_error where
  "ErrTxClosed = ExternalError ''tx is closed''"

definition ErrTxCommitRollback :: go_error where
  "ErrTxCommitRollback = ExternalError ''commit unexpectedly resulted in rollback''"

definition mark_failed :: "'u world \<Rightarrow> 'u world" where
  "mark_failed w = w\<lparr>txn := map_option (\<lambda>t. t\<lparr>tx_failed := True\<rparr>) (txn w)\<rparr>"

text \<open>One statement, on the pool (its own transaction) or in the session's transaction.\<close>

definition pool_statement ::
    "'d decimal_ops \<Rightarrow> 'u uuid_ops \<Rightarrow> 'd sql \<Rightarrow> 'u world \<Rightarrow> (go_error + 'd cell list list) \<times> 'u world" where
  "pool_statement D U stmt w =
     (case sql_step D U (clock w) (committed w) (seqs w) stmt of
        (Inl err, sq) \<Rightarrow> (Inl err, w\<lparr>seqs := sq\<rparr>)
      | (Inr (rows, ws), sq) \<Rightarrow>
          (Inr rows, w\<lparr>seqs := sq, committed := apply_writes ws (committed w)\<rparr>))"

definition tx_statement ::
    "'d decimal_ops \<Rightarrow> 'u uuid_ops \<Rightarrow> 'd sql \<Rightarrow> 'u world \<Rightarrow> (go_error + 'd cell list list) \<times> 'u world" where
  "tx_statement D U stmt w =
     (case txn w of
        None \<Rightarrow> (Inl ErrTxClosed, w)
      | Some t \<Rightarrow>
          if tx_failed t then (Inl (pg_error U ''25P02'' ''''), w)
          else
            (case sql_step D U (clock w) (view w) (seqs w) stmt of
               (Inl err, sq) \<Rightarrow> (Inl err, mark_failed (w\<lparr>seqs := sq\<rparr>))
             | (Inr (rows, ws), sq) \<Rightarrow>
                 (Inr rows, w\<lparr>seqs := sq, txn := Some (t\<lparr>tx_writes := tx_writes t @ ws\<rparr>)\<rparr>)))"

definition statement ::
    "'d decimal_ops \<Rightarrow> 'u uuid_ops \<Rightarrow> querier \<Rightarrow> 'd sql \<Rightarrow> 'u world \<Rightarrow> (go_error + 'd cell list list) \<times> 'u world" where
  "statement D U q stmt w =
     (case next_fault w of
        (f, w') \<Rightarrow>
          (case fault_error f of
             None \<Rightarrow> (case q of Pool \<Rightarrow> pool_statement D U stmt w' | Tx \<Rightarrow> tx_statement D U stmt w')
           | Some err \<Rightarrow> (Inl err, if q = Tx then mark_failed w' else w')))"

definition pg_exec where
  "pg_exec D U q stmt w =
     (case statement D U q stmt w of (r, w') \<Rightarrow> (case r of Inl e \<Rightarrow> Inl e | Inr rows \<Rightarrow> Inr (), w'))"

definition pg_query where
  "pg_query D U q stmt w =
     (case statement D U q stmt w of
        (r, w') \<Rightarrow> (case r of Inl e \<Rightarrow> Inl e | Inr rows \<Rightarrow> Inr (rows, None), w'))"

definition pg_query_row where
  "pg_query_row D U q stmt w =
     (case statement D U q stmt w of
        (r, w') \<Rightarrow>
          (case r of Inl e \<Rightarrow> Inl e | Inr rows \<Rightarrow> (case rows of [] \<Rightarrow> Inl ErrNoRows | row # _ \<Rightarrow> Inr row), w'))"

definition pg_begin :: "'u world \<Rightarrow> (go_error + unit) \<times> 'u world" where
  "pg_begin w =
     (case next_fault w of
        (f, w') \<Rightarrow>
          (case fault_error f of
             None \<Rightarrow> (Inr (), w'\<lparr>txn := Some \<lparr>tx_writes = [], tx_failed = False\<rparr>\<rparr>)
           | Some err \<Rightarrow> (Inl err, w')))"

definition pg_commit :: "'u world \<Rightarrow> (go_error + unit) \<times> 'u world" where
  "pg_commit w =
     (case txn w of
        None \<Rightarrow> (Inl ErrTxClosed, w)
      | Some t \<Rightarrow>
          (case next_fault w of
             (f, w') \<Rightarrow>
               let ended = w'\<lparr>txn := None\<rparr>;
                   final = w'\<lparr>txn := None, committed := apply_writes (tx_writes t) (committed w')\<rparr> in
               (case f of
                  NoFault \<Rightarrow> if tx_failed t then (Inl ErrTxCommitRollback, ended) else (Inr (), final)
                | ServerError code constraint msg \<Rightarrow> (Inl (PgError code constraint msg), ended)
                | ConnError msg \<Rightarrow> (Inl (ExternalError msg), ended)
                | LostAck msg \<Rightarrow> (Inl (ExternalError msg), if tx_failed t then ended else final))))"

lemma fault_error_simps [simp]:
  "fault_error NoFault = None" "fault_error (ServerError code con msg) = Some (PgError code con msg)"
  "fault_error (ConnError msg) = Some (ExternalError msg)"
  "fault_error (LostAck msg) = Some (ExternalError msg)"
  by (simp_all add: fault_error_def)

text \<open>A rollback ends the transaction on the server even when the connection is lost.\<close>

definition pg_rollback :: "'u world \<Rightarrow> (go_error + unit) \<times> 'u world" where
  "pg_rollback w = (if txn w = None then (Inl ErrTxClosed, w) else (Inr (), w\<lparr>txn := None\<rparr>))"

definition pg :: "'d decimal_ops \<Rightarrow> 'u uuid_ops \<Rightarrow> ('d, 'u world) handler" where
  "pg D U =
     \<lparr>h_Exec = pg_exec D U, h_Query = pg_query D U, h_QueryRow = pg_query_row D U,
      h_Begin = pg_begin, h_Commit = pg_commit, h_Rollback = pg_rollback\<rparr>"

lemma pg_sel [run_simps]:
  "h_Exec (pg D U) = pg_exec D U" "h_Query (pg D U) = pg_query D U"
  "h_QueryRow (pg D U) = pg_query_row D U" "h_Begin (pg D U) = pg_begin"
  "h_Commit (pg D U) = pg_commit" "h_Rollback (pg D U) = pg_rollback"
  by (simp_all add: pg_def)

end
