(* ===== verification/Integrity.thy ===== *)
theory Integrity
  imports Database
begin

text \<open>
  The integrity of the stored data: the constraints of \<open>migrations/0001_init.up.sql\<close> (keys, foreign
  keys, checks, the range of \<open>NUMERIC(38, 18)\<close>), that row ids come from their sequences, and that
  every stored transfer is a completed one. Every statement the repositories send keeps it, whether
  it succeeds or fails.
\<close>

subsection \<open>Row ids\<close>

definition serial_ids :: "int \<Rightarrow> int64 list \<Rightarrow> bool" where
  "serial_ids s ids \<longleftrightarrow> 0 \<le> s \<and> distinct ids \<and> (\<forall>i \<in> set ids. 0 < sint i \<and> sint i \<le> s)"

lemma serial_ids_Nil [simp]: "serial_ids s [] \<longleftrightarrow> 0 \<le> s"
  by (simp add: serial_ids_def)

lemma nextval_SomeD: "nextval s = Some k \<Longrightarrow> k = s + 1 \<and> s < 2 ^ 63 - 1"
  by (simp add: nextval_def split: if_splits)

lemma sint_serial: "0 \<le> k \<Longrightarrow> k < 2 ^ 63 \<Longrightarrow> sint (word_of_int k :: int64) = k"
  by (simp add: sint_sbintrunc' signed_take_bit_int_eq_self)

lemma sint_nextval: "nextval s = Some k \<Longrightarrow> 0 \<le> s \<Longrightarrow> sint (word_of_int k :: int64) = k \<and> k = s + 1"
  using nextval_SomeD [of s k] sint_serial [of k] by simp

lemma serial_ids_fresh:
  "serial_ids s ids \<Longrightarrow> nextval s = Some k \<Longrightarrow> word_of_int k \<notin> set ids"
  using sint_nextval [of s k] by (auto simp: serial_ids_def)

lemma serial_ids_skip: "serial_ids s ids \<Longrightarrow> nextval s = Some k \<Longrightarrow> serial_ids k ids"
  by (fastforce simp: serial_ids_def dest: nextval_SomeD)

lemma serial_ids_snoc:
  "serial_ids s ids \<Longrightarrow> nextval s = Some k \<Longrightarrow> serial_ids k (ids @ [word_of_int k])"
  using sint_nextval [of s k] serial_ids_fresh [of s ids k] serial_ids_skip [of s ids k]
  by (auto simp: serial_ids_def)

subsection \<open>Tables\<close>

definition accounts_ok :: "account_row list \<Rightarrow> bool" where
  "accounts_ok rows \<longleftrightarrow> distinct (map ar_id rows) \<and>
     (\<forall>r \<in> set rows. 0 \<le> ar_balance r \<and> ar_balance r < numeric_limit)"

definition deposits_ok :: "int64 set \<Rightarrow> deposit_row list \<Rightarrow> bool" where
  "deposits_ok A rows \<longleftrightarrow>
     (\<forall>r \<in> set rows. 0 < dr_amount r \<and> dr_amount r < numeric_limit \<and> dr_account_id r \<in> A)"

definition stored_keys :: "'u transfer_row list \<Rightarrow> 'u option list" where
  "stored_keys rows = filter (\<lambda>k. k \<noteq> None) (map xr_idempotency_key rows)"

definition transfers_ok :: "int64 set \<Rightarrow> 'u transfer_row list \<Rightarrow> bool" where
  "transfers_ok A rows \<longleftrightarrow> distinct (stored_keys rows) \<and>
     (\<forall>r \<in> set rows. 0 < xr_amount r \<and> xr_amount r < numeric_limit \<and>
        xr_source_id r \<noteq> xr_destination_id r \<and> xr_source_id r \<in> A \<and> xr_destination_id r \<in> A \<and>
        xr_status r = StatusCompleted)"

definition entries_ok :: "int64 set \<Rightarrow> int64 set \<Rightarrow> ledger_row list \<Rightarrow> bool" where
  "entries_ok A T rows \<longleftrightarrow>
     (\<forall>r \<in> set rows. 0 < lr_amount r \<and> lr_amount r < numeric_limit \<and>
        \<bar>lr_balance_after r\<bar> < numeric_limit \<and> lr_account_id r \<in> A \<and> lr_transfer_id r \<in> T \<and>
        lr_direction r \<in> direction_string ` {DirectionDebit, DirectionCredit})"

definition tables_ok :: "'u tables \<Rightarrow> sequences \<Rightarrow> bool" where
  "tables_ok t sq \<longleftrightarrow>
     accounts_ok (accounts t) \<and> deposits_ok (ar_id ` set (accounts t)) (deposits t) \<and>
     transfers_ok (ar_id ` set (accounts t)) (transfers t) \<and>
     entries_ok (ar_id ` set (accounts t)) (xr_id ` set (transfers t)) (ledger_entries t) \<and>
     serial_ids (deposits_id_seq sq) (map dr_id (deposits t)) \<and>
     serial_ids (transfers_id_seq sq) (map xr_id (transfers t)) \<and>
     serial_ids (ledger_entries_id_seq sq) (map lr_id (ledger_entries t))"

lemma stored_keys_unique:
  "\<lbrakk>distinct (stored_keys rows); r \<in> set rows; r' \<in> set rows;
    xr_idempotency_key r = Some k; xr_idempotency_key r' = Some k\<rbrakk> \<Longrightarrow> r = r'"
proof (induction rows)
  case (Cons a rows)
  have in_keys: "Some k \<in> set (stored_keys rows)" if "x \<in> set rows" "xr_idempotency_key x = Some k" for x
    using that by (force simp: stored_keys_def)
  from Cons show ?case using in_keys by (auto simp: stored_keys_def split: if_splits)
qed simp

lemma has_account_iff: "has_account t i \<longleftrightarrow> i \<in> ar_id ` set (accounts t)"
  by (auto simp: has_account_def account_row_of_def lookup_by_None_iff)

lemma has_transfer_iff: "has_transfer t i \<longleftrightarrow> i \<in> xr_id ` set (transfers t)"
  by (auto simp: has_transfer_def lookup_by_None_iff)

lemma transfer_by_key_None_iff: "transfer_by_key t k = None \<longleftrightarrow> Some k \<notin> set (stored_keys (transfers t))"
  by (auto simp: transfer_by_key_def lookup_by_None_iff stored_keys_def)

lemma numeric_in_Some:
  "numeric_in x = Some n \<Longrightarrow> - numeric_limit < n \<and> n < numeric_limit"
  by (auto simp: numeric_in_def Let_def split: if_splits)

lemma accounts_ok_snoc:
  "accounts_ok (rows @ [r]) \<longleftrightarrow> accounts_ok rows \<and> ar_id r \<notin> ar_id ` set rows \<and>
     0 \<le> ar_balance r \<and> ar_balance r < numeric_limit"
  by (auto simp: accounts_ok_def)

lemma accounts_ok_update:
  "accounts_ok rows \<Longrightarrow> 0 \<le> n \<Longrightarrow> n < numeric_limit \<Longrightarrow>
     accounts_ok (update_by ar_id i (set_balance n now) rows)"
  by (auto simp: accounts_ok_def set_update_by)

lemma ids_update_balance [simp]:
  "ar_id ` set (update_by ar_id i (set_balance n now) rows) = ar_id ` set rows"
  by (simp flip: set_map)

lemma deposits_ok_snoc:
  "deposits_ok A (rows @ [r]) \<longleftrightarrow> deposits_ok A rows \<and> 0 < dr_amount r \<and>
     dr_amount r < numeric_limit \<and> dr_account_id r \<in> A"
  by (auto simp: deposits_ok_def)

lemma transfers_ok_snoc:
  "transfers_ok A (rows @ [r]) \<longleftrightarrow> transfers_ok A rows \<and>
     (xr_idempotency_key r \<noteq> None \<longrightarrow> xr_idempotency_key r \<notin> set (stored_keys rows)) \<and>
     0 < xr_amount r \<and> xr_amount r < numeric_limit \<and> xr_source_id r \<noteq> xr_destination_id r \<and>
     xr_source_id r \<in> A \<and> xr_destination_id r \<in> A \<and> xr_status r = StatusCompleted"
  by (auto simp: transfers_ok_def stored_keys_def)

lemma entries_ok_snoc:
  "entries_ok A T (rows @ [r]) \<longleftrightarrow> entries_ok A T rows \<and> 0 < lr_amount r \<and> lr_amount r < numeric_limit \<and>
     \<bar>lr_balance_after r\<bar> < numeric_limit \<and> lr_account_id r \<in> A \<and> lr_transfer_id r \<in> T \<and>
     lr_direction r \<in> direction_string ` {DirectionDebit, DirectionCredit}"
  by (auto simp: entries_ok_def)

lemma rows_ok_mono:
  "deposits_ok A ds \<Longrightarrow> A \<subseteq> B \<Longrightarrow> deposits_ok B ds"
  "transfers_ok A ts \<Longrightarrow> A \<subseteq> B \<Longrightarrow> transfers_ok B ts"
  "entries_ok A T es \<Longrightarrow> A \<subseteq> B \<Longrightarrow> T \<subseteq> S \<Longrightarrow> entries_ok B S es"
  by (auto simp: deposits_ok_def transfers_ok_def entries_ok_def)

lemma tables_ok_empty: "tables_ok empty_tables \<lparr>deposits_id_seq = 0, transfers_id_seq = 0, ledger_entries_id_seq = 0\<rparr>"
  by (simp add: tables_ok_def empty_tables_def accounts_ok_def deposits_ok_def transfers_ok_def
      entries_ok_def stored_keys_def)

subsection \<open>Every statement keeps the integrity\<close>

text \<open>What the schema leaves to the program: the status a transfer is inserted with, and the direction
  of a ledger entry.\<close>

fun stmt_ok :: "'d sql \<Rightarrow> bool" where
  "stmt_ok (SqlInsertTransfer key src dst amount status) = (status = StatusCompleted)"
| "stmt_ok (SqlInsertLedgerEntry tid i dir amount balance_after) =
     (dir = direction_string DirectionDebit \<or> dir = direction_string DirectionCredit)"
| "stmt_ok _ = True"

definition step_ok :: "'u tables \<Rightarrow> ('d, 'u) step_result \<Rightarrow> bool" where
  "step_ok t res \<longleftrightarrow>
     (case res of (Inl e, sq') \<Rightarrow> tables_ok t sq' | (Inr (rows, ws), sq') \<Rightarrow> tables_ok (apply_writes ws t) sq')"

lemma insert_account_ok:
  "tables_ok t sq \<Longrightarrow> step_ok t (insert_account D U now t sq i b)"
  by (auto simp: step_ok_def insert_account_def tables_ok_def accounts_ok_snoc has_account_iff
      split: option.split dest: numeric_in_Some intro: rows_ok_mono)

lemma insert_deposit_ok:
  "tables_ok t sq \<Longrightarrow> step_ok t (insert_deposit D U now t sq i a)"
  by (auto simp: step_ok_def insert_deposit_def tables_ok_def deposits_ok_snoc has_account_iff Let_def
      split: option.split dest: numeric_in_Some intro: serial_ids_skip serial_ids_snoc)

lemma update_balance_ok:
  "tables_ok t sq \<Longrightarrow> step_ok t (update_balance D U now t sq i b)"
  by (auto simp: step_ok_def update_balance_def tables_ok_def not_less
      split: option.split dest: numeric_in_Some intro: accounts_ok_update)

lemma insert_transfer_ok:
  "tables_ok t sq \<Longrightarrow> status = StatusCompleted \<Longrightarrow>
     step_ok t (insert_transfer D U now t sq key src dst a status)"
  by (auto simp: step_ok_def insert_transfer_def tables_ok_def transfers_ok_snoc has_account_iff
      transfer_by_key_None_iff Let_def split: option.split dest: numeric_in_Some
      intro: serial_ids_skip serial_ids_snoc rows_ok_mono)

lemma insert_ledger_entry_ok:
  "tables_ok t sq \<Longrightarrow> dir = direction_string DirectionDebit \<or> dir = direction_string DirectionCredit \<Longrightarrow>
     step_ok t (insert_ledger_entry D U now t sq tid i dir a b)"
  by (auto simp: step_ok_def insert_ledger_entry_def tables_ok_def entries_ok_snoc has_account_iff
      has_transfer_iff Let_def split: option.split dest: numeric_in_Some
      intro: serial_ids_skip serial_ids_snoc)

lemma sql_step_ok:
  assumes "tables_ok t sq" and "stmt_ok stmt"
  shows "step_ok t (sql_step D U now t sq stmt)"
  using assms
  by (cases stmt)
    (simp_all add: insert_account_ok insert_deposit_ok update_balance_ok insert_transfer_ok
      insert_ledger_entry_ok, simp_all add: step_ok_def find_transfer_def split: option.split)

end
