(* ===== verification/Money.thy ===== *)
theory Money
  imports Domain Decimal
begin

text \<open>
  \<open>internal/service/money.go\<close>: the checks on account ids, transfer amounts and opening balances.
  A Go \<open>error\<close> result is an option, \<open>None\<close> for nil.
\<close>

definition maxDecimalPlaces :: int where
  "maxDecimalPlaces = 18"

definition maxValue :: "'d decimal_ops \<Rightarrow> 'd" where
  "maxValue D = NewDecimal D 1 20"

definition validateAccountID :: "int64 \<Rightarrow> go_error option" where
  "validateAccountID i = (if sint i \<le> 0 then Some ErrInvalidAccountID else None)"

definition checkRangeAndScale :: "'d decimal_ops \<Rightarrow> 'd \<Rightarrow> go_error option" where
  "checkRangeAndScale D v =
     (if Exponent D v < - maxDecimalPlaces then Some ErrInvalidAmount
      else if GreaterThanOrEqual D (Abs D v) (maxValue D) then Some ErrInvalidAmount
      else None)"

definition validateAmount :: "'d decimal_ops \<Rightarrow> 'd \<Rightarrow> go_error option" where
  "validateAmount D amount =
     (if Sign D amount \<le> 0 then Some ErrInvalidAmount else checkRangeAndScale D amount)"

definition validateInitialBalance :: "'d decimal_ops \<Rightarrow> 'd \<Rightarrow> go_error option" where
  "validateInitialBalance D balance =
     (if Sign D balance < 0 then Some ErrInvalidAmount else checkRangeAndScale D balance)"

subsection \<open>What the checks accept\<close>

lemma validate_errors:
  "validateAccountID i = Some e \<Longrightarrow> e = ErrInvalidAccountID"
  "validateAmount D a = Some e \<Longrightarrow> e = ErrInvalidAmount"
  "validateInitialBalance D a = Some e \<Longrightarrow> e = ErrInvalidAmount"
  by (auto simp: validateAccountID_def validateAmount_def validateInitialBalance_def
      checkRangeAndScale_def split: if_splits)

context decimal_laws
begin

lemma checkRangeAndScale_None_iff:
  "checkRangeAndScale D v = None \<longleftrightarrow> - 18 \<le> Exponent D v \<and> \<bar>decimal_value D v\<bar> < 10 ^ 20"
  by (auto simp: checkRangeAndScale_def maxDecimalPlaces_def maxValue_def value_laws power_int_def)

lemma validateAmount_None_iff:
  "validateAmount D a = None \<longleftrightarrow>
     0 < decimal_value D a \<and> - 18 \<le> Exponent D a \<and> decimal_value D a < 10 ^ 20"
  by (auto simp: validateAmount_def Sign_pos_iff checkRangeAndScale_None_iff not_le)

lemma validateInitialBalance_None_iff:
  "validateInitialBalance D a = None \<longleftrightarrow>
     0 \<le> decimal_value D a \<and> - 18 \<le> Exponent D a \<and> decimal_value D a < 10 ^ 20"
  by (auto simp: validateInitialBalance_def Sign_neg_iff checkRangeAndScale_None_iff not_less)

text \<open>An accepted amount is a positive number of \<open>10 ^ (-18)\<close> units below \<open>10 ^ 38\<close>.\<close>

lemma units_bounds:
  assumes "- 18 \<le> Exponent D a"
  shows "0 \<le> units D a \<longleftrightarrow> 0 \<le> decimal_value D a"
    and "0 < units D a \<longleftrightarrow> 0 < decimal_value D a"
    and "units D a < numeric_limit \<longleftrightarrow> decimal_value D a < 10 ^ 20"
proof -
  have u: "(of_int (units D a) :: rat) = decimal_value D a * 10 ^ 18"
    by (rule of_int_units [OF assms])
  have "0 \<le> units D a \<longleftrightarrow> (0 :: rat) \<le> of_int (units D a)" by simp
  then show "0 \<le> units D a \<longleftrightarrow> 0 \<le> decimal_value D a" unfolding u by simp
  have "0 < units D a \<longleftrightarrow> (0 :: rat) < of_int (units D a)" by simp
  then show "0 < units D a \<longleftrightarrow> 0 < decimal_value D a" unfolding u by simp
  have "units D a < numeric_limit \<longleftrightarrow> (of_int (units D a) :: rat) < of_int numeric_limit"
    by (simp only: of_int_less_iff)
  then show "units D a < numeric_limit \<longleftrightarrow> decimal_value D a < 10 ^ 20"
    unfolding u by (simp add: numeric_limit_def)
qed

lemma validateAmount_units:
  "validateAmount D a = None \<Longrightarrow>
     0 < units D a \<and> units D a < numeric_limit \<and> decimal_value D a = numeric_value (units D a)"
  using units_bounds [of a] decimal_value_units [of D a] by (simp add: validateAmount_None_iff)

lemma validateInitialBalance_units:
  "validateInitialBalance D a = None \<Longrightarrow>
     0 \<le> units D a \<and> units D a < numeric_limit \<and> decimal_value D a = numeric_value (units D a)"
  using units_bounds [of a] decimal_value_units [of D a]
  by (simp add: validateInitialBalance_None_iff)

end

end
