(* ===== verification/Ledger_Spec.thy ===== *)
theory Ledger_Spec
  imports Domain
begin

text \<open>
  The abstract ledger: what the service promises about money, with no rows, versions, timestamps or
  transactions. Amounts are whole numbers of \<open>10 ^ (-18)\<close> units. \<open>'k\<close> is the type of an idempotency
  key as the store compares it.
\<close>

record 'k payment =
  pay_id :: int64
  pay_key :: "'k option"
  pay_source :: int64
  pay_destination :: int64
  pay_amount :: int

record posting =
  post_payment :: int64
  post_account :: int64
  post_direction :: Direction
  post_amount :: int
  post_balance :: int

record 'k ledger =
  balance_of :: "int64 \<Rightarrow> int option"
  funding :: "(int64 \<times> int) list"
  payments :: "'k payment list"
  postings :: "posting list"

text \<open>Opening an account with a balance; a positive one is funded by a deposit.\<close>

definition open_account :: "int64 \<Rightarrow> int \<Rightarrow> 'k ledger \<Rightarrow> 'k ledger" where
  "open_account i n L =
     L\<lparr>balance_of := (balance_of L)(i \<mapsto> n),
       funding := funding L @ (if 0 < n then [(i, n)] else [])\<rparr>"

definition open_spec :: "int64 \<Rightarrow> int \<Rightarrow> 'k ledger \<Rightarrow> (go_error + unit) \<times> 'k ledger" where
  "open_spec i n L =
     (if balance_of L i \<noteq> None then (Inl ErrAccountAlreadyExists, L) else (Inr (), open_account i n L))"

text \<open>Moving \<open>pay_amount p\<close> from a source that holds \<open>a\<close> to a destination that holds \<open>b\<close>: the two
  balances, the payment record and the two postings with the balances after them.\<close>

definition post :: "'k payment \<Rightarrow> int \<Rightarrow> int \<Rightarrow> 'k ledger \<Rightarrow> 'k ledger" where
  "post p a b L =
     L\<lparr>balance_of := (balance_of L)(pay_source p \<mapsto> a - pay_amount p, pay_destination p \<mapsto> b + pay_amount p),
       payments := payments L @ [p],
       postings := postings L @
         [\<lparr>post_payment = pay_id p, post_account = pay_source p, post_direction = DirectionDebit,
            post_amount = pay_amount p, post_balance = a - pay_amount p\<rparr>,
          \<lparr>post_payment = pay_id p, post_account = pay_destination p, post_direction = DirectionCredit,
            post_amount = pay_amount p, post_balance = b + pay_amount p\<rparr>]\<rparr>"

definition find_payment :: "'k \<Rightarrow> 'k ledger \<Rightarrow> 'k payment option" where
  "find_payment k L = lookup_by pay_key (Some k) (payments L)"

text \<open>\<open>p\<close> is a new payment of the request, and posting it takes \<open>L\<close> to \<open>L'\<close>.\<close>

definition payment_posted ::
    "'k option \<Rightarrow> int64 \<Rightarrow> int64 \<Rightarrow> int \<Rightarrow> 'k payment \<Rightarrow> 'k ledger \<Rightarrow> 'k ledger \<Rightarrow> bool" where
  "payment_posted key src dst n p L L' \<longleftrightarrow>
     pay_key p = key \<and> pay_source p = src \<and> pay_destination p = dst \<and> pay_amount p = n \<and>
     src \<noteq> dst \<and> 0 < n \<and>
     pay_id p \<notin> pay_id ` set (payments L) \<and> (\<forall>k. key = Some k \<longrightarrow> find_payment k L = None) \<and>
     (\<exists>a b. balance_of L src = Some a \<and> balance_of L dst = Some b \<and> n \<le> a \<and> L' = post p a b L)"

text \<open>The contract of a transfer request. \<open>new_id\<close> is the id the store gives a new payment.\<close>

datatype 'k transfer_outcome =
    Refused go_error
  | Replayed "'k payment"
  | Posted "'k payment"

definition same_request :: "'k payment \<Rightarrow> int64 \<Rightarrow> int64 \<Rightarrow> int \<Rightarrow> bool" where
  "same_request p src dst n \<longleftrightarrow>
     pay_source p = src \<and> pay_destination p = dst \<and> pay_amount p = n"

definition pay_new ::
    "int64 \<Rightarrow> 'k option \<Rightarrow> int64 \<Rightarrow> int64 \<Rightarrow> int \<Rightarrow> 'k ledger \<Rightarrow> 'k transfer_outcome \<times> 'k ledger" where
  "pay_new new_id key src dst n L =
     (case balance_of L src of
        None \<Rightarrow> (Refused (AccountNotFound src), L)
      | Some a \<Rightarrow>
          (case balance_of L dst of
             None \<Rightarrow> (Refused (AccountNotFound dst), L)
           | Some b \<Rightarrow>
               if a < n then (Refused ErrInsufficientFunds, L)
               else
                 (let p = \<lparr>pay_id = new_id, pay_key = key, pay_source = src, pay_destination = dst,
                           pay_amount = n\<rparr>
                  in (Posted p, post p a b L))))"

definition transfer_spec ::
    "int64 \<Rightarrow> 'k option \<Rightarrow> int64 \<Rightarrow> int64 \<Rightarrow> int \<Rightarrow> 'k ledger \<Rightarrow> 'k transfer_outcome \<times> 'k ledger" where
  "transfer_spec new_id key src dst n L =
     (case Option.bind key (\<lambda>k. find_payment k L) of
        Some p \<Rightarrow>
          if same_request p src dst n then (Replayed p, L) else (Refused ErrIdempotencyConflict, L)
      | None \<Rightarrow> pay_new new_id key src dst n L)"

subsection \<open>Lemmas\<close>

lemma post_sel [simp]:
  "funding (post p a b L) = funding L" "payments (post p a b L) = payments L @ [p]"
  "balance_of (post p a b L) =
     (balance_of L)(pay_source p \<mapsto> a - pay_amount p, pay_destination p \<mapsto> b + pay_amount p)"
  by (simp_all add: post_def)

lemma find_payment_SomeD: "find_payment k L = Some p \<Longrightarrow> p \<in> set (payments L) \<and> pay_key p = Some k"
  using lookup_by_SomeD [of pay_key] by (auto simp: find_payment_def)

lemma find_payment_post:
  "find_payment k (post p a b L) =
     (case find_payment k L of Some q \<Rightarrow> Some q | None \<Rightarrow> if pay_key p = Some k then Some p else None)"
  by (simp add: find_payment_def lookup_by_append split: option.split)

end
