(* ===== verification/Deps.thy ===== *)
theory Deps
  imports Money Repository Ledger_Spec
begin

text \<open>
  \<open>internal/service/deps.go\<close>: the interfaces the services are written against, each as a record of
  its methods and, as a locale, the contract a provider promises. The contracts speak about the
  abstract ledger of \<open>Ledger_Spec\<close>:

  \<^item> \<open>ledger_of w\<close> is the ledger that the session's transaction sees in the world \<open>w\<close>, and
    \<open>settled w\<close> the committed one;
  \<^item> \<open>in_tx w\<close>: the session has an open transaction (in which a statement may have failed), \<open>idle w\<close>:
    it has none;
  \<^item> \<open>calm n w\<close>: nothing outside the program's control goes wrong in \<open>w\<close>, no statement of the
    transaction has failed, and there is room for \<open>n\<close> more writes (sequences and version counters).

  Each operation has a law for every world (what a successful answer means, whatever may fail) and a
  law for calm worlds (that it does succeed, and when it refuses), stated as the triples below.
\<close>

record 'd AccountStore =
  as_Create :: "querier \<Rightarrow> int64 \<Rightarrow> 'd \<Rightarrow> ('d, go_error + unit) prog"
  as_Get :: "querier \<Rightarrow> int64 \<Rightarrow> ('d, go_error + 'd Account) prog"
  as_LockForUpdate :: "querier \<Rightarrow> int64 list \<Rightarrow> ('d, go_error + (int64 \<Rightarrow> 'd Account option)) prog"
  as_UpdateBalance :: "querier \<Rightarrow> int64 \<Rightarrow> 'd \<Rightarrow> ('d, go_error + unit) prog"

record 'd TransferStore =
  ts_FindByIdempotencyKey :: "querier \<Rightarrow> string \<Rightarrow> ('d, go_error + 'd Transfer option) prog"
  ts_Insert :: "querier \<Rightarrow> 'd Transfer \<Rightarrow> ('d, go_error + int64) prog"
  ts_InsertLedgerEntry :: "querier \<Rightarrow> 'd LedgerEntry \<Rightarrow> ('d, go_error + unit) prog"

text \<open>\<open>'a\<close> is what the function run in the transaction leaves to its caller besides the error.\<close>

record ('d, 'a) TxManager =
  tm_WithTx :: "(querier \<Rightarrow> ('d, go_error + 'a) prog) \<Rightarrow> ('d, go_error + 'a) prog"

text \<open>The repositories and the transaction manager as providers (\<open>cmd/server/main.go\<close> wires them).\<close>

definition NewAccountRepository :: "'d decimal_ops \<Rightarrow> 'd AccountStore" where
  "NewAccountRepository D =
     \<lparr>as_Create = AccountRepository_Create D, as_Get = AccountRepository_Get,
      as_LockForUpdate = AccountRepository_LockForUpdate,
      as_UpdateBalance = AccountRepository_UpdateBalance\<rparr>"

definition NewTransferRepository :: "'d TransferStore" where
  "NewTransferRepository =
     \<lparr>ts_FindByIdempotencyKey = TransferRepository_FindByIdempotencyKey,
      ts_Insert = TransferRepository_Insert,
      ts_InsertLedgerEntry = TransferRepository_InsertLedgerEntry\<rparr>"

definition NewTxManager :: "('d, 'a) TxManager" where
  "NewTxManager = \<lparr>tm_WithTx = WithTx\<rparr>"

subsection \<open>How the services' values denote the ledger's\<close>

definition account_denotes :: "'d decimal_ops \<Rightarrow> int64 \<Rightarrow> 'd Account option \<Rightarrow> int option \<Rightarrow> bool" where
  "account_denotes D i acc bal \<longleftrightarrow>
     (case (acc, bal) of
        (None, None) \<Rightarrow> True
      | (Some a, Some n) \<Rightarrow> acc_ID a = i \<and> decimal_value D (acc_Balance a) = numeric_value n
      | _ \<Rightarrow> False)"

definition transfer_denotes :: "'d decimal_ops \<Rightarrow> 'd Transfer \<Rightarrow> 'k payment \<Rightarrow> bool" where
  "transfer_denotes D t p \<longleftrightarrow>
     tr_ID t = pay_id p \<and> tr_SourceID t = pay_source p \<and> tr_DestinationID t = pay_destination p \<and>
     decimal_value D (tr_Amount t) = numeric_value (pay_amount p) \<and> tr_Status t = StatusCompleted"

definition add_payment :: "'k payment \<Rightarrow> 'k ledger \<Rightarrow> 'k ledger" where
  "add_payment p L = L\<lparr>payments := payments L @ [p]\<rparr>"

definition add_posting :: "posting \<Rightarrow> 'k ledger \<Rightarrow> 'k ledger" where
  "add_posting e L = L\<lparr>postings := postings L @ [e]\<rparr>"

definition put_balance :: "int64 \<Rightarrow> int \<Rightarrow> 'k ledger \<Rightarrow> 'k ledger" where
  "put_balance i n L = L\<lparr>balance_of := (balance_of L)(i \<mapsto> n)\<rparr>"

text \<open>The key a stored payment carries for the key string of a request: none for the empty string.\<close>

definition key_option :: "(string \<Rightarrow> 'k option) \<Rightarrow> string option \<Rightarrow> 'k option option" where
  "key_option key_of key = (case key of None \<Rightarrow> Some None | Some s \<Rightarrow> map_option Some (key_of s))"

lemma account_denotes_simps [simp]:
  "account_denotes D i None bal \<longleftrightarrow> bal = None"
  "account_denotes D i acc None \<longleftrightarrow> acc = None"
  "account_denotes D i (Some a) (Some n) \<longleftrightarrow>
     acc_ID a = i \<and> decimal_value D (acc_Balance a) = numeric_value n"
  by (auto simp: account_denotes_def split: option.splits)

lemma account_denotes_Some:
  "account_denotes D i (Some a) bal \<longleftrightarrow>
     (\<exists>n. bal = Some n \<and> acc_ID a = i \<and> decimal_value D (acc_Balance a) = numeric_value n)"
  by (auto simp: account_denotes_def split: option.splits)

subsection \<open>Triples\<close>

text \<open>
  What a program run in the session's transaction does, from a ledger \<open>L\<close>:
  \<open>tx_ensures\<close> - whatever goes wrong, the transaction is still open afterwards and the settled ledger
  (\<open>so\<close>) untouched, and an answer without an error comes with \<open>Q\<close>; \<open>tx_yields\<close> - where nothing goes wrong outside the program and there is
  room for \<open>c\<close> writes, it answers without an error, with \<open>Q\<close> and room for \<open>c'\<close> more;
  \<open>tx_refuses\<close> - there, it answers an error in \<open>E\<close>.
\<close>

definition tx_ensures ::
    "('d, 'w) handler \<Rightarrow> ('w \<Rightarrow> bool) \<Rightarrow> ('w \<Rightarrow> 'l) \<Rightarrow> ('w \<Rightarrow> 'l) \<Rightarrow> 'l \<Rightarrow> ('d, go_error + 'a) prog \<Rightarrow>
     ('a \<Rightarrow> 'l \<Rightarrow> bool) \<Rightarrow> bool" where
  "tx_ensures h in_tx so lo L p Q \<longleftrightarrow>
     (\<forall>w r w'. in_tx w \<longrightarrow> lo w = L \<longrightarrow> run h p w = (r, w') \<longrightarrow>
        in_tx w' \<and> so w' = so w \<and> (\<forall>x. r = Inr x \<longrightarrow> Q x (lo w')))"

definition tx_yields ::
    "('d, 'w) handler \<Rightarrow> (nat \<Rightarrow> 'w \<Rightarrow> bool) \<Rightarrow> ('w \<Rightarrow> 'l) \<Rightarrow> nat \<Rightarrow> 'l \<Rightarrow> ('d, go_error + 'a) prog \<Rightarrow>
     nat \<Rightarrow> ('a \<Rightarrow> 'l \<Rightarrow> bool) \<Rightarrow> bool" where
  "tx_yields h calm ledger_of c L p c' Q \<longleftrightarrow>
     (\<forall>w. calm c w \<longrightarrow> ledger_of w = L \<longrightarrow>
        (\<exists>x w'. run h p w = (Inr x, w') \<and> calm c' w' \<and> Q x (ledger_of w')))"

definition tx_refuses ::
    "('d, 'w) handler \<Rightarrow> (nat \<Rightarrow> 'w \<Rightarrow> bool) \<Rightarrow> ('w \<Rightarrow> 'l) \<Rightarrow> nat \<Rightarrow> 'l \<Rightarrow> ('d, go_error + 'a) prog \<Rightarrow>
     (go_error \<Rightarrow> bool) \<Rightarrow> bool" where
  "tx_refuses h calm ledger_of c L p E \<longleftrightarrow>
     (\<forall>w. calm c w \<longrightarrow> ledger_of w = L \<longrightarrow> (\<exists>e w'. run h p w = (Inl e, w') \<and> E e))"

lemma ensures_andThen:
  assumes "tx_ensures h in_tx so lo L p R" and "\<And>x L'. R x L' \<Longrightarrow> tx_ensures h in_tx so lo L' (f x) Q"
  shows "tx_ensures h in_tx so lo L (andThen p f) Q"
  unfolding tx_ensures_def
proof (intro allI impI)
  fix w r w'
  assume w: "in_tx w" "lo w = L" and r: "run h (andThen p f) w = (r, w')"
  obtain r1 w1 where p: "run h p w = (r1, w1)" by fastforce
  with assms(1) w have 1: "in_tx w1" "so w1 = so w" "\<And>x. r1 = Inr x \<Longrightarrow> R x (lo w1)"
    by (auto simp: tx_ensures_def)
  show "in_tx w' \<and> so w' = so w \<and> (\<forall>x. r = Inr x \<longrightarrow> Q x (lo w'))"
  proof (cases r1)
    case (Inl e)
    with p r 1 show ?thesis by (auto simp: run_andThen)
  next
    case (Inr x)
    with p r have "run h (f x) w1 = (r, w')" by (simp add: run_andThen)
    with assms(2) [OF 1(3) [OF Inr]] 1(1,2) show ?thesis by (auto simp: tx_ensures_def)
  qed
qed

lemma ensures_Inl [simp]: "tx_ensures h in_tx so lo L (Return (Inl e)) Q"
  by (simp add: tx_ensures_def)

lemma ensures_Inr: "Q x L \<Longrightarrow> tx_ensures h in_tx so lo L (Return (Inr x)) Q"
  by (simp add: tx_ensures_def)

lemma ensures_conseq:
  "tx_ensures h in_tx so lo L p R \<Longrightarrow> (\<And>x L'. R x L' \<Longrightarrow> Q x L') \<Longrightarrow> tx_ensures h in_tx so lo L p Q"
  by (fastforce simp: tx_ensures_def)

lemma yields_andThen:
  assumes "tx_yields h calm lo c L p c' R"
    and "\<And>x L'. R x L' \<Longrightarrow> tx_yields h calm lo c' L' (f x) c'' Q"
  shows "tx_yields h calm lo c L (andThen p f) c'' Q"
  using assms by (fastforce simp: tx_yields_def run_andThen)

lemma yields_Inr: "Q x L \<Longrightarrow> tx_yields h calm lo c L (Return (Inr x)) c Q"
  by (simp add: tx_yields_def)

lemma yields_conseq:
  "tx_yields h calm lo c L p c' R \<Longrightarrow> (\<And>x L'. R x L' \<Longrightarrow> Q x L') \<Longrightarrow> tx_yields h calm lo c L p c' Q"
  by (fastforce simp: tx_yields_def)

lemma refuses_andThen_later:
  assumes "tx_yields h calm lo c L p c' R"
    and "\<And>x L'. R x L' \<Longrightarrow> tx_refuses h calm lo c' L' (f x) E"
  shows "tx_refuses h calm lo c L (andThen p f) E"
  using assms by (fastforce simp: tx_yields_def tx_refuses_def run_andThen)

lemma refuses_andThen_first:
  "tx_refuses h calm lo c L p E \<Longrightarrow> tx_refuses h calm lo c L (andThen p f) E"
  by (fastforce simp: tx_refuses_def run_andThen)

lemma refuses_Inl: "E e \<Longrightarrow> tx_refuses h calm lo c L (Return (Inl e)) E"
  by (simp add: tx_refuses_def)

text \<open>Where a program answers without an error, what it ensures holds.\<close>

lemma tx_yields_ensured:
  assumes "\<And>c w. calm c w \<Longrightarrow> in_tx w" and "tx_yields h calm lo c L p c' R" and "tx_ensures h in_tx so lo L p Q"
  shows "tx_yields h calm lo c L p c' (\<lambda>x L'. R x L' \<and> Q x L')"
  unfolding tx_yields_def
proof (intro allI impI)
  fix w
  assume w: "calm c w" "lo w = L"
  with assms(2) obtain x w' where x: "run h p w = (Inr x, w')" "calm c' w'" "R x (lo w')"
    by (auto simp: tx_yields_def)
  with assms(3) w assms(1) have "Q x (lo w')" by (fastforce simp: tx_ensures_def)
  with x show "\<exists>x w'. run h p w = (Inr x, w') \<and> calm c' w' \<and> R x (lo w') \<and> Q x (lo w')" by blast
qed

text \<open>An error that is neither a domain error, nor retried, nor taken for a lost idempotency race.\<close>

definition plain_internal :: "go_error \<Rightarrow> bool" where
  "plain_internal e \<longleftrightarrow>
     internal_error e \<and> \<not> isRetryable e \<and> \<not> errors_Is e ErrDuplicateIdempotencyKey"

subsection \<open>Contracts\<close>

locale ledger_world = decimal_laws D for D :: "'d decimal_ops" +
  fixes h :: "('d, 'w) handler"
    and ledger_of settled :: "'w \<Rightarrow> 'k ledger"
    and in_tx idle :: "'w \<Rightarrow> bool"
    and calm calm_idle :: "nat \<Rightarrow> 'w \<Rightarrow> bool"
  assumes calm_in_tx: "calm c w \<Longrightarrow> in_tx w"
    and calm_idle_idle: "calm_idle c w \<Longrightarrow> idle w"
    and tx_balances: "in_tx w \<Longrightarrow> balance_of (ledger_of w) i = Some a \<Longrightarrow> 0 \<le> a \<and> a < numeric_limit"
    and settled_balances: "idle w \<Longrightarrow> balance_of (settled w) i = Some a \<Longrightarrow> 0 \<le> a \<and> a < numeric_limit"
begin

abbreviation ensures where
  "ensures \<equiv> tx_ensures h in_tx settled ledger_of"

abbreviation yields where
  "yields \<equiv> tx_yields h calm ledger_of"

abbreviation refuses where
  "refuses \<equiv> tx_refuses h calm ledger_of"

lemma yields_ensured:
  assumes "yields c L p c' R" and "ensures L p Q"
  shows "yields c L p c' Q"
  by (rule yields_conseq [OF tx_yields_ensured [OF _ assms]]) (simp_all add: calm_in_tx)

end

locale account_store = ledger_world D h ledger_of settled in_tx idle calm calm_idle
  for D :: "'d decimal_ops" and h :: "('d, 'w) handler" and ledger_of settled :: "'w \<Rightarrow> 'k ledger"
    and in_tx idle calm calm_idle +
  fixes AS :: "'d AccountStore"
  assumes lock_ensures:
      "ensures L (as_LockForUpdate AS Tx ids) (\<lambda>m L'. L' = L \<and>
         (\<forall>i \<in> set ids. account_denotes D i (m i) (balance_of L i)))"
    and lock_yields:
      "yields c L (as_LockForUpdate AS Tx ids) c (\<lambda>_ _. True)"
    and update_ensures:
      "\<lbrakk>decimal_value D b = numeric_value n; balance_of L i \<noteq> None\<rbrakk> \<Longrightarrow>
         ensures L (as_UpdateBalance AS Tx i b) (\<lambda>_ L'. L' = put_balance i n L)"
    and update_yields:
      "\<lbrakk>decimal_value D b = numeric_value n; 0 \<le> n; n < numeric_limit; balance_of L i \<noteq> None\<rbrakk> \<Longrightarrow>
         yields (Suc c) L (as_UpdateBalance AS Tx i b) c (\<lambda>_ _. True)"
    and update_overflows:
      "\<lbrakk>decimal_value D b = numeric_value n; numeric_limit \<le> n; balance_of L i \<noteq> None\<rbrakk> \<Longrightarrow>
         refuses c L (as_UpdateBalance AS Tx i b) plain_internal"
    and create_ensures:
      "\<lbrakk>decimal_value D b = numeric_value n; 0 \<le> n\<rbrakk> \<Longrightarrow>
         ensures L (as_Create AS Tx i b) (\<lambda>_ L'. balance_of L i = None \<and> L' = open_account i n L)"
    and create_yields:
      "\<lbrakk>decimal_value D b = numeric_value n; 0 \<le> n; n < numeric_limit; balance_of L i = None\<rbrakk> \<Longrightarrow>
         yields (Suc c) L (as_Create AS Tx i b) c (\<lambda>_ _. True)"
    and create_exists:
      "\<lbrakk>decimal_value D b = numeric_value n; 0 \<le> n; n < numeric_limit; balance_of L i \<noteq> None\<rbrakk> \<Longrightarrow>
         refuses c L (as_Create AS Tx i b) (\<lambda>e. e = ErrAccountAlreadyExists)"
    and get_pool:
      "\<lbrakk>idle w; run h (as_Get AS Pool i) w = (ra, w')\<rbrakk> \<Longrightarrow>
         idle w' \<and> settled w' = settled w \<and>
         (\<forall>a. ra = Inr a \<longrightarrow> account_denotes D i (Some a) (balance_of (settled w) i))"
    and get_calm:
      "calm_idle c w \<Longrightarrow>
         (case balance_of (settled w) i of
            None \<Rightarrow> run h (as_Get AS Pool i) w = (Inl (AccountNotFound i), w)
          | Some n \<Rightarrow> \<exists>a. run h (as_Get AS Pool i) w = (Inr a, w))"
begin

lemma lock_yields_accounts:
  "yields c L (as_LockForUpdate AS Tx ids) c (\<lambda>m L'. L' = L \<and>
     (\<forall>i \<in> set ids. account_denotes D i (m i) (balance_of L i)))"
  by (rule yields_ensured [OF lock_yields lock_ensures])

lemma update_yields_balance:
  "\<lbrakk>decimal_value D b = numeric_value n; 0 \<le> n; n < numeric_limit; balance_of L i \<noteq> None\<rbrakk> \<Longrightarrow>
     yields (Suc c) L (as_UpdateBalance AS Tx i b) c (\<lambda>_ L'. L' = put_balance i n L)"
  by (rule yields_ensured [OF update_yields update_ensures])

lemma create_yields_account:
  "\<lbrakk>decimal_value D b = numeric_value n; 0 \<le> n; n < numeric_limit; balance_of L i = None\<rbrakk> \<Longrightarrow>
     yields (Suc c) L (as_Create AS Tx i b) c (\<lambda>_ L'. L' = open_account i n L)"
  by (rule yields_conseq [OF yields_ensured [OF create_yields create_ensures]]) simp_all

end

locale transfer_store = ledger_world D h ledger_of settled in_tx idle calm calm_idle
  for D :: "'d decimal_ops" and h :: "('d, 'w) handler" and ledger_of settled :: "'w \<Rightarrow> 'k ledger"
    and in_tx idle calm calm_idle +
  fixes TS :: "'d TransferStore" and key_of :: "string \<Rightarrow> 'k option"
  assumes no_empty_key: "key_of [] = None"
    and find_ensures:
      "ensures L (ts_FindByIdempotencyKey TS Tx key) (\<lambda>found L'. L' = L \<and>
         (\<exists>k. key_of key = Some k \<and> rel_option (transfer_denotes D) found (find_payment k L)))"
    and find_yields:
      "key_of key = Some kk \<Longrightarrow> yields c L (ts_FindByIdempotencyKey TS Tx key) c (\<lambda>_ _. True)"
    and find_bad_key:
      "key_of key = None \<Longrightarrow> refuses c L (ts_FindByIdempotencyKey TS Tx key) plain_internal"
    and find_pool:
      "\<lbrakk>idle w; run h (ts_FindByIdempotencyKey TS Pool key) w = (rf, w')\<rbrakk> \<Longrightarrow>
         idle w' \<and> settled w' = settled w \<and> (\<forall>found. rf = Inr found \<longrightarrow>
           (\<exists>k. key_of key = Some k \<and> rel_option (transfer_denotes D) found (find_payment k (settled w))))"
    and insert_ensures:
      "\<lbrakk>decimal_value D (tr_Amount t) = numeric_value n; tr_Status t = StatusCompleted\<rbrakk> \<Longrightarrow>
         ensures L (ts_Insert TS Tx t) (\<lambda>i L'. \<exists>k. key_option key_of (tr_IdempotencyKey t) = Some k \<and>
           (\<forall>k'. k = Some k' \<longrightarrow> find_payment k' L = None) \<and> i \<notin> pay_id ` set (payments L) \<and>
           L' = add_payment \<lparr>pay_id = i, pay_key = k, pay_source = tr_SourceID t,
             pay_destination = tr_DestinationID t, pay_amount = n\<rparr> L)"
    and insert_yields:
      "\<lbrakk>decimal_value D (tr_Amount t) = numeric_value n; tr_Status t = StatusCompleted;
        0 < n; n < numeric_limit; tr_SourceID t \<noteq> tr_DestinationID t;
        balance_of L (tr_SourceID t) \<noteq> None; balance_of L (tr_DestinationID t) \<noteq> None;
        key_option key_of (tr_IdempotencyKey t) = Some k; \<forall>k'. k = Some k' \<longrightarrow> find_payment k' L = None\<rbrakk> \<Longrightarrow>
         yields (Suc c) L (ts_Insert TS Tx t) c (\<lambda>_ _. True)"
    and entry_ensures:
      "\<lbrakk>decimal_value D (le_Amount e) = numeric_value n;
        decimal_value D (le_BalanceAfter e) = numeric_value b\<rbrakk> \<Longrightarrow>
         ensures L (ts_InsertLedgerEntry TS Tx e) (\<lambda>_ L'. L' =
           add_posting \<lparr>post_payment = le_TransferID e, post_account = le_AccountID e,
             post_direction = le_Direction e, post_amount = n, post_balance = b\<rparr> L)"
    and entry_yields:
      "\<lbrakk>decimal_value D (le_Amount e) = numeric_value n;
        decimal_value D (le_BalanceAfter e) = numeric_value b;
        0 < n; n < numeric_limit; 0 \<le> b; b < numeric_limit;
        le_TransferID e \<in> pay_id ` set (payments L); balance_of L (le_AccountID e) \<noteq> None\<rbrakk> \<Longrightarrow>
         yields (Suc c) L (ts_InsertLedgerEntry TS Tx e) c (\<lambda>_ _. True)"
begin

lemma find_yields_payment:
  "key_of key = Some k \<Longrightarrow> yields c L (ts_FindByIdempotencyKey TS Tx key) c (\<lambda>found L'. L' = L \<and>
     rel_option (transfer_denotes D) found (find_payment k L))"
  by (rule yields_conseq [OF yields_ensured [OF find_yields find_ensures]]) auto

lemma insert_yields_payment:
  "\<lbrakk>decimal_value D (tr_Amount t) = numeric_value n; tr_Status t = StatusCompleted;
    0 < n; n < numeric_limit; tr_SourceID t \<noteq> tr_DestinationID t;
    balance_of L (tr_SourceID t) \<noteq> None; balance_of L (tr_DestinationID t) \<noteq> None;
    key_option key_of (tr_IdempotencyKey t) = Some k; \<forall>k'. k = Some k' \<longrightarrow> find_payment k' L = None\<rbrakk> \<Longrightarrow>
     yields (Suc c) L (ts_Insert TS Tx t) c (\<lambda>i L'. i \<notin> pay_id ` set (payments L) \<and>
       L' = add_payment \<lparr>pay_id = i, pay_key = k, pay_source = tr_SourceID t,
         pay_destination = tr_DestinationID t, pay_amount = n\<rparr> L)"
  by (rule yields_conseq [OF yields_ensured [OF insert_yields insert_ensures [where n = n]]]) auto

lemma entry_yields_posting:
  "\<lbrakk>decimal_value D (le_Amount e) = numeric_value n;
    decimal_value D (le_BalanceAfter e) = numeric_value b;
    0 < n; n < numeric_limit; 0 \<le> b; b < numeric_limit;
    le_TransferID e \<in> pay_id ` set (payments L); balance_of L (le_AccountID e) \<noteq> None\<rbrakk> \<Longrightarrow>
     yields (Suc c) L (ts_InsertLedgerEntry TS Tx e) c (\<lambda>_ L'. L' =
       add_posting \<lparr>post_payment = le_TransferID e, post_account = le_AccountID e,
         post_direction = le_Direction e, post_amount = n, post_balance = b\<rparr> L)"
  by (rule yields_ensured [OF entry_yields entry_ensures])

end

text \<open>
  A transaction manager: what a function does in its transaction takes effect as a whole or not at
  all. \<open>P x L\<close> is what the function establishes about its result \<open>x\<close> and the ledger \<open>L\<close> it leaves
  whenever it succeeds; \<open>begun w\<close> is the world in which it runs when nothing fails.
\<close>

locale tx_manager = ledger_world D h ledger_of settled in_tx idle calm calm_idle
  for D :: "'d decimal_ops" and h :: "('d, 'w) handler" and ledger_of settled :: "'w \<Rightarrow> 'k ledger"
    and in_tx idle calm calm_idle +
  fixes TM :: "('d, 'a) TxManager" and begun :: "'w \<Rightarrow> 'w"
  assumes atomic:
      "\<lbrakk>idle w; run h (tm_WithTx TM fn) w = (r, w'); ensures (settled w) (fn Tx) P\<rbrakk> \<Longrightarrow>
         idle w' \<and> (\<forall>x. r = Inr x \<longrightarrow> P x (settled w')) \<and>
         (settled w' = settled w \<or> (\<exists>x. P x (settled w')))"
    and calm_begun: "calm_idle c w \<Longrightarrow> calm c (begun w) \<and> ledger_of (begun w) = settled w \<and>
        settled (begun w) = settled w"
    and commits:
      "\<lbrakk>calm_idle c w; run h (fn Tx) (begun w) = (Inr x, w1); calm c' w1\<rbrakk> \<Longrightarrow>
         \<exists>w'. run h (tm_WithTx TM fn) w = (Inr x, w') \<and> settled w' = ledger_of w1"
    and rolls_back:
      "\<lbrakk>calm_idle c w; run h (fn Tx) (begun w) = (Inl e, w1); in_tx w1; settled w1 = settled w;
        \<not> isRetryable e\<rbrakk> \<Longrightarrow>
         \<exists>w'. run h (tm_WithTx TM fn) w = (Inl e, w') \<and> settled w' = settled w"
begin

lemma tx_commits:
  assumes "calm_idle c w" and "yields c (settled w) (fn Tx) c' Q"
  shows "\<exists>x w'. run h (tm_WithTx TM fn) w = (Inr x, w') \<and> Q x (settled w')"
proof -
  obtain x w1 where x: "run h (fn Tx) (begun w) = (Inr x, w1)" "calm c' w1" "Q x (ledger_of w1)"
    using assms(2) calm_begun [OF assms(1)] by (auto simp: tx_yields_def)
  with commits [of c w fn x w1 c'] assms(1) show ?thesis by auto
qed

lemma tx_rolls_back:
  assumes "calm_idle c w" and "refuses c (settled w) (fn Tx) E" and "\<And>e. E e \<Longrightarrow> \<not> isRetryable e"
    and "ensures (settled w) (fn Tx) Q"
  shows "\<exists>e w'. run h (tm_WithTx TM fn) w = (Inl e, w') \<and> E e \<and> settled w' = settled w"
proof -
  obtain e w1 where e: "run h (fn Tx) (begun w) = (Inl e, w1)" "E e"
    using assms(2) calm_begun [OF assms(1)] by (auto simp: tx_refuses_def)
  have "in_tx w1" "settled w1 = settled w"
    using assms(4) e(1) calm_begun [OF assms(1)] calm_in_tx [of c "begun w"]
    unfolding tx_ensures_def by metis+
  with e rolls_back [of c w fn e w1] assms(1,3) show ?thesis by blast
qed

end

end
