(* ===== verification/Postgres.thy ===== *)
theory Postgres
  imports Integrity Deps
begin

text \<open>
  The repositories and the transaction manager on the database keep the contracts of \<open>Deps\<close>:
  \<open>abs_ledger\<close> reads the abstract ledger off the tables, \<open>in_tx\<close>, \<open>idle\<close>, \<open>calm\<close> and
  \<open>calm_idle\<close> describe worlds, and every locale of \<open>Deps\<close> is discharged for \<open>NewAccountRepository\<close>,
  \<open>NewTransferRepository\<close> and \<open>NewTxManager\<close> on the handler \<open>pg\<close>, for every decimal library with
  its laws and every UUID parser that refuses the empty string.
\<close>

subsection \<open>The abstract ledger of the tables\<close>

definition payment_of_row :: "'u transfer_row \<Rightarrow> 'u payment" where
  "payment_of_row r =
     \<lparr>pay_id = xr_id r, pay_key = xr_idempotency_key r, pay_source = xr_source_id r,
      pay_destination = xr_destination_id r, pay_amount = xr_amount r\<rparr>"

definition posting_of_row :: "ledger_row \<Rightarrow> posting" where
  "posting_of_row r =
     \<lparr>post_payment = lr_transfer_id r, post_account = lr_account_id r,
      post_direction = (if lr_direction r = direction_string DirectionDebit
                        then DirectionDebit else DirectionCredit),
      post_amount = lr_amount r, post_balance = lr_balance_after r\<rparr>"

definition abs_ledger :: "'u tables \<Rightarrow> 'u ledger" where
  "abs_ledger t =
     \<lparr>balance_of = (\<lambda>i. map_option ar_balance (account_row_of t i)),
      funding = map (\<lambda>d. (dr_account_id d, dr_amount d)) (deposits t),
      payments = map payment_of_row (transfers t),
      postings = map posting_of_row (ledger_entries t)\<rparr>"

lemma abs_ledger_sel [simp]:
  "balance_of (abs_ledger t) i = map_option ar_balance (account_row_of t i)"
  "payments (abs_ledger t) = map payment_of_row (transfers t)"
  by (simp_all add: abs_ledger_def)

lemma account_Some_iff:
  "tables_ok t sq \<Longrightarrow> account_row_of t i = Some r \<longleftrightarrow> r \<in> set (accounts t) \<and> ar_id r = i"
  by (simp add: account_row_of_def tables_ok_def accounts_ok_def lookup_by_eq_Some_iff)

lemma balance_of_None_iff: "balance_of (abs_ledger t) i = None \<longleftrightarrow> \<not> has_account t i"
  by (simp add: has_account_def)

lemma find_payment_abs:
  "find_payment k (abs_ledger t) = map_option payment_of_row (transfer_by_key t k)"
proof -
  have "lookup_by pay_key key (map payment_of_row rows) =
      map_option payment_of_row (lookup_by xr_idempotency_key key rows)" for key rows
    by (induction rows) (auto simp: payment_of_row_def)
  then show ?thesis by (simp add: find_payment_def transfer_by_key_def)
qed

lemma abs_ledger_balance:
  "has_account t i \<Longrightarrow> abs_ledger (apply_write (WBalance i n now) t) = put_balance i n (abs_ledger t)"
  by (auto simp: abs_ledger_def put_balance_def fun_eq_iff account_row_of_def has_account_def
      lookup_by_update_by)

lemma abs_ledger_account:
  "\<not> has_account t (ar_id r) \<Longrightarrow>
     abs_ledger (apply_write (WAccount r) t) = put_balance (ar_id r) (ar_balance r) (abs_ledger t)"
  by (auto simp: abs_ledger_def put_balance_def fun_eq_iff account_row_of_def has_account_def
      lookup_by_append split: option.split)

lemma abs_ledger_deposit:
  "abs_ledger (apply_write (WDeposit d) t) =
     abs_ledger t\<lparr>funding := funding (abs_ledger t) @ [(dr_account_id d, dr_amount d)]\<rparr>"
  by (simp add: abs_ledger_def account_row_of_def)

lemma abs_ledger_transfer:
  "abs_ledger (apply_write (WTransfer x) t) = add_payment (payment_of_row x) (abs_ledger t)"
  by (simp add: abs_ledger_def add_payment_def account_row_of_def)

lemma abs_ledger_entry:
  "abs_ledger (apply_write (WLedgerEntry e) t) = add_posting (posting_of_row e) (abs_ledger t)"
  by (simp add: abs_ledger_def add_posting_def account_row_of_def)

subsection \<open>Worlds\<close>

definition pg_in_tx :: "'u world \<Rightarrow> bool" where
  "pg_in_tx w \<longleftrightarrow> txn w \<noteq> None \<and> tables_ok (view w) (seqs w) \<and> tables_ok (committed w) (seqs w)"

definition pg_idle :: "'u world \<Rightarrow> bool" where
  "pg_idle w \<longleftrightarrow> txn w = None \<and> tables_ok (committed w) (seqs w)"

definition room :: "nat \<Rightarrow> 'u tables \<Rightarrow> sequences \<Rightarrow> bool" where
  "room n t sq \<longleftrightarrow>
     (\<forall>r \<in> set (accounts t). sint (ar_version r) + int n < 2 ^ 63) \<and>
     deposits_id_seq sq + int n < 2 ^ 63 \<and> transfers_id_seq sq + int n < 2 ^ 63 \<and>
     ledger_entries_id_seq sq + int n < 2 ^ 63"

definition pg_calm :: "nat \<Rightarrow> 'u world \<Rightarrow> bool" where
  "pg_calm n w \<longleftrightarrow> script w = [] \<and> pg_in_tx w \<and> \<not> tx_failed (the (txn w)) \<and> room n (view w) (seqs w)"

definition pg_calm_idle :: "nat \<Rightarrow> 'u world \<Rightarrow> bool" where
  "pg_calm_idle n w \<longleftrightarrow> script w = [] \<and> pg_idle w \<and> room n (committed w) (seqs w)"

definition tx_ledger :: "'u world \<Rightarrow> 'u ledger" where
  "tx_ledger w = abs_ledger (view w)"

definition settled_ledger :: "'u world \<Rightarrow> 'u ledger" where
  "settled_ledger w = abs_ledger (committed w)"

definition begun_world :: "'u world \<Rightarrow> 'u world" where
  "begun_world w = w\<lparr>txn := Some \<lparr>tx_writes = [], tx_failed = False\<rparr>\<rparr>"

text \<open>Sequences only move forward, which keeps every table's ids within them.\<close>

definition seqs_le :: "sequences \<Rightarrow> sequences \<Rightarrow> bool" where
  "seqs_le s s' \<longleftrightarrow> deposits_id_seq s \<le> deposits_id_seq s' \<and> transfers_id_seq s \<le> transfers_id_seq s' \<and>
     ledger_entries_id_seq s \<le> ledger_entries_id_seq s'"

lemma seqs_le_refl [simp]: "seqs_le s s"
  by (simp add: seqs_le_def)

lemma tables_ok_seqs_mono: "tables_ok t s \<Longrightarrow> seqs_le s s' \<Longrightarrow> tables_ok t s'"
  by (fastforce simp: tables_ok_def seqs_le_def serial_ids_def)

lemma sql_step_seqs: "seqs_le s (snd (sql_step D U now t s stmt))"
  by (cases stmt)
    (auto simp: seqs_le_def insert_account_def insert_deposit_def update_balance_def find_transfer_def
      insert_transfer_def insert_ledger_entry_def Let_def split: option.split dest: nextval_SomeD)

lemma room_less: "room (Suc n) t s \<Longrightarrow> room n t s"
  by (auto simp: room_def)

subsection \<open>A statement in a transaction\<close>

lemma next_fault_sel:
  assumes "next_fault w = (f, w')"
  shows "committed w' = committed w" "seqs w' = seqs w" "txn w' = txn w" "view w' = view w"
    "clock w' = clock w" "script w = [] \<Longrightarrow> f = NoFault \<and> w' = w"
  using assms by (auto simp: next_fault_def view_def split: list.splits option.split)

lemma mark_failed_sel [simp]:
  "committed (mark_failed w) = committed w" "seqs (mark_failed w) = seqs w"
  "(txn (mark_failed w) = None) = (txn w = None)" "view (mark_failed w) = view w"
  by (auto simp: mark_failed_def view_def split: option.split)

lemma view_seqs [simp]: "view (w\<lparr>seqs := s\<rparr>) = view w"
  by (simp add: view_def split: option.split)

lemma in_tx_mark_failed [simp]: "pg_in_tx (mark_failed w) = pg_in_tx w"
  by (simp add: pg_in_tx_def)

lemma tx_statement_keeps:
  assumes w: "pg_in_tx w" and ok: "stmt_ok stmt" and r: "statement D U Tx stmt w = (r, w')"
  shows "pg_in_tx w' \<and> committed w' = committed w \<and> (\<forall>rows. r = Inr rows \<longrightarrow>
    (\<exists>ws sq. sql_step D U (clock w) (view w) (seqs w) stmt = (Inr (rows, ws), sq) \<and>
       view w' = apply_writes ws (view w)))"
proof -
  obtain f w0 where f: "next_fault w = (f, w0)" by fastforce
  note same = next_fault_sel [OF f]
  have w0: "pg_in_tx w0" using w same by (simp add: pg_in_tx_def)
  then obtain t where t: "txn w0 = Some t" by (auto simp: pg_in_tx_def)
  obtain res sq where step: "sql_step D U (clock w) (view w) (seqs w) stmt = (res, sq)" by fastforce
  have sq: "seqs_le (seqs w) sq" using sql_step_seqs [of "seqs w" D U "clock w" "view w" stmt] step by simp
  have ok': "step_ok (view w) (res, sq)"
    using sql_step_ok [of "view w" "seqs w" stmt D U "clock w"] w ok step by (simp add: pg_in_tx_def)
  have com: "tables_ok (committed w) sq" using w sq by (auto simp: pg_in_tx_def intro: tables_ok_seqs_mono)
  show ?thesis
  proof (cases "f = NoFault \<and> \<not> tx_failed t")
    case False
    then have "(\<exists>e. r = Inl e) \<and> (w' = w0 \<or> w' = mark_failed w0)"
      using r f t by (auto simp: statement_def tx_statement_def fault_error_def split: fault.splits)
    with w0 same show ?thesis by auto
  next
    case True
    show ?thesis
    proof (cases res)
      case (Inl e)
      with True r f t step same have "r = Inl e \<and> w' = mark_failed (w0\<lparr>seqs := sq\<rparr>)"
        by (auto simp: statement_def tx_statement_def)
      with Inl ok' com t same show ?thesis by (auto simp: pg_in_tx_def step_ok_def)
    next
      case (Inr p)
      obtain rows ws where p: "p = (rows, ws)" by fastforce
      with Inr True r f t step same
      have 1: "r = Inr rows" "w' = w0\<lparr>seqs := sq, txn := Some (t\<lparr>tx_writes := tx_writes t @ ws\<rparr>)\<rparr>"
        by (auto simp: statement_def tx_statement_def)
      have 2: "view w' = apply_writes ws (view w)" using t same by (simp add: 1 view_def)
      with 1 Inr p ok' com same step show ?thesis by (auto simp: pg_in_tx_def step_ok_def)
    qed
  qed
qed

lemma calm_statement:
  assumes w: "pg_calm c w" and ok: "stmt_ok stmt"
  shows "case sql_step D U (clock w) (view w) (seqs w) stmt of
      (Inl e, sq) \<Rightarrow> \<exists>w'. statement D U Tx stmt w = (Inl e, w')
    | (Inr (rows, ws), sq) \<Rightarrow> \<exists>w'. statement D U Tx stmt w = (Inr rows, w') \<and>
        view w' = apply_writes ws (view w) \<and> seqs w' = sq \<and> clock w' = clock w \<and>
        (room c' (apply_writes ws (view w)) sq \<longrightarrow> pg_calm c' w')"
proof -
  obtain t where t: "txn w = Some t" "\<not> tx_failed t" using w by (auto simp: pg_calm_def pg_in_tx_def)
  have f: "next_fault w = (NoFault, w)" using w by (simp add: pg_calm_def next_fault_def)
  obtain res sq where step: "sql_step D U (clock w) (view w) (seqs w) stmt = (res, sq)" by fastforce
  show ?thesis
  proof (cases res)
    case (Inl e)
    with t f step show ?thesis by (simp add: statement_def tx_statement_def)
  next
    case (Inr p)
    obtain rows ws where p: "p = (rows, ws)" by fastforce
    let ?w' = "w\<lparr>seqs := sq, txn := Some (t\<lparr>tx_writes := tx_writes t @ ws\<rparr>)\<rparr>"
    have 1: "statement D U Tx stmt w = (Inr rows, ?w')"
      using t f step Inr p by (simp add: statement_def tx_statement_def)
    have "pg_in_tx ?w'" using tx_statement_keeps [OF _ ok 1] w by (simp add: pg_calm_def)
    moreover have "view ?w' = apply_writes ws (view w)" using t by (simp add: view_def)
    ultimately show ?thesis using 1 step Inr p w t by (simp add: pg_calm_def)
  qed
qed

subsection \<open>The database interactions as triples\<close>

text \<open>An error of an interaction comes from the server or the connection: it is never one of the
  program's own error values.\<close>

definition library_error :: "go_error \<Rightarrow> bool" where
  "library_error e \<longleftrightarrow> (\<exists>code con msg. e = PgError code con msg) \<or> (\<exists>msg. e = ExternalError msg)"

lemma library_error_classes [err_simps]:
  assumes "library_error e"
  shows "internal_error e" "errors_Is e ErrNoRows = False" "errors_Is e ErrDuplicateIdempotencyKey = False"
  using assms by (auto simp: library_error_def internal_error_def domain_sentinels_def)

lemma sql_step_error: "sql_step D U now t sq stmt = (Inl e, sq') \<Longrightarrow> \<exists>code con. e = pg_error U code con"
  by (cases stmt)
    (auto simp: insert_account_def insert_deposit_def update_balance_def find_transfer_def
      insert_transfer_def insert_ledger_entry_def Let_def split: option.splits if_splits)

lemma statement_error: "statement D U q stmt w = (Inl e, w') \<Longrightarrow> library_error e"
  by (auto simp: statement_def pool_statement_def tx_statement_def fault_error_def library_error_def
      pg_error_def ErrTxClosed_def dest!: sql_step_error
      split: prod.splits fault.splits querier.splits option.splits if_splits sum.splits)

text \<open>A statement's effect on the ledger that its transaction sees.\<close>

definition step_result ::
    "'d decimal_ops \<Rightarrow> 'u uuid_ops \<Rightarrow> 'd sql \<Rightarrow> 'u ledger \<Rightarrow> 'd cell list list \<Rightarrow> 'u ledger \<Rightarrow> bool" where
  "step_result D U stmt L rows L' \<longleftrightarrow>
     (\<exists>t sq now ws sq'. tables_ok t sq \<and> abs_ledger t = L \<and>
        sql_step D U now t sq stmt = (Inr (rows, ws), sq') \<and> L' = abs_ledger (apply_writes ws t))"

lemma step_resultE:
  assumes "step_result D U stmt L rows L'"
  obtains t sq now ws sq' where "tables_ok t sq" "L = abs_ledger t" "L' = abs_ledger (apply_writes ws t)"
    "sql_step D U now t sq stmt = (Inr (rows, ws), sq')"
  using assms by (auto simp: step_result_def)

lemma statement_step_result:
  assumes "pg_in_tx w" and "stmt_ok stmt" and "statement D U Tx stmt w = (Inr rows, w')"
  shows "pg_in_tx w' \<and> settled_ledger w' = settled_ledger w \<and>
    step_result D U stmt (tx_ledger w) rows (tx_ledger w')"
proof -
  obtain ws sq where "sql_step D U (clock w) (view w) (seqs w) stmt = (Inr (rows, ws), sq)"
    "view w' = apply_writes ws (view w)"
    using tx_statement_keeps [OF assms] by auto
  then have "step_result D U stmt (tx_ledger w) rows (tx_ledger w')"
    using assms(1) unfolding step_result_def tx_ledger_def pg_in_tx_def by metis
  then show ?thesis using tx_statement_keeps [OF assms] by (simp add: settled_ledger_def)
qed

lemma statement_fails:
  assumes "pg_in_tx w" and "stmt_ok stmt" and "statement D U Tx stmt w = (Inl e, w')"
  shows "pg_in_tx w' \<and> settled_ledger w' = settled_ledger w"
  using tx_statement_keeps [OF assms] by (simp add: settled_ledger_def)

text \<open>Every interaction with a transaction keeps it open, and answers from a step.\<close>

lemma interactions_ensure:
  assumes "stmt_ok stmt"
  shows "tx_ensures (pg D U) pg_in_tx settled_ledger tx_ledger L (Exec Tx stmt) (\<lambda>_ L'. \<exists>rows. step_result D U stmt L rows L')"
    and "tx_ensures (pg D U) pg_in_tx settled_ledger tx_ledger L (Query Tx stmt)
      (\<lambda>(rows, err) L'. err = None \<and> step_result D U stmt L rows L')"
    and "tx_ensures (pg D U) pg_in_tx settled_ledger tx_ledger L (QueryRow Tx stmt)
      (\<lambda>row L'. \<exists>rows. step_result D U stmt L (row # rows) L')"
  unfolding tx_ensures_def
  by (auto simp: run_simps pg_exec_def pg_query_def pg_query_row_def
      dest: statement_step_result [OF _ assms] statement_fails [OF _ assms]
      split: prod.splits sum.splits list.splits)

text \<open>Continuations that give up on an error.\<close>

lemma ensures_bind:
  assumes "tx_ensures h in_tx so lo L p R"
    and "\<And>x L'. R x L' \<Longrightarrow> tx_ensures h in_tx so lo L' (f (Inr x)) Q"
    and "\<And>e. \<exists>e'. f (Inl e) = Return (Inl e')"
  shows "tx_ensures h in_tx so lo L (bind_prog p f) Q"
  unfolding tx_ensures_def
proof (intro allI impI)
  fix w r w'
  assume w: "in_tx w" "lo w = L" and r: "run h (bind_prog p f) w = (r, w')"
  obtain r1 w1 where p: "run h p w = (r1, w1)" by fastforce
  have 1: "in_tx w1" "so w1 = so w" "\<And>x. r1 = Inr x \<Longrightarrow> R x (lo w1)"
    using assms(1) w p by (auto simp: tx_ensures_def)
  show "in_tx w' \<and> so w' = so w \<and> (\<forall>x. r = Inr x \<longrightarrow> Q x (lo w'))"
  proof (cases r1)
    case (Inl e)
    obtain e' where "f (Inl e) = Return (Inl e')" using assms(3) by blast
    with Inl p r 1 show ?thesis by (auto simp: run_bind_prog)
  next
    case (Inr x)
    with p r have "run h (f (Inr x)) w1 = (r, w')" by (simp add: run_bind_prog)
    with assms(2) [OF 1(3) [OF Inr]] 1(1,2) show ?thesis by (auto simp: tx_ensures_def)
  qed
qed

lemma yields_bind:
  assumes "tx_yields h calm lo c L p c' R"
    and "\<And>x L'. R x L' \<Longrightarrow> tx_yields h calm lo c' L' (f (Inr x)) c'' Q"
  shows "tx_yields h calm lo c L (bind_prog p f) c'' Q"
  using assms by (fastforce simp: tx_yields_def run_bind_prog)

lemma refuses_bind:
  assumes "tx_refuses h calm lo c L p E'" and "\<And>e. E' e \<Longrightarrow> \<exists>e'. f (Inl e) = Return (Inl e') \<and> E e'"
  shows "tx_refuses h calm lo c L (bind_prog p f) E"
  using assms by (fastforce simp: tx_refuses_def run_bind_prog)

text \<open>In a calm world an interaction is decided by the step on the tables it sees.\<close>

definition step_yields ::
    "'d decimal_ops \<Rightarrow> 'u uuid_ops \<Rightarrow> 'd sql \<Rightarrow> nat \<Rightarrow> 'u ledger \<Rightarrow> nat \<Rightarrow> ('d cell list list \<Rightarrow> bool) \<Rightarrow> bool" where
  "step_yields D U stmt c L c' Q \<longleftrightarrow>
     (\<forall>t sq now. tables_ok t sq \<longrightarrow> room c t sq \<longrightarrow> abs_ledger t = L \<longrightarrow>
        (\<exists>rows ws sq'. sql_step D U now t sq stmt = (Inr (rows, ws), sq') \<and>
           room c' (apply_writes ws t) sq' \<and> Q rows))"

definition step_refuses ::
    "'d decimal_ops \<Rightarrow> 'u uuid_ops \<Rightarrow> 'd sql \<Rightarrow> nat \<Rightarrow> 'u ledger \<Rightarrow> (go_error \<Rightarrow> bool) \<Rightarrow> bool" where
  "step_refuses D U stmt c L E \<longleftrightarrow>
     (\<forall>t sq now. tables_ok t sq \<longrightarrow> room c t sq \<longrightarrow> abs_ledger t = L \<longrightarrow>
        (\<exists>e sq'. sql_step D U now t sq stmt = (Inl e, sq') \<and> E e))"

lemma calm_view: "pg_calm c w \<Longrightarrow> tables_ok (view w) (seqs w) \<and> room c (view w) (seqs w)"
  by (simp add: pg_calm_def pg_in_tx_def)

lemma statement_yields:
  assumes ok: "stmt_ok stmt" and step: "step_yields D U stmt c (tx_ledger w) c' Q" and w: "pg_calm c w"
  shows "\<exists>rows w'. statement D U Tx stmt w = (Inr rows, w') \<and> pg_calm c' w' \<and> Q rows"
proof -
  obtain rows ws sq' where "sql_step D U (clock w) (view w) (seqs w) stmt = (Inr (rows, ws), sq')"
    "room c' (apply_writes ws (view w)) sq'" "Q rows"
    using step calm_view [OF w] unfolding step_yields_def tx_ledger_def by metis
  with calm_statement [OF w ok, of D U c'] show ?thesis by auto
qed

lemma statement_refuses:
  assumes ok: "stmt_ok stmt" and step: "step_refuses D U stmt c (tx_ledger w) E" and w: "pg_calm c w"
  shows "\<exists>e w'. statement D U Tx stmt w = (Inl e, w') \<and> E e"
proof -
  obtain e sq' where "sql_step D U (clock w) (view w) (seqs w) stmt = (Inl e, sq')" "E e"
    using step calm_view [OF w] by (fastforce simp: step_refuses_def tx_ledger_def)
  with calm_statement [OF w ok, of D U] show ?thesis by auto
qed

lemma interactions_yield:
  assumes "stmt_ok stmt" and "step_yields D U stmt c L c' Q"
  shows "tx_yields (pg D U) pg_calm tx_ledger c L (Exec Tx stmt) c' (\<lambda>_ _. True)"
    and "tx_yields (pg D U) pg_calm tx_ledger c L (Query Tx stmt) c' (\<lambda>(rows, err) _. err = None \<and> Q rows)"
    and "(\<And>rows. Q rows \<Longrightarrow> rows \<noteq> []) \<Longrightarrow>
      tx_yields (pg D U) pg_calm tx_ledger c L (QueryRow Tx stmt) c' (\<lambda>row _. \<exists>rows. Q (row # rows))"
proof -
  have st: "\<exists>rows w'. statement D U Tx stmt w = (Inr rows, w') \<and> pg_calm c' w' \<and> Q rows"
    if "pg_calm c w" "tx_ledger w = L" for w
    using statement_yields [OF assms(1)] assms(2) that by blast
  show "tx_yields (pg D U) pg_calm tx_ledger c L (Exec Tx stmt) c' (\<lambda>_ _. True)"
    and "tx_yields (pg D U) pg_calm tx_ledger c L (Query Tx stmt) c' (\<lambda>(rows, err) _. err = None \<and> Q rows)"
    unfolding tx_yields_def by (auto simp: run_simps pg_exec_def pg_query_def dest!: st)
  show "tx_yields (pg D U) pg_calm tx_ledger c L (QueryRow Tx stmt) c' (\<lambda>row _. \<exists>rows. Q (row # rows))"
    if "\<And>rows. Q rows \<Longrightarrow> rows \<noteq> []"
    unfolding tx_yields_def using that
    by (auto simp: run_simps pg_query_row_def neq_Nil_conv dest!: st split: list.split)
qed

lemma interactions_refuse:
  assumes "stmt_ok stmt" and "step_refuses D U stmt c L E"
  shows "tx_refuses (pg D U) pg_calm tx_ledger c L (Exec Tx stmt) E"
    and "tx_refuses (pg D U) pg_calm tx_ledger c L (QueryRow Tx stmt) E"
proof -
  have st: "\<exists>e w'. statement D U Tx stmt w = (Inl e, w') \<and> E e"
    if "pg_calm c w" "tx_ledger w = L" for w
    using statement_refuses [OF assms(1)] assms(2) that by blast
  show "tx_refuses (pg D U) pg_calm tx_ledger c L (Exec Tx stmt) E"
    and "tx_refuses (pg D U) pg_calm tx_ledger c L (QueryRow Tx stmt) E"
    unfolding tx_refuses_def by (auto simp: run_simps pg_exec_def pg_query_row_def dest!: st)
qed

end
