(* ===== verification/Tx_Contract.thy ===== *)
theory Tx_Contract
  imports Postgres
begin

text \<open>
  The transaction manager of \<open>internal/repository/tx.go\<close> on the database: one attempt
  (\<open>runOnce\<close>) commits the function's whole effect or leaves the settled ledger alone, the retry
  loop repeats only attempts that left it alone, and in a calm world the first attempt decides.
\<close>

subsection \<open>Begin, commit, rollback\<close>

lemma idle_ledger: "pg_idle w \<Longrightarrow> tx_ledger w = settled_ledger w"
  by (simp add: pg_idle_def tx_ledger_def settled_ledger_def view_def)

lemma begun_world_sel:
  assumes "pg_idle w"
  shows "pg_in_tx (begun_world w)" "tx_ledger (begun_world w) = settled_ledger w"
    "settled_ledger (begun_world w) = settled_ledger w"
  using assms
  by (simp_all add: pg_idle_def pg_in_tx_def begun_world_def tx_ledger_def settled_ledger_def view_def)

lemma pg_begin_cases:
  assumes "pg_idle w" and "pg_begin w = (r, w')"
  shows "(r = Inr () \<and> pg_in_tx w' \<and> tx_ledger w' = settled_ledger w \<and> settled_ledger w' = settled_ledger w) \<or>
    (\<exists>e. r = Inl e \<and> pg_idle w' \<and> settled_ledger w' = settled_ledger w)"
proof -
  obtain f w0 where f: "next_fault w = (f, w0)" by fastforce
  have w0: "pg_idle w0" "settled_ledger w0 = settled_ledger w"
    using assms(1) next_fault_sel [OF f] by (simp_all add: pg_idle_def settled_ledger_def)
  show ?thesis
    using assms(2) f w0 begun_world_sel [OF w0(1)]
    by (auto simp: pg_begin_def begun_world_def split: option.splits)
qed

lemma end_txn_idle:
  "pg_in_tx w \<Longrightarrow> pg_idle (w\<lparr>txn := None\<rparr>)" "settled_ledger (w\<lparr>txn := None\<rparr>) = settled_ledger w"
  by (simp_all add: pg_in_tx_def pg_idle_def settled_ledger_def)

lemma pg_commit_cases:
  assumes "pg_in_tx w" and "pg_commit w = (r, w')"
  shows "pg_idle w' \<and>
    (r = Inr () \<and> settled_ledger w' = tx_ledger w \<or>
     (\<exists>e. r = Inl e \<and> (settled_ledger w' = settled_ledger w \<or>
        settled_ledger w' = tx_ledger w \<and> \<not> isRetryable e)))"
proof -
  obtain f w0 where f: "next_fault w = (f, w0)" by fastforce
  note same = next_fault_sel [OF f]
  obtain t where t: "txn w = Some t" using assms(1) by (auto simp: pg_in_tx_def)
  let ?ended = "w0\<lparr>txn := None\<rparr>"
  let ?final = "w0\<lparr>txn := None, committed := apply_writes (tx_writes t) (committed w0)\<rparr>"
  have e: "pg_idle ?ended" "settled_ledger ?ended = settled_ledger w"
    using assms(1) same by (simp_all add: pg_in_tx_def pg_idle_def settled_ledger_def)
  have g: "pg_idle ?final" "settled_ledger ?final = tx_ledger w"
    using assms(1) same t by (simp_all add: pg_in_tx_def pg_idle_def settled_ledger_def tx_ledger_def view_def)
  show ?thesis
    using assms(2) f t e g
    by (cases f) (auto simp: pg_commit_def Let_def isRetryable_def split: if_splits)
qed

lemma pg_rollback_idle:
  "pg_idle w \<Longrightarrow> pg_rollback w = (Inl ErrTxClosed, w)"
  "pg_in_tx w \<Longrightarrow> pg_rollback w = (Inr (), w\<lparr>txn := None\<rparr>)"
  by (simp_all add: pg_rollback_def pg_idle_def pg_in_tx_def)

lemma isRetryable_Wrapf [err_simps]: "isRetryable (Wrapf p e) = isRetryable e"
  by (simp add: isRetryable_def)

subsection \<open>One attempt\<close>

lemma runOnce_atomic:
  assumes w: "pg_idle w" and r: "run (pg D U) (runOnce fn) w = (r, w')"
    and fn: "tx_ensures (pg D U) pg_in_tx settled_ledger tx_ledger (settled_ledger w) (fn Tx) P"
  shows "pg_idle w' \<and> (\<forall>x. r = Inr x \<longrightarrow> P x (settled_ledger w')) \<and>
    (settled_ledger w' = settled_ledger w \<or>
      (\<exists>x. P x (settled_ledger w')) \<and> (\<forall>e. r = Inl e \<longrightarrow> \<not> isRetryable e))"
proof -
  obtain rb w1 where b: "pg_begin w = (rb, w1)" by fastforce
  show ?thesis
  proof (cases rb)
    case (Inl e)
    with pg_begin_cases [OF w b] r b show ?thesis by (auto simp: runOnce_def run_simps)
  next
    case (Inr u)
    with pg_begin_cases [OF w b] have w1: "pg_in_tx w1" "tx_ledger w1 = settled_ledger w"
      "settled_ledger w1 = settled_ledger w" by auto
    obtain r1 w2 where f: "run (pg D U) (fn Tx) w1 = (r1, w2)" by fastforce
    with fn w1 have w2: "pg_in_tx w2" "settled_ledger w2 = settled_ledger w"
      "\<And>x. r1 = Inr x \<Longrightarrow> P x (tx_ledger w2)"
      unfolding tx_ensures_def by metis+
    show ?thesis
    proof (cases r1)
      case (Inl e)
      with Inr b f w2 r end_txn_idle(1) [OF w2(1)] end_txn_idle(2) [of w2] show ?thesis
        by (auto simp: runOnce_def run_simps pg_rollback_idle)
    next
      case x: (Inr x)
      obtain rc w3 where c: "pg_commit w2 = (rc, w3)" by fastforce
      note c' = pg_commit_cases [OF w2(1) c]
      have w3: "pg_rollback w3 = (Inl ErrTxClosed, w3)" using c' pg_rollback_idle(1) by blast
      have "w' = w3" "r = (case rc of Inl e \<Rightarrow> Inl (Wrapf ''commit'' e) | Inr _ \<Rightarrow> Inr x)"
        using Inr x b f c w3 r by (auto simp: runOnce_def run_simps split: sum.splits)
      with c' w2(2) w2(3) [OF x] show ?thesis by (auto simp: err_simps)
    qed
  qed
qed

subsection \<open>The retry loop\<close>

lemma withTxLoop_atomic:
  assumes "pg_idle w" and "run (pg D U) (withTxLoop n lastErr fn) w = (r, w')"
    and "tx_ensures (pg D U) pg_in_tx settled_ledger tx_ledger (settled_ledger w) (fn Tx) P"
  shows "pg_idle w' \<and> (\<forall>x. r = Inr x \<longrightarrow> P x (settled_ledger w')) \<and>
    (settled_ledger w' = settled_ledger w \<or> (\<exists>x. P x (settled_ledger w')))"
  using assms
proof (induction n arbitrary: w lastErr)
  case 0
  then show ?case by (auto simp: Let_def)
next
  case (Suc n)
  obtain r1 w1 where 1: "run (pg D U) (runOnce fn) w = (r1, w1)" by fastforce
  note a = runOnce_atomic [OF Suc.prems(1) 1 Suc.prems(3)]
  show ?case
  proof (cases "\<exists>e. r1 = Inl e \<and> isRetryable e")
    case True
    then obtain e where e: "r1 = Inl e" "isRetryable e" by blast
    with a have "pg_idle w1" "settled_ledger w1 = settled_ledger w" by auto
    moreover have "run (pg D U) (withTxLoop n (Some e) fn) w1 = (r, w')"
      using Suc.prems(2) 1 e by (simp add: run_simps)
    ultimately show ?thesis using Suc.IH [of w1 "Some e"] Suc.prems(3) by simp
  next
    case False
    then have "r = r1" "w' = w1"
      using Suc.prems(2) 1 by (auto simp: run_simps split: sum.splits if_splits)
    with a show ?thesis by auto
  qed
qed

text \<open>The attempts of the loop, on any database: \<open>attempts h fn rs w w'\<close> when running \<open>runOnce\<close> once per
  element of \<open>rs\<close> answers these results and leads from \<open>w\<close> to \<open>w'\<close>.\<close>

fun attempts ::
    "('d, 'w) handler \<Rightarrow> (querier \<Rightarrow> ('d, go_error + 'a) prog) \<Rightarrow> (go_error + 'a) list \<Rightarrow> 'w \<Rightarrow> 'w \<Rightarrow> bool" where
  "attempts h fn [] w w' = (w' = w)"
| "attempts h fn (r # rs) w w' = (\<exists>w1. run h (runOnce fn) w = (r, w1) \<and> attempts h fn rs w1 w')"

definition retryable_result :: "go_error + 'a \<Rightarrow> bool" where
  "retryable_result r \<longleftrightarrow> (\<exists>e. r = Inl e \<and> isRetryable e)"

definition retries_exhausted :: "go_error \<Rightarrow> go_error" where
  "retries_exhausted e = Wrapf (''transaction failed after '' @ fmt_d (int maxTxRetries) @ '' attempts'') e"

lemma withTxLoop_0: "withTxLoop 0 (Some e) fn = Return (Inl (retries_exhausted e))"
  by (simp add: retries_exhausted_def Let_def)

lemma withTxLoop_step:
  assumes "run h (runOnce fn) w = (r1, w1)"
  shows "run h (withTxLoop (Suc n) lastErr fn) w =
    (if retryable_result r1 then run h (withTxLoop n (Some (projl r1)) fn) w1 else (r1, w1))"
  using assms by (cases r1) (auto simp: retryable_result_def run_simps)

lemma withTxLoop_attempts:
  assumes "run h (withTxLoop (Suc n) lastErr fn) w = (r, w')"
  shows "\<exists>rs last_result. length rs \<le> n \<and> attempts h fn (rs @ [last_result]) w w' \<and>
    (\<forall>x \<in> set rs. retryable_result x) \<and>
    (if retryable_result last_result
     then length rs = n \<and> (\<exists>e. last_result = Inl e \<and> r = Inl (retries_exhausted e)) else r = last_result)"
  using assms
proof (induction n arbitrary: w lastErr)
  case 0
  obtain r1 w1 where 1: "run h (runOnce fn) w = (r1, w1)" by fastforce
  have "r = (if retryable_result r1 then Inl (retries_exhausted (projl r1)) else r1) \<and> w' = w1"
    using 0 by (simp add: withTxLoop_step [OF 1] withTxLoop_0 run_simps del: withTxLoop.simps split: if_splits)
  with 1 show ?case
    by (intro exI [of _ "[]"] exI [of _ r1]) (auto simp: retryable_result_def)
next
  case (Suc n)
  obtain r1 w1 where 1: "run h (runOnce fn) w = (r1, w1)" by fastforce
  show ?case
  proof (cases "retryable_result r1")
    case True
    then have "run h (withTxLoop (Suc n) (Some (projl r1)) fn) w1 = (r, w')"
      using Suc.prems by (simp add: withTxLoop_step [OF 1] del: withTxLoop.simps)
    from Suc.IH [OF this] obtain rs lr where *: "length rs \<le> n" "attempts h fn (rs @ [lr]) w1 w'"
      "\<forall>x \<in> set rs. retryable_result x"
      "if retryable_result lr then length rs = n \<and> (\<exists>e. lr = Inl e \<and> r = Inl (retries_exhausted e)) else r = lr"
      by blast
    with 1 True show ?thesis by (intro exI [of _ "r1 # rs"] exI [of _ lr]) auto
  next
    case False
    with Suc.prems have "r = r1" "w' = w1"
      by (simp_all add: withTxLoop_step [OF 1] del: withTxLoop.simps)
    with 1 False show ?thesis
      by (intro exI [of _ "[]"] exI [of _ r1]) auto
  qed
qed

subsection \<open>Calm worlds\<close>

lemma begun_calm:
  assumes "pg_calm_idle c w"
  shows "pg_calm c (begun_world w)" "pg_begin w = (Inr (), begun_world w)"
  using assms begun_world_sel(1) [of w]
  by (simp_all add: pg_calm_idle_def pg_calm_def begun_world_def pg_begin_def next_fault_def view_def)

lemma calm_begun:
  "pg_calm_idle c w \<Longrightarrow> pg_calm c (begun_world w) \<and> tx_ledger (begun_world w) = settled_ledger w \<and>
    settled_ledger (begun_world w) = settled_ledger w"
  using begun_calm(1) [of c w] begun_world_sel [of w] by (simp add: pg_calm_idle_def)

text \<open>In a calm world the next attempt decides, whatever came before it.\<close>

lemma withTxLoop_commits:
  assumes w: "pg_calm_idle c w" and f: "run (pg D U) (fn Tx) (begun_world w) = (Inr x, w1)"
    and c: "pg_calm c' w1"
  shows "\<exists>w'. run (pg D U) (withTxLoop (Suc n) lastErr fn) w = (Inr x, w') \<and> settled_ledger w' = tx_ledger w1"
proof -
  obtain t where t: "txn w1 = Some t" "\<not> tx_failed t" "script w1 = []"
    using c by (auto simp: pg_calm_def pg_in_tx_def)
  let ?w' = "w1\<lparr>txn := None, committed := apply_writes (tx_writes t) (committed w1)\<rparr>"
  have "pg_commit w1 = (Inr (), ?w')" using t by (simp add: pg_commit_def next_fault_def Let_def)
  moreover have "pg_rollback ?w' = (Inl ErrTxClosed, ?w')" by (simp add: pg_rollback_def)
  moreover have "settled_ledger ?w' = tx_ledger w1"
    using t by (simp add: settled_ledger_def tx_ledger_def view_def)
  ultimately show ?thesis
    using f begun_calm(2) [OF w] by (auto simp: runOnce_def run_simps)
qed

lemma withTxLoop_rolls_back:
  assumes w: "pg_calm_idle c w" and f: "run (pg D U) (fn Tx) (begun_world w) = (Inl e, w1)"
    and "pg_in_tx w1" "settled_ledger w1 = settled_ledger w" and e: "\<not> isRetryable e"
  shows "\<exists>w'. run (pg D U) (withTxLoop (Suc n) lastErr fn) w = (Inl e, w') \<and>
    settled_ledger w' = settled_ledger w"
  using f e begun_calm(2) [OF w] pg_rollback_idle(2) [OF assms(3)] assms(4) end_txn_idle(2) [of w1]
  by (auto simp: runOnce_def run_simps)

subsection \<open>After failed attempts\<close>

text \<open>The transaction manager with \<open>Suc n\<close> attempts left, after the attempt that ended with \<open>lastErr\<close>.\<close>

definition attempting :: "nat \<Rightarrow> go_error option \<Rightarrow> ('d, 'a) TxManager" where
  "attempting n lastErr = \<lparr>tm_WithTx = withTxLoop (Suc n) lastErr\<rparr>"

lemma NewTxManager_attempting: "NewTxManager = attempting 2 None"
  by (simp add: NewTxManager_def attempting_def WithTx_def maxTxRetries_def fun_eq_iff eval_nat_numeral)

lemma withTxLoop_skip:
  assumes "attempts h fn rs w w1" and "\<forall>x \<in> set rs. retryable_result x"
  shows "\<exists>lastErr'. run h (withTxLoop (length rs + k) lastErr fn) w = run h (withTxLoop k lastErr' fn) w1"
  using assms
proof (induction rs arbitrary: w lastErr)
  case Nil
  then show ?case by auto
next
  case (Cons r rs)
  then obtain w2 where w2: "run h (runOnce fn) w = (r, w2)" "attempts h fn rs w2 w1" by auto
  have "retryable_result r" "\<forall>x \<in> set rs. retryable_result x" using Cons.prems(2) by simp_all
  with Cons.IH [OF w2(2), of "Some (projl r)"] show ?case
    by (simp add: withTxLoop_step [OF w2(1)] del: withTxLoop.simps)
qed

lemma attempts_idle:
  assumes "attempts (pg D U) fn rs w w1" and "\<forall>x \<in> set rs. retryable_result x" and "pg_idle w"
    and "\<And>L. tx_ensures (pg D U) pg_in_tx settled_ledger tx_ledger L (fn Tx) (P L)"
  shows "pg_idle w1 \<and> settled_ledger w1 = settled_ledger w"
  using assms(1-3)
proof (induction rs arbitrary: w)
  case Nil
  then show ?case by simp
next
  case (Cons r rs)
  then obtain w2 where w2: "run (pg D U) (runOnce fn) w = (r, w2)" "attempts (pg D U) fn rs w2 w1" by auto
  have "pg_idle w2" "settled_ledger w2 = settled_ledger w"
    using runOnce_atomic [OF Cons.prems(3) w2(1) assms(4)] Cons.prems(2)
    by (auto simp: retryable_result_def)
  with Cons.IH [OF w2(2)] Cons.prems(2) show ?case by simp
qed

end
