(* ===== verification/Stores.thy ===== *)
theory Stores
  imports Tx_Contract
begin

text \<open>
  The contracts of \<open>Deps\<close> discharged for \<open>NewAccountRepository\<close>, \<open>NewTransferRepository\<close> and
  \<open>NewTxManager\<close> on the database: per statement, what it does to the abstract ledger, when it
  succeeds and when the server refuses it; then the methods of the repositories, and the transaction
  manager with its retry loop.
\<close>

definition uuid_laws :: "'u uuid_ops \<Rightarrow> bool" where
  "uuid_laws U \<longleftrightarrow> pg_uuid_in U [] = None"

lemma uuid_laws_ref: "uuid_laws ref_uuid"
  unfolding uuid_laws_def by code_simp

subsection \<open>Errors of the server\<close>

lemma pg_error_classes [err_simps]:
  "isRetryable (pg_error U code con) \<longleftrightarrow> code = ''40001'' \<or> code = ''40P01''"
  "pgErrorCode (pg_error U code con) = code" "constraintName (pg_error U code con) = con"
  "isUniqueViolation (pg_error U code con) con' \<longleftrightarrow> code = ''23505'' \<and> con = con'"
  "internal_error (pg_error U code con)"
  "errors_Is (pg_error U code con) ErrDuplicateIdempotencyKey = False"
  "errors_Is (pg_error U code con) ErrNoRows = False"
  by (simp_all add: pg_error_def isRetryable_def pgErrorCode_def constraintName_def
      isUniqueViolation_def codeUniqueViolation_def internal_error_def domain_sentinels_def)

lemma plain_internal_Wrapf [err_simps]: "plain_internal (Wrapf p e) = plain_internal e"
  by (simp add: plain_internal_def err_simps)

lemma plain_internal_pg [err_simps]:
  "plain_internal (pg_error U code con) \<longleftrightarrow> code \<noteq> ''40001'' \<and> code \<noteq> ''40P01''"
  by (simp add: plain_internal_def err_simps)

subsection \<open>Room\<close>

lemma sint_suc:
  assumes "sint (v :: int64) + 1 < 2 ^ 63"
  shows "sint (v + 1) = sint v + 1"
proof -
  have "- (2 ^ 63) \<le> sint v" using sint_range_size [of v] by (simp add: word_size)
  then show ?thesis using assms by (simp add: sint_word_add signed_take_bit_int_eq_self)
qed

lemma room_update:
  "room (Suc c) t sq \<Longrightarrow> room c (apply_write (WBalance i n now) t) sq"
  by (auto simp: room_def set_update_by) (fastforce simp: sint_suc)+

lemma room_other_writes [simp]:
  "room c (apply_write (WDeposit d) t) sq = room c t sq"
  "room c (apply_write (WTransfer x) t) sq = room c t sq"
  "room c (apply_write (WLedgerEntry e) t) sq = room c t sq"
  by (simp_all add: room_def)

lemma room_nextval:
  "room (Suc c) t sq \<Longrightarrow> nextval (deposits_id_seq sq) = Some (deposits_id_seq sq + 1)"
  "room (Suc c) t sq \<Longrightarrow> nextval (transfers_id_seq sq) = Some (transfers_id_seq sq + 1)"
  "room (Suc c) t sq \<Longrightarrow> nextval (ledger_entries_id_seq sq) = Some (ledger_entries_id_seq sq + 1)"
  by (auto simp: room_def nextval_def)

lemma fresh_ids:
  "tables_ok t sq \<Longrightarrow> nextval (deposits_id_seq sq) = Some k \<Longrightarrow> word_of_int k \<notin> dr_id ` set (deposits t)"
  "tables_ok t sq \<Longrightarrow> nextval (transfers_id_seq sq) = Some k \<Longrightarrow> word_of_int k \<notin> xr_id ` set (transfers t)"
  "tables_ok t sq \<Longrightarrow> nextval (ledger_entries_id_seq sq) = Some k \<Longrightarrow>
     word_of_int k \<notin> lr_id ` set (ledger_entries t)"
  using serial_ids_fresh [of "deposits_id_seq sq" "map dr_id (deposits t)" k]
    serial_ids_fresh [of "transfers_id_seq sq" "map xr_id (transfers t)" k]
    serial_ids_fresh [of "ledger_entries_id_seq sq" "map lr_id (ledger_entries t)" k]
  by (simp_all add: tables_ok_def)

text \<open>With room for one more write there is a next id, it is new, and one write less fits.\<close>

lemma next_ids:
  assumes "tables_ok t sq" and "room (Suc c) t sq"
  shows "\<exists>k. nextval (deposits_id_seq sq) = Some k \<and> word_of_int k \<notin> dr_id ` set (deposits t) \<and>
      room c t (sq\<lparr>deposits_id_seq := k\<rparr>)"
    and "\<exists>k. nextval (transfers_id_seq sq) = Some k \<and> word_of_int k \<notin> xr_id ` set (transfers t) \<and>
      room c t (sq\<lparr>transfers_id_seq := k\<rparr>)"
    and "\<exists>k. nextval (ledger_entries_id_seq sq) = Some k \<and>
      word_of_int k \<notin> lr_id ` set (ledger_entries t) \<and> room c t (sq\<lparr>ledger_entries_id_seq := k\<rparr>)"
proof -
  have "room c t (sq\<lparr>deposits_id_seq := deposits_id_seq sq + 1\<rparr>)"
    "room c t (sq\<lparr>transfers_id_seq := transfers_id_seq sq + 1\<rparr>)"
    "room c t (sq\<lparr>ledger_entries_id_seq := ledger_entries_id_seq sq + 1\<rparr>)"
    using assms(2) by (auto simp: room_def)
  then show "\<exists>k. nextval (deposits_id_seq sq) = Some k \<and> word_of_int k \<notin> dr_id ` set (deposits t) \<and>
      room c t (sq\<lparr>deposits_id_seq := k\<rparr>)"
    "\<exists>k. nextval (transfers_id_seq sq) = Some k \<and> word_of_int k \<notin> xr_id ` set (transfers t) \<and>
      room c t (sq\<lparr>transfers_id_seq := k\<rparr>)"
    "\<exists>k. nextval (ledger_entries_id_seq sq) = Some k \<and>
      word_of_int k \<notin> lr_id ` set (ledger_entries t) \<and> room c t (sq\<lparr>ledger_entries_id_seq := k\<rparr>)"
    using fresh_ids [OF assms(1)] room_nextval [OF assms(2)] by blast+
qed

subsection \<open>Statements on the abstract ledger\<close>

lemma update_balance_step:
  assumes "decimal_value D b = numeric_value n" and "balance_of L i \<noteq> None"
  shows "step_result D U (SqlUpdateBalance i b) L rows L' \<Longrightarrow> L' = put_balance i n L"
    and "0 \<le> n \<Longrightarrow> n < numeric_limit \<Longrightarrow>
      step_yields D U (SqlUpdateBalance i b) (Suc c) L c (\<lambda>_. True)"
    and "numeric_limit \<le> n \<Longrightarrow>
      step_refuses D U (SqlUpdateBalance i b) c L (\<lambda>e. e = pg_error U ''22003'' [])"
proof -
  show "step_result D U (SqlUpdateBalance i b) L rows L' \<Longrightarrow> L' = put_balance i n L"
    using assms
    by (auto elim!: step_resultE simp del: apply_write.simps simp: update_balance_def numeric_in_value
        abs_ledger_balance has_account_def split: option.splits if_splits)
  show "step_yields D U (SqlUpdateBalance i b) (Suc c) L c (\<lambda>_. True)" if n: "0 \<le> n" "n < numeric_limit"
    unfolding step_yields_def
  proof (intro allI impI)
    fix t sq now
    assume t: "tables_ok t sq" "room (Suc c) t sq" "abs_ledger t = L"
    with assms(2) obtain r where r: "account_row_of t i = Some r" by auto
    with t have "sint (ar_version r) < 2 ^ 63 - 1" by (auto simp: account_Some_iff room_def)
    with r n assms(1) have "sql_step D U now t sq (SqlUpdateBalance i b) = (Inr ([], [WBalance i n now]), sq)"
      by (simp add: update_balance_def numeric_in_value)
    moreover have "room c (apply_writes [WBalance i n now] t) sq"
      using room_update [OF t(2)] by (simp del: apply_write.simps)
    ultimately show "\<exists>rows ws sq'. sql_step D U now t sq (SqlUpdateBalance i b) = (Inr (rows, ws), sq') \<and>
        room c (apply_writes ws t) sq' \<and> True" by blast
  qed
  show "step_refuses D U (SqlUpdateBalance i b) c L (\<lambda>e. e = pg_error U ''22003'' [])"
    if "numeric_limit \<le> n"
    using assms that unfolding step_refuses_def
    by (auto simp: update_balance_def numeric_in_value split: option.split)
qed

lemma insert_account_step:
  assumes "decimal_value D b = numeric_value n" and "0 \<le> n"
  shows "step_result D U (SqlInsertAccount i b) L rows L' \<Longrightarrow> balance_of L i = None \<and> L' = put_balance i n L"
    and "n < numeric_limit \<Longrightarrow> balance_of L i = None \<Longrightarrow>
      step_yields D U (SqlInsertAccount i b) c L c (\<lambda>_. True)"
    and "n < numeric_limit \<Longrightarrow> balance_of L i \<noteq> None \<Longrightarrow>
      step_refuses D U (SqlInsertAccount i b) c L (\<lambda>e. e = pg_error U ''23505'' ''accounts_pkey'')"
  using assms
    apply (auto elim!: step_resultE simp del: apply_write.simps simp: insert_account_def numeric_in_value
      abs_ledger_account has_account_def split: option.splits if_splits)[1]
  using assms
   apply (auto simp: step_yields_def insert_account_def numeric_in_value has_account_def room_def tables_ok_def
      serial_ids_def)[1]
  using assms apply (auto simp: step_refuses_def insert_account_def numeric_in_value has_account_def)[1]
  done

lemma insert_deposit_step:
  assumes "decimal_value D b = numeric_value n"
  shows "step_result D U (SqlInsertDeposit i b) L rows L' \<Longrightarrow>
      0 < n \<and> L' = L\<lparr>funding := funding L @ [(i, n)]\<rparr>"
    and "0 < n \<Longrightarrow> n < numeric_limit \<Longrightarrow> balance_of L i \<noteq> None \<Longrightarrow>
      step_yields D U (SqlInsertDeposit i b) (Suc c) L c (\<lambda>_. True)"
  using assms
   apply (auto elim!: step_resultE simp del: apply_write.simps simp: insert_deposit_def numeric_in_value
      abs_ledger_deposit Let_def split: option.splits if_splits)[1]
  using assms
  apply (auto simp: step_yields_def insert_deposit_def numeric_in_value has_account_def Let_def
      simp del: apply_write.simps dest!: next_ids(1) split: option.split)[1]
  done

lemma insert_transfer_step:
  assumes "decimal_value D a = numeric_value n"
  shows "step_result D U (SqlInsertTransfer key src dst a st) L rows L' \<Longrightarrow>
      \<exists>i k. rows = [[CInt i]] \<and> uuid_param U key = Some k \<and>
        (\<forall>k'. k = Some k' \<longrightarrow> find_payment k' L = None) \<and> i \<notin> pay_id ` set (payments L) \<and>
        L' = add_payment \<lparr>pay_id = i, pay_key = k, pay_source = src, pay_destination = dst, pay_amount = n\<rparr> L"
    and "\<lbrakk>0 < n; n < numeric_limit; src \<noteq> dst; balance_of L src \<noteq> None; balance_of L dst \<noteq> None;
        uuid_param U key = Some k; \<forall>k'. k = Some k' \<longrightarrow> find_payment k' L = None\<rbrakk> \<Longrightarrow>
      step_yields D U (SqlInsertTransfer key src dst a st) (Suc c) L c (\<lambda>rows. rows \<noteq> [])"
proof -
  show "\<exists>i k. rows = [[CInt i]] \<and> uuid_param U key = Some k \<and>
        (\<forall>k'. k = Some k' \<longrightarrow> find_payment k' L = None) \<and> i \<notin> pay_id ` set (payments L) \<and>
        L' = add_payment \<lparr>pay_id = i, pay_key = k, pay_source = src, pay_destination = dst, pay_amount = n\<rparr> L"
    if "step_result D U (SqlInsertTransfer key src dst a st) L rows L'"
    using that assms
    by (auto elim!: step_resultE simp del: apply_write.simps simp: insert_transfer_def numeric_in_value
        abs_ledger_transfer find_payment_abs has_transfer_iff Let_def split: option.splits if_splits)
      (auto simp: payment_of_row_def)
  show "step_yields D U (SqlInsertTransfer key src dst a st) (Suc c) L c (\<lambda>rows. rows \<noteq> [])"
    if "0 < n" "n < numeric_limit" "src \<noteq> dst" "balance_of L src \<noteq> None" "balance_of L dst \<noteq> None"
      "uuid_param U key = Some k" "\<forall>k'. k = Some k' \<longrightarrow> find_payment k' L = None"
    unfolding step_yields_def
  proof (intro allI impI)
    fix t sq now
    assume t: "tables_ok t sq" "room (Suc c) t sq" "abs_ledger t = L"
    obtain j where j: "nextval (transfers_id_seq sq) = Some j" "word_of_int j \<notin> xr_id ` set (transfers t)"
      "room c t (sq\<lparr>transfers_id_seq := j\<rparr>)"
      using next_ids(2) [OF t(1,2)] by blast
    have "has_account t src" "has_account t dst" "\<not> has_transfer t (word_of_int j)"
      "k = None \<or> transfer_by_key t (the k) = None"
      using that t(3) j(2)
      by (auto simp: balance_of_None_iff has_transfer_iff find_payment_abs has_account_def)
    with that j assms show "\<exists>rows ws sq'.
        sql_step D U now t sq (SqlInsertTransfer key src dst a st) = (Inr (rows, ws), sq') \<and>
        room c (apply_writes ws t) sq' \<and> rows \<noteq> []"
      by (simp add: insert_transfer_def numeric_in_value Let_def del: apply_write.simps)
  qed
qed

lemma insert_entry_step:
  assumes "decimal_value D a = numeric_value n" and "decimal_value D ba = numeric_value b"
  shows "step_result D U (SqlInsertLedgerEntry tid i (direction_string dir) a ba) L rows L' \<Longrightarrow>
      L' = add_posting \<lparr>post_payment = tid, post_account = i, post_direction = dir, post_amount = n,
        post_balance = b\<rparr> L"
    and "\<lbrakk>0 < n; n < numeric_limit; 0 \<le> b; b < numeric_limit; tid \<in> pay_id ` set (payments L);
        balance_of L i \<noteq> None\<rbrakk> \<Longrightarrow>
      step_yields D U (SqlInsertLedgerEntry tid i d a ba) (Suc c) L c (\<lambda>_. True)"
proof -
  show "L' = add_posting \<lparr>post_payment = tid, post_account = i, post_direction = dir, post_amount = n,
        post_balance = b\<rparr> L"
    if "step_result D U (SqlInsertLedgerEntry tid i (direction_string dir) a ba) L rows L'"
    using that assms
    by (auto elim!: step_resultE simp del: apply_write.simps simp: insert_ledger_entry_def numeric_in_value
        abs_ledger_entry posting_of_row_def Let_def split: option.splits if_splits)
      (cases dir; simp)+
  show "step_yields D U (SqlInsertLedgerEntry tid i d a ba) (Suc c) L c (\<lambda>_. True)"
    if "0 < n" "n < numeric_limit" "0 \<le> b" "b < numeric_limit" "tid \<in> pay_id ` set (payments L)"
      "balance_of L i \<noteq> None"
    unfolding step_yields_def
  proof (intro allI impI)
    fix t sq now
    assume t: "tables_ok t sq" "room (Suc c) t sq" "abs_ledger t = L"
    obtain j where j: "nextval (ledger_entries_id_seq sq) = Some j"
      "word_of_int j \<notin> lr_id ` set (ledger_entries t)" "room c t (sq\<lparr>ledger_entries_id_seq := j\<rparr>)"
      using next_ids(3) [OF t(1,2)] by blast
    have "has_account t i" "has_transfer t tid"
      using that t(3) by (auto simp: has_transfer_iff has_account_def payment_of_row_def)
    with that j assms show "\<exists>rows ws sq'.
        sql_step D U now t sq (SqlInsertLedgerEntry tid i d a ba) = (Inr (rows, ws), sq') \<and>
        room c (apply_writes ws t) sq' \<and> True"
      by (simp add: insert_ledger_entry_def numeric_in_value Let_def del: apply_write.simps)
  qed
qed

subsection \<open>Reads\<close>

lemma filter_lookup_by:
  "filter (\<lambda>r. key r = k) rows = [] \<longleftrightarrow> lookup_by key k rows = None"
  "filter (\<lambda>r. key r = k) rows = r # rs \<Longrightarrow> lookup_by key k rows = Some r"
  by (induction rows) (auto split: if_splits)

definition account_of_row :: "'d decimal_ops \<Rightarrow> account_row \<Rightarrow> 'd Account" where
  "account_of_row D r =
     \<lparr>acc_ID = ar_id r, acc_Balance = of_numeric D (ar_balance r), acc_Version = ar_version r,
      acc_CreatedAt = ar_created_at r, acc_UpdatedAt = ar_updated_at r\<rparr>"

definition transfer_of_row :: "'d decimal_ops \<Rightarrow> 'u uuid_ops \<Rightarrow> 'u transfer_row \<Rightarrow> 'd Transfer" where
  "transfer_of_row D U r =
     \<lparr>tr_ID = xr_id r, tr_IdempotencyKey = map_option (pg_uuid_out U) (xr_idempotency_key r),
      tr_SourceID = xr_source_id r, tr_DestinationID = xr_destination_id r,
      tr_Amount = of_numeric D (xr_amount r), tr_Status = xr_status r, tr_CreatedAt = xr_created_at r\<rparr>"

lemma scan_cells [simp]:
  "scanAccount (account_cells D r) = Inr (account_of_row D r)"
  "scanTransfer (transfer_cells D U x) = Inr (transfer_of_row D U x)"
  by (simp_all add: scanAccount_def account_cells_def account_of_row_def scanTransfer_def
      transfer_cells_def transfer_of_row_def split: option.split)

lemma collectAccounts_rows:
  assumes "distinct (map ar_id rows)"
  shows "\<exists>m. collectAccounts (map (account_cells D) rows) out = Inr m \<and>
    (\<forall>i. m i = (case lookup_by ar_id i rows of None \<Rightarrow> out i | Some r \<Rightarrow> Some (account_of_row D r)))"
  using assms
proof (induction rows arbitrary: out)
  case Nil
  then show ?case by simp
next
  case (Cons r rows)
  then have "lookup_by ar_id (ar_id r) rows = None" by (auto simp: lookup_by_None_iff)
  with Cons.IH [of "out(acc_ID (account_of_row D r) \<mapsto> account_of_row D r)"] Cons.prems show ?case
    by (fastforce simp: account_of_row_def split: option.splits)
qed

lemma lock_rows_lookup:
  assumes "distinct (map ar_id (accounts t))" and "i \<in> set ids"
  shows "distinct (map ar_id (lock_rows t ids))" "lookup_by ar_id i (lock_rows t ids) = account_row_of t i"
proof -
  show d: "distinct (map ar_id (lock_rows t ids))"
    using assms(1) by (auto simp: lock_rows_def distinct_map inj_on_def)
  have "lookup_by ar_id i (lock_rows t ids) = Some r \<longleftrightarrow> account_row_of t i = Some r" for r
    unfolding lookup_by_eq_Some_iff [OF d]
    using assms by (auto simp: account_row_of_def lookup_by_eq_Some_iff lock_rows_def)
  then show "lookup_by ar_id i (lock_rows t ids) = account_row_of t i" by (metis not_Some_eq)
qed

lemma account_denotes_row:
  "decimal_laws D \<Longrightarrow> ar_id r = i \<Longrightarrow>
     account_denotes D i (Some (account_of_row D r)) (Some (ar_balance r))"
  by (simp add: account_of_row_def decimal_laws.of_numeric_value)

lemma transfer_denotes_row:
  "decimal_laws D \<Longrightarrow> xr_status r = StatusCompleted \<Longrightarrow>
     transfer_denotes D (transfer_of_row D U r) (payment_of_row r)"
  by (simp add: transfer_denotes_def transfer_of_row_def payment_of_row_def decimal_laws.of_numeric_value)

lemma locked_map:
  assumes "decimal_laws D" and "tables_ok t sq"
  shows "\<exists>m. collectAccounts (map (account_cells D) (lock_rows t ids)) Map.empty = Inr m \<and>
    (\<forall>i \<in> set ids. account_denotes D i (m i) (balance_of (abs_ledger t) i))"
proof (cases ids)
  case Nil
  then show ?thesis by (simp add: lock_rows_def)
next
  case (Cons i0 ids')
  have d: "distinct (map ar_id (accounts t))" using assms(2) by (simp add: tables_ok_def accounts_ok_def)
  from collectAccounts_rows [OF lock_rows_lookup(1) [OF d, of i0 ids], of D Map.empty] Cons
  obtain m where m: "collectAccounts (map (account_cells D) (lock_rows t ids)) Map.empty = Inr m"
    "\<And>i. m i = map_option (account_of_row D) (lookup_by ar_id i (lock_rows t ids))"
    by (auto simp: map_option_case)
  have "account_denotes D i (m i) (balance_of (abs_ledger t) i)" if "i \<in> set ids" for i
  proof (cases "account_row_of t i")
    case None
    then show ?thesis using m(2) lock_rows_lookup(2) [OF d that] by simp
  next
    case (Some r)
    then have "ar_id r = i" using account_Some_iff [OF assms(2)] by blast
    then show ?thesis
      using Some m(2) lock_rows_lookup(2) [OF d that] account_denotes_row [OF assms(1)] by simp
  qed
  with m(1) show ?thesis by blast
qed

lemma lock_accounts_step:
  assumes "decimal_laws D"
  shows "step_result D U (SqlLockAccounts ids) L rows L' \<Longrightarrow> L' = L \<and>
      (\<exists>m. collectAccounts rows Map.empty = Inr m \<and>
        (\<forall>i \<in> set ids. account_denotes D i (m i) (balance_of L i)))"
    and "step_yields D U (SqlLockAccounts ids) c L c (\<lambda>rows. \<exists>m. collectAccounts rows Map.empty = Inr m)"
  using locked_map [OF assms]
  by (auto elim!: step_resultE simp: step_yields_def simp del: abs_ledger_sel) blast+

lemma stored_status:
  "tables_ok t sq \<Longrightarrow> transfer_by_key t k = Some r \<Longrightarrow> xr_status r = StatusCompleted"
  by (auto simp: tables_ok_def transfers_ok_def transfer_by_key_def dest: lookup_by_SomeD)

lemma find_transfer_step:
  assumes "decimal_laws D"
  shows "step_result D U (SqlFindTransfer key) L rows L' \<Longrightarrow> L' = L \<and>
      (\<exists>k. pg_uuid_in U key = Some k \<and>
        (case rows of
           [] \<Rightarrow> find_payment k L = None
         | row # _ \<Rightarrow> \<exists>t p. scanTransfer row = Inr t \<and> find_payment k L = Some p \<and> transfer_denotes D t p))"
    and "pg_uuid_in U key = Some k \<Longrightarrow>
      step_yields D U (SqlFindTransfer key) c L c (\<lambda>rows. \<forall>row \<in> set rows. \<exists>t. scanTransfer row = Inr t)"
    and "pg_uuid_in U key = None \<Longrightarrow>
      step_refuses D U (SqlFindTransfer key) c L (\<lambda>e. e = pg_error U ''22P02'' [])"
proof -
  show "L' = L \<and> (\<exists>k. pg_uuid_in U key = Some k \<and>
        (case rows of
           [] \<Rightarrow> find_payment k L = None
         | row # _ \<Rightarrow> \<exists>t p. scanTransfer row = Inr t \<and> find_payment k L = Some p \<and> transfer_denotes D t p))"
    if res: "step_result D U (SqlFindTransfer key) L rows L'"
  proof -
    from res obtain t sq k where t: "tables_ok t sq" "L = abs_ledger t" "L' = L" "pg_uuid_in U key = Some k"
      "rows = map (transfer_cells D U) (filter (\<lambda>r. xr_idempotency_key r = Some k) (transfers t))"
      by (auto elim!: step_resultE simp: find_transfer_def split: option.splits)
    show ?thesis
    proof (cases "filter (\<lambda>r. xr_idempotency_key r = Some k) (transfers t)")
      case Nil
      then have "find_payment k L = None"
        using t(2) by (simp add: find_payment_abs transfer_by_key_def filter_lookup_by(1))
      with t Nil show ?thesis by simp
    next
      case (Cons r rs)
      then have "transfer_by_key t k = Some r" by (simp add: transfer_by_key_def filter_lookup_by(2))
      with t Cons stored_status [OF t(1)] transfer_denotes_row [OF assms, of r U] show ?thesis
        by (simp add: find_payment_abs)
    qed
  qed
  show "pg_uuid_in U key = Some k \<Longrightarrow>
      step_yields D U (SqlFindTransfer key) c L c (\<lambda>rows. \<forall>row \<in> set rows. \<exists>t. scanTransfer row = Inr t)"
    by (auto simp: step_yields_def find_transfer_def)
  show "pg_uuid_in U key = None \<Longrightarrow>
      step_refuses D U (SqlFindTransfer key) c L (\<lambda>e. e = pg_error U ''22P02'' [])"
    by (auto simp: step_refuses_def find_transfer_def)
qed

subsection \<open>QueryRow and Scan\<close>

lemma run_QueryRowScan [run_simps]:
  "run (pg D U) (QueryRowScan q stmt scan) w =
     (case statement D U q stmt w of
        (Inl e, w') \<Rightarrow> (Inl e, w')
      | (Inr [], w') \<Rightarrow> (Inl ErrNoRows, w')
      | (Inr (row # rows), w') \<Rightarrow> (scan row, w'))"
  by (auto simp: QueryRowScan_def run_andThen run_simps pg_query_row_def
      split: prod.split sum.split list.split)

text \<open>The reads on the pool leave the database as it is.\<close>

lemma pool_read:
  assumes "sql_step D U (clock w) (committed w) (seqs w) stmt = (res, seqs w)"
    and "\<forall>rows ws. res = Inr (rows, ws) \<longrightarrow> ws = []" and "statement D U Pool stmt w = (r, w')"
  shows "committed w' = committed w \<and> seqs w' = seqs w \<and> txn w' = txn w \<and>
    (\<forall>rows. r = Inr rows \<longrightarrow> res = Inr (rows, [])) \<and>
    (script w = [] \<longrightarrow> w' = w \<and> r = (case res of Inl e \<Rightarrow> Inl e | Inr (rows, ws) \<Rightarrow> Inr rows))"
proof -
  obtain f w0 where f: "next_fault w = (f, w0)" by fastforce
  show ?thesis
    using assms f next_fault_sel [OF f]
    by (cases res) (auto simp: statement_def pool_statement_def fault_error_def
        split: option.splits fault.splits)
qed

end
