(* ===== verification/Transfer_Service.thy ===== *)
theory Transfer_Service
  imports Deps Uuid
begin

text \<open>
  \<open>internal/service/transfer_service.go\<close>: the transfer service over the interfaces of \<open>Deps\<close>. Its
  contract is proved once, for every provider of the stores and of the transaction manager
  (locale \<open>transfer_service\<close>): whatever fails, a transfer posts one whole payment or leaves the
  settled ledger as it was; and where nothing fails, it answers what \<open>transfer_spec\<close> says.
\<close>

record 'd TransferCmd =
  cmd_SourceID :: int64
  cmd_DestinationID :: int64
  cmd_Amount :: 'd
  cmd_IdempotencyKey :: string

record 'd TransferService =
  tsv_db :: querier
  tsv_tx :: "('d, 'd Transfer) TxManager"
  tsv_accounts :: "'d AccountStore"
  tsv_transfers :: "'d TransferStore"

definition NewTransferService ::
    "querier \<Rightarrow> ('d, 'd Transfer) TxManager \<Rightarrow> 'd AccountStore \<Rightarrow> 'd TransferStore \<Rightarrow> 'd TransferService" where
  "NewTransferService db tx accs trs =
     \<lparr>tsv_db = db, tsv_tx = tx, tsv_accounts = accs, tsv_transfers = trs\<rparr>"

definition matchesCmd :: "'d decimal_ops \<Rightarrow> 'd Transfer \<Rightarrow> 'd TransferCmd \<Rightarrow> bool" where
  "matchesCmd D t cmd \<longleftrightarrow>
     tr_SourceID t = cmd_SourceID cmd \<and> tr_DestinationID t = cmd_DestinationID cmd \<and>
     Equal D (tr_Amount t) (cmd_Amount cmd)"

definition optionalKey :: "string \<Rightarrow> string option" where
  "optionalKey key = (if key = '''' then None else Some key)"

definition TransferService_validate ::
    "'d decimal_ops \<Rightarrow> 'u uuid_ops \<Rightarrow> 'd TransferCmd \<Rightarrow> go_error option" where
  "TransferService_validate D U cmd =
     (case validateAccountID (cmd_SourceID cmd) of Some err \<Rightarrow> Some err
      | None \<Rightarrow>
     (case validateAccountID (cmd_DestinationID cmd) of Some err \<Rightarrow> Some err
      | None \<Rightarrow>
      if cmd_SourceID cmd = cmd_DestinationID cmd then Some ErrSameAccount
      else
     (case validateAmount D (cmd_Amount cmd) of Some err \<Rightarrow> Some err
      | None \<Rightarrow>
      if cmd_IdempotencyKey cmd \<noteq> '''' \<and> \<not> uuid_Parse U (cmd_IdempotencyKey cmd)
      then Some ErrInvalidIdempotency
      else None)))"

text \<open>\<open>execute\<close> from the balance computation on: \<open>source\<close> and \<open>dest\<close> are the locked accounts. A
  \<open>LedgerEntry\<close> that is about to be inserted has the zero \<open>ID\<close> and \<open>CreatedAt\<close>.\<close>

definition execute_posting ::
    "'d decimal_ops \<Rightarrow> 'd TransferService \<Rightarrow> querier \<Rightarrow> 'd TransferCmd \<Rightarrow> 'd Account \<Rightarrow> 'd Account \<Rightarrow>
     ('d, go_error + 'd Transfer) prog" where
  "execute_posting D s q cmd source dest =
     (let newSource = Sub D (acc_Balance source) (cmd_Amount cmd);
          newDest = Add D (acc_Balance dest) (cmd_Amount cmd) in
      andThen (as_UpdateBalance (tsv_accounts s) q (acc_ID source) newSource) (\<lambda>_.
      andThen (as_UpdateBalance (tsv_accounts s) q (acc_ID dest) newDest) (\<lambda>_.
      let transfer = \<lparr>tr_ID = 0, tr_IdempotencyKey = optionalKey (cmd_IdempotencyKey cmd),
                      tr_SourceID = cmd_SourceID cmd, tr_DestinationID = cmd_DestinationID cmd,
                      tr_Amount = cmd_Amount cmd, tr_Status = StatusCompleted, tr_CreatedAt = 0\<rparr> in
      andThen (ts_Insert (tsv_transfers s) q transfer) (\<lambda>i.
      let transfer = transfer\<lparr>tr_ID := i\<rparr>;
          debit = \<lparr>le_ID = 0, le_TransferID = i, le_AccountID = acc_ID source,
                   le_Direction = DirectionDebit, le_Amount = cmd_Amount cmd,
                   le_BalanceAfter = newSource, le_CreatedAt = 0\<rparr>;
          credit = \<lparr>le_ID = 0, le_TransferID = i, le_AccountID = acc_ID dest,
                    le_Direction = DirectionCredit, le_Amount = cmd_Amount cmd,
                    le_BalanceAfter = newDest, le_CreatedAt = 0\<rparr> in
      andThen (ts_InsertLedgerEntry (tsv_transfers s) q debit) (\<lambda>_.
      andThen (ts_InsertLedgerEntry (tsv_transfers s) q credit) (\<lambda>_.
      Return (Inr transfer)))))))"

definition TransferService_execute ::
    "'d decimal_ops \<Rightarrow> 'd TransferService \<Rightarrow> querier \<Rightarrow> 'd TransferCmd \<Rightarrow> ('d, go_error + 'd Transfer) prog" where
  "TransferService_execute D s q cmd =
     andThen (as_LockForUpdate (tsv_accounts s) q [cmd_SourceID cmd, cmd_DestinationID cmd]) (\<lambda>locked.
     case locked (cmd_SourceID cmd) of
       None \<Rightarrow> Return (Inl (AccountNotFound (cmd_SourceID cmd)))
     | Some source \<Rightarrow>
     (case locked (cmd_DestinationID cmd) of
       None \<Rightarrow> Return (Inl (AccountNotFound (cmd_DestinationID cmd)))
     | Some dest \<Rightarrow>
     if LessThan D (acc_Balance source) (cmd_Amount cmd) then Return (Inl ErrInsufficientFunds)
     else execute_posting D s q cmd source dest))"

definition TransferService_resolveDuplicate ::
    "'d decimal_ops \<Rightarrow> 'd TransferService \<Rightarrow> 'd TransferCmd \<Rightarrow> ('d, go_error + 'd Transfer) prog" where
  "TransferService_resolveDuplicate D s cmd =
     andThen (ts_FindByIdempotencyKey (tsv_transfers s) (tsv_db s) (cmd_IdempotencyKey cmd)) (\<lambda>found.
     case found of
       None \<Rightarrow> Return (Inl ErrDuplicateIdempotencyKey)
     | Some existing \<Rightarrow>
         if \<not> matchesCmd D existing cmd then Return (Inl ErrIdempotencyConflict)
         else Return (Inr existing))"

text \<open>The function \<open>Transfer\<close> runs in the transaction.\<close>

definition TransferService_body ::
    "'d decimal_ops \<Rightarrow> 'd TransferService \<Rightarrow> 'd TransferCmd \<Rightarrow> querier \<Rightarrow> ('d, go_error + 'd Transfer) prog" where
  "TransferService_body D s cmd q =
     (if cmd_IdempotencyKey cmd \<noteq> '''' then
        andThen (ts_FindByIdempotencyKey (tsv_transfers s) q (cmd_IdempotencyKey cmd)) (\<lambda>found.
        case found of
          Some existing \<Rightarrow>
            if \<not> matchesCmd D existing cmd then Return (Inl ErrIdempotencyConflict)
            else Return (Inr existing)
        | None \<Rightarrow> TransferService_execute D s q cmd)
      else TransferService_execute D s q cmd)"

definition TransferService_Transfer ::
    "'d decimal_ops \<Rightarrow> 'u uuid_ops \<Rightarrow> 'd TransferService \<Rightarrow> 'd TransferCmd \<Rightarrow> ('d, go_error + 'd Transfer) prog" where
  "TransferService_Transfer D U s cmd =
     (case TransferService_validate D U cmd of
        Some err \<Rightarrow> Return (Inl err)
      | None \<Rightarrow>
          bind_prog (tm_WithTx (tsv_tx s) (TransferService_body D s cmd)) (\<lambda>r. case r of
            Inl err \<Rightarrow>
              if errors_Is err ErrDuplicateIdempotencyKey then TransferService_resolveDuplicate D s cmd
              else Return (Inl err)
          | Inr result \<Rightarrow> Return (Inr result)))"

subsection \<open>What the checks of a command leave\<close>

lemma validate_None_iff:
  "TransferService_validate D U cmd = None \<longleftrightarrow>
     0 < sint (cmd_SourceID cmd) \<and> 0 < sint (cmd_DestinationID cmd) \<and>
     cmd_SourceID cmd \<noteq> cmd_DestinationID cmd \<and> validateAmount D (cmd_Amount cmd) = None \<and>
     (cmd_IdempotencyKey cmd = [] \<or> uuid_Parse U (cmd_IdempotencyKey cmd))"
  by (auto simp: TransferService_validate_def validateAccountID_def split: option.split)

text \<open>The amount of a command, in units of the abstract ledger.\<close>

abbreviation cmd_units :: "'d decimal_ops \<Rightarrow> 'd TransferCmd \<Rightarrow> int" where
  "cmd_units D cmd \<equiv> units D (cmd_Amount cmd)"

text \<open>A transfer \<open>t\<close> was answered and \<open>L\<close> became \<open>L'\<close>: \<open>t\<close> is the one payment that was posted, or the
  ledger is unchanged and \<open>t\<close> is the payment that carries the request's key already.\<close>

definition transfer_answered ::
    "'d decimal_ops \<Rightarrow> 'k option \<Rightarrow> 'd TransferCmd \<Rightarrow> 'k ledger \<Rightarrow> 'd Transfer \<Rightarrow> 'k ledger \<Rightarrow> bool" where
  "transfer_answered D key cmd L t L' \<longleftrightarrow>
     (\<exists>p. transfer_denotes D t p \<and>
        (payment_posted key (cmd_SourceID cmd) (cmd_DestinationID cmd) (cmd_units D cmd) p L L' \<or>
         L' = L \<and> (\<exists>k. key = Some k \<and> find_payment k L = Some p) \<and>
         same_request p (cmd_SourceID cmd) (cmd_DestinationID cmd) (cmd_units D cmd)))"

lemma transfer_answered_post:
  assumes "transfer_denotes D t p" and "pay_key p = key" and "pay_source p = cmd_SourceID cmd"
    and "pay_destination p = cmd_DestinationID cmd" and "pay_amount p = cmd_units D cmd"
    and "cmd_SourceID cmd \<noteq> cmd_DestinationID cmd" and "0 < cmd_units D cmd"
    and "pay_id p \<notin> pay_id ` set (payments L)" and "\<forall>k. key = Some k \<longrightarrow> find_payment k L = None"
    and "balance_of L (cmd_SourceID cmd) = Some a" and "balance_of L (cmd_DestinationID cmd) = Some b"
    and "cmd_units D cmd \<le> a"
  shows "transfer_answered D key cmd L t (post p a b L)"
  using assms by (auto simp: transfer_answered_def payment_posted_def)

lemma transfer_answered_ledger:
  "transfer_answered D key cmd L t L' \<Longrightarrow> L' = L \<or> (\<exists>p.
     payment_posted key (cmd_SourceID cmd) (cmd_DestinationID cmd) (cmd_units D cmd) p L L')"
  by (auto simp: transfer_answered_def)

text \<open>After an answer, the key of the request finds the payment that was answered.\<close>

lemma answered_payment:
  assumes "transfer_answered D (Some k) cmd L t L'"
  shows "\<exists>p. find_payment k L' = Some p \<and> transfer_denotes D t p \<and>
    same_request p (cmd_SourceID cmd) (cmd_DestinationID cmd) (cmd_units D cmd)"
  using assms
  by (auto simp: transfer_answered_def payment_posted_def find_payment_post same_request_def)

text \<open>How the service's answer shows an outcome of \<open>transfer_spec\<close>.\<close>

fun outcome_denotes :: "'d decimal_ops \<Rightarrow> go_error + 'd Transfer \<Rightarrow> 'k transfer_outcome \<Rightarrow> bool" where
  "outcome_denotes D r (Refused e) = (r = Inl e)"
| "outcome_denotes D r (Replayed p) = (\<exists>t. r = Inr t \<and> transfer_denotes D t p)"
| "outcome_denotes D r (Posted p) = (\<exists>t. r = Inr t \<and> transfer_denotes D t p)"

lemma post_steps:
  assumes "src \<noteq> dst"
  shows "add_posting \<lparr>post_payment = i, post_account = dst,
      post_direction = DirectionCredit, post_amount = n, post_balance = b + n\<rparr>
    (add_posting \<lparr>post_payment = i, post_account = src,
      post_direction = DirectionDebit, post_amount = n, post_balance = a - n\<rparr>
    (add_payment \<lparr>pay_id = i, pay_key = k, pay_source = src, pay_destination = dst, pay_amount = n\<rparr>
    (put_balance dst (b + n) (put_balance src (a - n) L)))) =
    post \<lparr>pay_id = i, pay_key = k, pay_source = src, pay_destination = dst, pay_amount = n\<rparr> a b L"
  using assms by (simp add: add_posting_def add_payment_def put_balance_def post_def)

lemma put_add_sel [simp]:
  "balance_of (put_balance i n L) = (balance_of L)(i \<mapsto> n)"
  "payments (put_balance i n L) = payments L" "find_payment k (put_balance i n L) = find_payment k L"
  "balance_of (add_payment p L) = balance_of L" "payments (add_payment p L) = payments L @ [p]"
  "balance_of (add_posting e L) = balance_of L" "payments (add_posting e L) = payments L"
  by (simp_all add: put_balance_def add_payment_def add_posting_def find_payment_def)

subsection \<open>The contract\<close>

locale transfer_service =
    account_store D h ledger_of settled in_tx idle calm calm_idle AS +
    transfer_store D h ledger_of settled in_tx idle calm calm_idle TS key_of +
    tx_manager D h ledger_of settled in_tx idle calm calm_idle TM begun
  for D :: "'d decimal_ops" and h :: "('d, 'w) handler" and ledger_of settled :: "'w \<Rightarrow> 'k ledger"
    and in_tx idle calm calm_idle AS TS key_of and TM :: "('d, 'd Transfer) TxManager" and begun +
  fixes U :: "'u uuid_ops"
begin

abbreviation svc where
  "svc \<equiv> NewTransferService Pool TM AS TS"

lemma svc_sel [simp]:
  "tsv_db svc = Pool" "tsv_tx svc = TM" "tsv_accounts svc = AS" "tsv_transfers svc = TS"
  by (simp_all add: NewTransferService_def)

lemma matchesCmd_iff:
  assumes "transfer_denotes D t p" and "validateAmount D (cmd_Amount cmd) = None"
  shows "matchesCmd D t cmd \<longleftrightarrow>
    same_request p (cmd_SourceID cmd) (cmd_DestinationID cmd) (cmd_units D cmd)"
  using assms(1) validateAmount_units [OF assms(2)]
  by (auto simp: matchesCmd_def transfer_denotes_def same_request_def Equal_value)

text \<open>The four ways \<open>execute\<close> can go once it has read the two accounts.\<close>

definition locked_accounts where
  "locked_accounts cmd L m \<longleftrightarrow>
     (\<forall>i \<in> {cmd_SourceID cmd, cmd_DestinationID cmd}. account_denotes D i (m i) (balance_of L i))"

lemma locked_cases:
  assumes m: "locked_accounts cmd L m" and amt: "validateAmount D (cmd_Amount cmd) = None"
  obtains
    (no_source) "balance_of L (cmd_SourceID cmd) = None" "m (cmd_SourceID cmd) = None"
  | (no_dest) a sa where "balance_of L (cmd_SourceID cmd) = Some a" "m (cmd_SourceID cmd) = Some sa"
      "balance_of L (cmd_DestinationID cmd) = None" "m (cmd_DestinationID cmd) = None"
  | (both) a sa b da where
      "balance_of L (cmd_SourceID cmd) = Some a" "m (cmd_SourceID cmd) = Some sa"
      "balance_of L (cmd_DestinationID cmd) = Some b" "m (cmd_DestinationID cmd) = Some da"
      "acc_ID sa = cmd_SourceID cmd" "acc_ID da = cmd_DestinationID cmd"
      "LessThan D (acc_Balance sa) (cmd_Amount cmd) \<longleftrightarrow> a < cmd_units D cmd"
      "decimal_value D (Sub D (acc_Balance sa) (cmd_Amount cmd)) = numeric_value (a - cmd_units D cmd)"
      "decimal_value D (Add D (acc_Balance da) (cmd_Amount cmd)) = numeric_value (b + cmd_units D cmd)"
proof -
  let ?s = "cmd_SourceID cmd" and ?d = "cmd_DestinationID cmd"
  note n = validateAmount_units [OF amt]
  from m have s: "account_denotes D ?s (m ?s) (balance_of L ?s)"
    and d: "account_denotes D ?d (m ?d) (balance_of L ?d)" by (auto simp: locked_accounts_def)
  show thesis
  proof (cases "m ?s")
    case None
    with s no_source show thesis by simp
  next
    case (Some sa)
    with s obtain a where a: "balance_of L ?s = Some a" "acc_ID sa = ?s"
      "decimal_value D (acc_Balance sa) = numeric_value a" by (auto simp: account_denotes_Some)
    show thesis
    proof (cases "m ?d")
      case None
      with d no_dest a Some show thesis by simp
    next
      case da: (Some da)
      with d obtain b where b: "balance_of L ?d = Some b" "acc_ID da = ?d"
        "decimal_value D (acc_Balance da) = numeric_value b" by (auto simp: account_denotes_Some)
      show thesis
        by (rule both [OF a(1) Some b(1) da a(2) b(2)])
          (use a b n in \<open>simp_all add: LessThan_value Sub_value Add_value numeric_value_diff numeric_value_add\<close>)
    qed
  qed
qed

lemma lock_reads:
  "ensures L (as_LockForUpdate AS Tx [cmd_SourceID cmd, cmd_DestinationID cmd])
     (\<lambda>m L'. L' = L \<and> locked_accounts cmd L m)"
  "yields c L (as_LockForUpdate AS Tx [cmd_SourceID cmd, cmd_DestinationID cmd]) c
     (\<lambda>m L'. L' = L \<and> locked_accounts cmd L m)"
  by (rule ensures_conseq [OF lock_ensures] yields_conseq [OF lock_yields_accounts],
      simp add: locked_accounts_def)+

text \<open>The writes of \<open>execute\<close>: whatever fails, an answer without an error is one posted payment.\<close>

lemma posting_ensures:
  assumes amt: "validateAmount D (cmd_Amount cmd) = None"
    and ne: "cmd_SourceID cmd \<noteq> cmd_DestinationID cmd"
    and a: "balance_of L (cmd_SourceID cmd) = Some a" "acc_ID sa = cmd_SourceID cmd"
      "decimal_value D (Sub D (acc_Balance sa) (cmd_Amount cmd)) = numeric_value (a - cmd_units D cmd)"
    and b: "balance_of L (cmd_DestinationID cmd) = Some b" "acc_ID da = cmd_DestinationID cmd"
      "decimal_value D (Add D (acc_Balance da) (cmd_Amount cmd)) = numeric_value (b + cmd_units D cmd)"
    and le: "cmd_units D cmd \<le> a"
  shows "ensures L (execute_posting D svc Tx cmd sa da) (\<lambda>t L'.
    \<exists>key. key_option key_of (optionalKey (cmd_IdempotencyKey cmd)) = Some key \<and>
      transfer_answered D key cmd L t L')"
  unfolding execute_posting_def svc_sel Let_def
  apply (rule ensures_andThen [OF update_ensures [OF a(3)]])
  using a apply simp
  apply hypsubst
  apply (rule ensures_andThen [OF update_ensures [OF b(3)]])
  using b ne apply simp
  apply hypsubst
  apply (rule ensures_andThen [OF insert_ensures [where n = "cmd_units D cmd"]])
  using validateAmount_units [OF amt] apply simp
   apply simp
  apply (elim exE conjE)
  apply hypsubst
  apply (rule ensures_andThen [OF entry_ensures [where n = "cmd_units D cmd"]])
  using validateAmount_units [OF amt] apply simp
  using a apply simp
  apply hypsubst
  apply (rule ensures_andThen [OF entry_ensures [where n = "cmd_units D cmd"]])
  using validateAmount_units [OF amt] apply simp
  using b apply simp
  apply hypsubst
  apply (rule ensures_Inr)
  apply (simp add: a(2) b(2) post_steps [OF ne])
  apply (rule transfer_answered_post)
  using ne le a b validateAmount_units [OF amt] apply (simp_all add: transfer_denotes_def)
  done

lemma execute_ensures:
  assumes amt: "validateAmount D (cmd_Amount cmd) = None"
    and ne: "cmd_SourceID cmd \<noteq> cmd_DestinationID cmd"
  shows "ensures L (TransferService_execute D svc Tx cmd) (\<lambda>t L'.
    \<exists>key. key_option key_of (optionalKey (cmd_IdempotencyKey cmd)) = Some key \<and>
      transfer_answered D key cmd L t L')"
  unfolding TransferService_execute_def svc_sel
proof (rule ensures_andThen [OF lock_reads(1)], elim conjE, hypsubst)
  fix m
  assume "locked_accounts cmd L m"
  then show "ensures L (case m (cmd_SourceID cmd) of
       None \<Rightarrow> Return (Inl (AccountNotFound (cmd_SourceID cmd)))
     | Some source \<Rightarrow> (case m (cmd_DestinationID cmd) of
         None \<Rightarrow> Return (Inl (AccountNotFound (cmd_DestinationID cmd)))
       | Some dest \<Rightarrow> if LessThan D (acc_Balance source) (cmd_Amount cmd)
           then Return (Inl ErrInsufficientFunds) else execute_posting D svc Tx cmd source dest))
     (\<lambda>t L'. \<exists>key. key_option key_of (optionalKey (cmd_IdempotencyKey cmd)) = Some key \<and>
        transfer_answered D key cmd L t L')"
    by (cases rule: locked_cases [OF _ amt]) (auto intro!: posting_ensures simp: amt ne)
qed

text \<open>The same, where nothing goes wrong outside the program.\<close>

lemma posting_yields:
  assumes amt: "validateAmount D (cmd_Amount cmd) = None"
    and ne: "cmd_SourceID cmd \<noteq> cmd_DestinationID cmd"
    and a: "balance_of L (cmd_SourceID cmd) = Some a" "acc_ID sa = cmd_SourceID cmd"
      "decimal_value D (Sub D (acc_Balance sa) (cmd_Amount cmd)) = numeric_value (a - cmd_units D cmd)"
    and b: "balance_of L (cmd_DestinationID cmd) = Some b" "acc_ID da = cmd_DestinationID cmd"
      "decimal_value D (Add D (acc_Balance da) (cmd_Amount cmd)) = numeric_value (b + cmd_units D cmd)"
    and le: "cmd_units D cmd \<le> a" "a < numeric_limit" "0 \<le> b" "b + cmd_units D cmd < numeric_limit"
    and k: "key_option key_of (optionalKey (cmd_IdempotencyKey cmd)) = Some k"
      "\<forall>k'. k = Some k' \<longrightarrow> find_payment k' L = None"
  shows "yields 5 L (execute_posting D svc Tx cmd sa da) 0 (\<lambda>_ _. True)"
  unfolding execute_posting_def svc_sel Let_def numeral_eq_Suc pred_numeral_simps BitM.simps numeral_One
  apply (rule yields_andThen [OF update_yields_balance [OF a(3)]])
  using a le validateAmount_units [OF amt] apply simp_all
  apply (rule yields_andThen [OF update_yields_balance [OF b(3)]])
  using b ne le validateAmount_units [OF amt] apply simp_all
  apply (rule yields_andThen [OF insert_yields_payment [where n = "cmd_units D cmd" and k = k]])
  using a b ne k validateAmount_units [OF amt] apply simp_all
  apply (elim exE conjE, hypsubst)
  apply (rule yields_andThen [OF entry_yields_posting [where n = "cmd_units D cmd" and b = "a - cmd_units D cmd"]])
  using a b ne le validateAmount_units [OF amt] apply simp_all
  apply (rule yields_andThen [OF entry_yields_posting [where n = "cmd_units D cmd" and b = "b + cmd_units D cmd"]])
  using a b ne le validateAmount_units [OF amt] apply simp_all
  apply (simp add: yields_Inr)
  done

lemma posting_overflows:
  assumes amt: "validateAmount D (cmd_Amount cmd) = None"
    and ne: "cmd_SourceID cmd \<noteq> cmd_DestinationID cmd"
    and a: "balance_of L (cmd_SourceID cmd) = Some a" "acc_ID sa = cmd_SourceID cmd"
      "decimal_value D (Sub D (acc_Balance sa) (cmd_Amount cmd)) = numeric_value (a - cmd_units D cmd)"
    and b: "balance_of L (cmd_DestinationID cmd) = Some b" "acc_ID da = cmd_DestinationID cmd"
      "decimal_value D (Add D (acc_Balance da) (cmd_Amount cmd)) = numeric_value (b + cmd_units D cmd)"
    and le: "cmd_units D cmd \<le> a" "a < numeric_limit" "numeric_limit \<le> b + cmd_units D cmd"
  shows "refuses (Suc c) L (execute_posting D svc Tx cmd sa da) plain_internal"
  unfolding execute_posting_def svc_sel Let_def
  apply (rule refuses_andThen_later [OF update_yields_balance [OF a(3)]])
  using a le validateAmount_units [OF amt] apply simp_all
  apply (rule refuses_andThen_first)
  apply (rule update_overflows [OF b(3)])
  using b le by simp_all

text \<open>\<open>execute\<close> refuses exactly where \<open>pay_new\<close> does, and posts otherwise.\<close>

lemma execute_outcomes:
  assumes amt: "validateAmount D (cmd_Amount cmd) = None"
    and ne: "cmd_SourceID cmd \<noteq> cmd_DestinationID cmd"
    and k: "key_option key_of (optionalKey (cmd_IdempotencyKey cmd)) = Some k"
      "\<forall>k'. k = Some k' \<longrightarrow> find_payment k' L = None"
    and bal: "\<And>i a. balance_of L i = Some a \<Longrightarrow> 0 \<le> a \<and> a < numeric_limit"
  shows "case (balance_of L (cmd_SourceID cmd), balance_of L (cmd_DestinationID cmd)) of
      (None, _) \<Rightarrow> refuses 5 L (TransferService_execute D svc Tx cmd)
        (\<lambda>e. e = AccountNotFound (cmd_SourceID cmd))
    | (Some a, None) \<Rightarrow> refuses 5 L (TransferService_execute D svc Tx cmd)
        (\<lambda>e. e = AccountNotFound (cmd_DestinationID cmd))
    | (Some a, Some b) \<Rightarrow>
        if a < cmd_units D cmd then refuses 5 L (TransferService_execute D svc Tx cmd)
          (\<lambda>e. e = ErrInsufficientFunds)
        else if b + cmd_units D cmd < numeric_limit then
          yields 5 L (TransferService_execute D svc Tx cmd) 0 (\<lambda>_ _. True)
        else refuses 5 L (TransferService_execute D svc Tx cmd) plain_internal"
proof -
  let ?s = "cmd_SourceID cmd" and ?d = "cmd_DestinationID cmd"
  have refuse: "refuses 5 L (TransferService_execute D svc Tx cmd) E"
    if "\<And>m. locked_accounts cmd L m \<Longrightarrow> refuses 5 L (case m ?s of
         None \<Rightarrow> Return (Inl (AccountNotFound ?s))
       | Some source \<Rightarrow> (case m ?d of None \<Rightarrow> Return (Inl (AccountNotFound ?d))
         | Some dest \<Rightarrow> if LessThan D (acc_Balance source) (cmd_Amount cmd)
             then Return (Inl ErrInsufficientFunds) else execute_posting D svc Tx cmd source dest)) E" for E
    unfolding TransferService_execute_def svc_sel
    by (rule refuses_andThen_later [OF lock_reads(2)]) (use that in auto)
  have yield: "yields 5 L (TransferService_execute D svc Tx cmd) 0 Q"
    if "\<And>m. locked_accounts cmd L m \<Longrightarrow> yields 5 L (case m ?s of
         None \<Rightarrow> Return (Inl (AccountNotFound ?s))
       | Some source \<Rightarrow> (case m ?d of None \<Rightarrow> Return (Inl (AccountNotFound ?d))
         | Some dest \<Rightarrow> if LessThan D (acc_Balance source) (cmd_Amount cmd)
             then Return (Inl ErrInsufficientFunds) else execute_posting D svc Tx cmd source dest)) 0 Q" for Q
    unfolding TransferService_execute_def svc_sel
    by (rule yields_andThen [OF lock_reads(2)]) (use that in auto)
  show ?thesis
  proof (cases "balance_of L ?s")
    case None
    then show ?thesis
      by (auto intro!: refuse elim!: locked_cases [OF _ amt] simp: refuses_Inl)
  next
    case s: (Some a)
    show ?thesis
    proof (cases "balance_of L ?d")
      case None
      with s show ?thesis
        by (auto intro!: refuse elim!: locked_cases [OF _ amt] simp: refuses_Inl)
    next
      case d: (Some b)
      have short: "refuses 5 L (TransferService_execute D svc Tx cmd) (\<lambda>e. e = ErrInsufficientFunds)"
        if "a < cmd_units D cmd"
        by (rule refuse, erule locked_cases [OF _ amt]) (use s d that in \<open>auto simp: refuses_Inl\<close>)
      have over: "refuses 5 L (TransferService_execute D svc Tx cmd) plain_internal"
        if "\<not> a < cmd_units D cmd" "\<not> b + cmd_units D cmd < numeric_limit"
        by (rule refuse, erule locked_cases [OF _ amt])
          (use s d that bal [OF s] in \<open>auto intro!: posting_overflows [OF amt ne, where c = 4, simplified]\<close>)
      have pay: "yields 5 L (TransferService_execute D svc Tx cmd) 0 (\<lambda>_ _. True)"
        if "\<not> a < cmd_units D cmd" "b + cmd_units D cmd < numeric_limit"
        by (rule yield, erule locked_cases [OF _ amt])
          (use s d that bal [OF s] bal [OF d] k in \<open>auto intro!: posting_yields [OF amt ne]\<close>)
      show ?thesis using s d short over pay by simp
    qed
  qed
qed

lemma transfer_answered_replay:
  assumes "transfer_denotes D t p" and "find_payment k L = Some p" and "matchesCmd D t cmd"
    and "validateAmount D (cmd_Amount cmd) = None"
  shows "transfer_answered D (Some k) cmd L t L"
  using assms by (auto simp: transfer_answered_def matchesCmd_iff)

lemma body_ensures:
  assumes amt: "validateAmount D (cmd_Amount cmd) = None"
    and ne: "cmd_SourceID cmd \<noteq> cmd_DestinationID cmd"
  shows "ensures L (TransferService_body D svc cmd Tx) (\<lambda>t L'.
    \<exists>key. key_option key_of (optionalKey (cmd_IdempotencyKey cmd)) = Some key \<and>
      transfer_answered D key cmd L t L')"
proof (cases "cmd_IdempotencyKey cmd = []")
  case True
  then show ?thesis using execute_ensures [OF amt ne] by (simp add: TransferService_body_def)
next
  case False
  show ?thesis
    unfolding TransferService_body_def svc_sel if_P [OF False]
  proof (rule ensures_andThen [OF find_ensures], elim conjE exE, hypsubst)
    fix found k
    assume k: "key_of (cmd_IdempotencyKey cmd) = Some k"
      and f: "rel_option (transfer_denotes D) found (find_payment k L)"
    have key: "key_option key_of (optionalKey (cmd_IdempotencyKey cmd)) = Some (Some k)"
      using False k by (simp add: key_option_def optionalKey_def)
    show "ensures L (case found of None \<Rightarrow> TransferService_execute D svc Tx cmd
        | Some existing \<Rightarrow> if \<not> matchesCmd D existing cmd then Return (Inl ErrIdempotencyConflict)
            else Return (Inr existing))
      (\<lambda>t L'. \<exists>key. key_option key_of (optionalKey (cmd_IdempotencyKey cmd)) = Some key \<and>
        transfer_answered D key cmd L t L')"
    proof (cases found)
      case None
      then show ?thesis using execute_ensures [OF amt ne] by simp
    next
      case (Some t)
      with f obtain p where "find_payment k L = Some p" "transfer_denotes D t p"
        by (auto elim: option.rel_cases)
      then show ?thesis using Some key amt by (auto intro!: ensures_Inr transfer_answered_replay)
    qed
  qed
qed

text \<open>Looking for the winner of a lost race reads the settled ledger and changes nothing. What it
  answers is what the request would have been answered from the ledger before the transaction.\<close>

lemma resolveDuplicate_sound:
  assumes w: "idle w" and r: "run h (TransferService_resolveDuplicate D svc cmd) w = (r, w')"
    and amt: "validateAmount D (cmd_Amount cmd) = None"
    and L: "settled w = L0 \<or> (\<exists>key t. key_option key_of (optionalKey (cmd_IdempotencyKey cmd)) = Some key \<and>
      transfer_answered D key cmd L0 t (settled w))"
  shows "idle w' \<and> settled w' = settled w \<and> (\<forall>t. r = Inr t \<longrightarrow>
    (\<exists>key. key_option key_of (optionalKey (cmd_IdempotencyKey cmd)) = Some key \<and>
      transfer_answered D key cmd L0 t (settled w)))"
proof -
  obtain rf w1 where f: "run h (ts_FindByIdempotencyKey TS Pool (cmd_IdempotencyKey cmd)) w = (rf, w1)"
    by fastforce
  have w1: "idle w1" "settled w1 = settled w" and found: "\<And>found. rf = Inr found \<Longrightarrow>
      \<exists>k. key_of (cmd_IdempotencyKey cmd) = Some k \<and>
        rel_option (transfer_denotes D) found (find_payment k (settled w))"
    using find_pool [OF w f] by auto
  have w': "w' = w1" and rt: "\<And>t. r = Inr t \<Longrightarrow> rf = Inr (Some t) \<and> matchesCmd D t cmd"
    using r f by (auto simp: TransferService_resolveDuplicate_def run_andThen
        split: sum.splits option.splits if_splits)
  have "\<exists>key. key_option key_of (optionalKey (cmd_IdempotencyKey cmd)) = Some key \<and>
      transfer_answered D key cmd L0 t (settled w)" if "r = Inr t" for t
  proof -
    note rt = rt [OF that]
    from rt found obtain k p where k: "key_of (cmd_IdempotencyKey cmd) = Some k"
      and p: "find_payment k (settled w) = Some p" "transfer_denotes D t p"
      by (fastforce elim: option.rel_cases)
    have key: "key_option key_of (optionalKey (cmd_IdempotencyKey cmd)) = Some (Some k)"
      using k no_empty_key by (auto simp: key_option_def optionalKey_def)
    have "transfer_answered D (Some k) cmd (settled w) t (settled w)"
      using transfer_answered_replay [OF p(2,1) _ amt] rt by simp
    moreover have "transfer_answered D (Some k) cmd L0 t (settled w)"
      if "transfer_answered D (Some k) cmd L0 t0 (settled w)" "settled w \<noteq> L0" for t0
      using that p by (auto simp: transfer_answered_def payment_posted_def find_payment_post)
    ultimately show ?thesis using L key by auto
  qed
  with w1 w' show ?thesis by simp
qed

text \<open>Whatever fails, a transfer leaves the settled ledger as it was or posts one payment of the
  request; and a transfer that is answered is that payment, or the one that has its key.\<close>

lemma Transfer_atomic:
  assumes w: "idle w" and r: "run h (TransferService_Transfer D U svc cmd) w = (r, w')"
  shows "idle w' \<and>
    (settled w' = settled w \<or>
      (\<exists>key p. key_option key_of (optionalKey (cmd_IdempotencyKey cmd)) = Some key \<and>
        payment_posted key (cmd_SourceID cmd) (cmd_DestinationID cmd) (cmd_units D cmd) p
          (settled w) (settled w'))) \<and>
    (\<forall>t. r = Inr t \<longrightarrow> TransferService_validate D U cmd = None \<and>
      (\<exists>key. key_option key_of (optionalKey (cmd_IdempotencyKey cmd)) = Some key \<and>
        transfer_answered D key cmd (settled w) t (settled w')))"
proof (cases "TransferService_validate D U cmd")
  case (Some err)
  with w r show ?thesis by (auto simp: TransferService_Transfer_def)
next
  case None
  then have amt: "validateAmount D (cmd_Amount cmd) = None"
    and ne: "cmd_SourceID cmd \<noteq> cmd_DestinationID cmd" by (simp_all add: validate_None_iff)
  obtain r1 w1 where 1: "run h (tm_WithTx TM (TransferService_body D svc cmd)) w = (r1, w1)" by fastforce
  let ?answered = "\<lambda>t L'. \<exists>key. key_option key_of (optionalKey (cmd_IdempotencyKey cmd)) = Some key \<and>
      transfer_answered D key cmd (settled w) t L'"
  have a: "idle w1" "\<And>t. r1 = Inr t \<Longrightarrow> ?answered t (settled w1)"
    and b: "settled w1 = settled w \<or> (\<exists>t. ?answered t (settled w1))"
    using atomic [OF w 1 body_ensures [OF amt ne]] by blast+
  have posted: "settled w1 = settled w \<or>
      (\<exists>key p. key_option key_of (optionalKey (cmd_IdempotencyKey cmd)) = Some key \<and>
        payment_posted key (cmd_SourceID cmd) (cmd_DestinationID cmd) (cmd_units D cmd) p
          (settled w) (settled w1))"
    using b transfer_answered_ledger by blast
  show ?thesis
  proof (cases "\<exists>err. r1 = Inl err \<and> errors_Is err ErrDuplicateIdempotencyKey")
    case True
    with None r 1 have r': "run h (TransferService_resolveDuplicate D svc cmd) w1 = (r, w')"
      by (auto simp: TransferService_Transfer_def run_bind_prog)
    have "idle w'" "settled w' = settled w1" "\<And>t. r = Inr t \<Longrightarrow> ?answered t (settled w1)"
      using resolveDuplicate_sound [OF a(1) r' amt] b by blast+
    with posted None show ?thesis by simp
  next
    case False
    with None r 1 have "r = r1" "w' = w1"
      by (auto simp: TransferService_Transfer_def run_bind_prog split: sum.splits if_splits)
    with a posted None show ?thesis by simp
  qed
qed

text \<open>In a calm world the transaction's function looks the key up and goes on to \<open>execute\<close> when it is
  new.\<close>

lemma body_new_key:
  assumes k: "key_option key_of (optionalKey (cmd_IdempotencyKey cmd)) = Some k"
    and new: "\<forall>k'. k = Some k' \<longrightarrow> find_payment k' L = None"
  shows "refuses c L (TransferService_execute D svc Tx cmd) E \<Longrightarrow>
      refuses c L (TransferService_body D svc cmd Tx) E"
    and "yields c L (TransferService_execute D svc Tx cmd) c' Q \<Longrightarrow>
      yields c L (TransferService_body D svc cmd Tx) c' Q"
proof -
  have found: "yields c L (ts_FindByIdempotencyKey TS Tx (cmd_IdempotencyKey cmd)) c
      (\<lambda>found L'. L' = L \<and> found = None)" if "cmd_IdempotencyKey cmd \<noteq> []"
    using that k new by (auto simp: key_option_def optionalKey_def elim!: option.rel_cases
        intro!: yields_conseq [OF find_yields_payment])
  show "refuses c L (TransferService_execute D svc Tx cmd) E \<Longrightarrow>
      refuses c L (TransferService_body D svc cmd Tx) E"
    by (auto simp: TransferService_body_def intro!: refuses_andThen_later [OF found])
  show "yields c L (TransferService_execute D svc Tx cmd) c' Q \<Longrightarrow>
      yields c L (TransferService_body D svc cmd Tx) c' Q"
    by (auto simp: TransferService_body_def intro!: yields_andThen [OF found])
qed

lemma body_known_key:
  assumes k: "key_option key_of (optionalKey (cmd_IdempotencyKey cmd)) = Some (Some k)"
    and p: "find_payment k L = Some p" and amt: "validateAmount D (cmd_Amount cmd) = None"
  shows "same_request p (cmd_SourceID cmd) (cmd_DestinationID cmd) (cmd_units D cmd) \<Longrightarrow>
      yields c L (TransferService_body D svc cmd Tx) c (\<lambda>t L'. L' = L \<and> transfer_denotes D t p)"
    and "\<not> same_request p (cmd_SourceID cmd) (cmd_DestinationID cmd) (cmd_units D cmd) \<Longrightarrow>
      refuses c L (TransferService_body D svc cmd Tx) (\<lambda>e. e = ErrIdempotencyConflict)"
proof -
  have key: "cmd_IdempotencyKey cmd \<noteq> []" "key_of (cmd_IdempotencyKey cmd) = Some k"
    using k by (auto simp: key_option_def optionalKey_def split: if_splits)
  have found: "yields c L (ts_FindByIdempotencyKey TS Tx (cmd_IdempotencyKey cmd)) c
      (\<lambda>found L'. L' = L \<and> (\<exists>t. found = Some t \<and> transfer_denotes D t p))"
    using p by (auto elim!: option.rel_cases intro!: yields_conseq [OF find_yields_payment [OF key(2)]])
  show "yields c L (TransferService_body D svc cmd Tx) c (\<lambda>t L'. L' = L \<and> transfer_denotes D t p)"
    if "same_request p (cmd_SourceID cmd) (cmd_DestinationID cmd) (cmd_units D cmd)"
    using key that amt
    by (auto simp: TransferService_body_def matchesCmd_iff intro!: yields_andThen [OF found] yields_Inr)
  show "refuses c L (TransferService_body D svc cmd Tx) (\<lambda>e. e = ErrIdempotencyConflict)"
    if "\<not> same_request p (cmd_SourceID cmd) (cmd_DestinationID cmd) (cmd_units D cmd)"
    using key that amt
    by (auto simp: TransferService_body_def matchesCmd_iff intro!: refuses_andThen_later [OF found] refuses_Inl)
qed

text \<open>From the function's triple to the request.\<close>

lemma Transfer_refuses:
  assumes "TransferService_validate D U cmd = None" and "calm_idle c w"
    and "refuses c (settled w) (TransferService_body D svc cmd Tx) E"
    and "\<And>e. E e \<Longrightarrow> \<not> isRetryable e \<and> \<not> errors_Is e ErrDuplicateIdempotencyKey"
  shows "\<exists>e w'. run h (TransferService_Transfer D U svc cmd) w = (Inl e, w') \<and> E e \<and>
    settled w' = settled w"
proof -
  have "validateAmount D (cmd_Amount cmd) = None" "cmd_SourceID cmd \<noteq> cmd_DestinationID cmd"
    using assms(1) by (simp_all add: validate_None_iff)
  note body_ensures [OF this, of "settled w"]
  then obtain e w' where "run h (tm_WithTx TM (TransferService_body D svc cmd)) w = (Inl e, w')" "E e"
    "settled w' = settled w"
    using tx_rolls_back [of c w "TransferService_body D svc cmd" E] assms(2-4) by blast
  with assms(1,4) show ?thesis by (auto simp: TransferService_Transfer_def run_bind_prog)
qed

lemma Transfer_yields:
  assumes "TransferService_validate D U cmd = None" and "calm_idle c w"
    and "yields c (settled w) (TransferService_body D svc cmd Tx) c' Q"
  shows "\<exists>t w'. run h (TransferService_Transfer D U svc cmd) w = (Inr t, w') \<and> Q t (settled w')"
proof -
  obtain t w' where "run h (tm_WithTx TM (TransferService_body D svc cmd)) w = (Inr t, w')"
    "Q t (settled w')"
    using tx_commits [of c w "TransferService_body D svc cmd" c' Q] assms(2,3) by blast
  with assms(1) show ?thesis by (auto simp: TransferService_Transfer_def run_bind_prog)
qed

text \<open>Refinement: where nothing outside the program fails and the destination can hold the sum, the
  answer and the settled ledger are those of \<open>transfer_spec\<close>, with a payment id of the store's choice.\<close>

lemma domain_errors_plain:
  "\<not> isRetryable (AccountNotFound i) \<and> \<not> errors_Is (AccountNotFound i) ErrDuplicateIdempotencyKey"
  "\<not> isRetryable ErrInsufficientFunds \<and> \<not> errors_Is ErrInsufficientFunds ErrDuplicateIdempotencyKey"
  "\<not> isRetryable ErrIdempotencyConflict \<and> \<not> errors_Is ErrIdempotencyConflict ErrDuplicateIdempotencyKey"
  by (simp_all add: isRetryable_def AccountNotFound_def)

lemma Transfer_refines:
  assumes v: "TransferService_validate D U cmd = None" and w: "calm_idle 5 w"
    and k: "key_option key_of (optionalKey (cmd_IdempotencyKey cmd)) = Some k"
    and room: "\<And>b. balance_of (settled w) (cmd_DestinationID cmd) = Some b \<Longrightarrow>
      b + cmd_units D cmd < numeric_limit"
  shows "\<exists>i r w'. run h (TransferService_Transfer D U svc cmd) w = (r, w') \<and>
    (case transfer_spec i k (cmd_SourceID cmd) (cmd_DestinationID cmd) (cmd_units D cmd) (settled w) of
       (out, L') \<Rightarrow> outcome_denotes D r out \<and> settled w' = L')"
proof -
  let ?s = "cmd_SourceID cmd" and ?d = "cmd_DestinationID cmd" and ?n = "cmd_units D cmd"
  let ?L = "settled w" and ?T = "TransferService_Transfer D U svc cmd"
  have amt: "validateAmount D (cmd_Amount cmd) = None" and ne: "?s \<noteq> ?d"
    using v by (simp_all add: validate_None_iff)
  have refused: ?thesis
    if "refuses 5 ?L (TransferService_body D svc cmd Tx) (\<lambda>e. e = err)"
      and "\<not> isRetryable err \<and> \<not> errors_Is err ErrDuplicateIdempotencyKey"
      and "\<And>i. transfer_spec i k ?s ?d ?n ?L = (Refused err, ?L)" for err
    using Transfer_refuses [OF v w that(1)] that(2,3) by auto
  show ?thesis
  proof (cases "Option.bind k (\<lambda>k. find_payment k ?L)")
    case (Some p)
    then obtain kk where kk: "k = Some kk" "find_payment kk ?L = Some p"
      by (auto simp: bind_eq_Some_conv)
    note body = body_known_key [OF k [unfolded kk(1)] kk(2) amt, where c = 5]
    show ?thesis
    proof (cases "same_request p ?s ?d ?n")
      case True
      then show ?thesis using Transfer_yields [OF v w body(1)] Some by (auto simp: transfer_spec_def)
    next
      case False
      then show ?thesis
        using refused [OF body(2)] domain_errors_plain Some by (auto simp: transfer_spec_def)
    qed
  next
    case None
    then have new: "\<forall>k'. k = Some k' \<longrightarrow> find_payment k' ?L = None" by auto
    have spec: "transfer_spec i k ?s ?d ?n ?L = pay_new i k ?s ?d ?n ?L" for i
      using None by (simp add: transfer_spec_def)
    note body = body_new_key [OF k new]
    note out = execute_outcomes [OF amt ne k new settled_balances [OF calm_idle_idle [OF w]]]
    show ?thesis
    proof (cases "balance_of ?L ?s")
      case None
      then show ?thesis
        using refused [OF body(1)] out domain_errors_plain by (auto simp: spec pay_new_def)
    next
      case s: (Some a)
      show ?thesis
      proof (cases "balance_of ?L ?d")
        case None
        then show ?thesis
          using refused [OF body(1)] out domain_errors_plain s by (auto simp: spec pay_new_def)
      next
        case d: (Some b)
        show ?thesis
        proof (cases "a < ?n")
          case True
          then show ?thesis
            using refused [OF body(1)] out domain_errors_plain s d by (auto simp: spec pay_new_def)
        next
          case False
          with out s d room have "yields 5 ?L (TransferService_execute D svc Tx cmd) 0 (\<lambda>_ _. True)"
            by auto
          from Transfer_yields [OF v w yields_ensured [OF body(2) [OF this] body_ensures [OF amt ne]]]
          obtain t w' where t: "run h ?T w = (Inr t, w')" "transfer_answered D k cmd ?L t (settled w')"
            using k by auto
          from t(2) new obtain p where "transfer_denotes D t p" "payment_posted k ?s ?d ?n p ?L (settled w')"
            by (auto simp: transfer_answered_def)
          then have "transfer_spec (pay_id p) k ?s ?d ?n ?L = (Posted p, settled w')"
            using s d False by (cases p) (auto simp: spec pay_new_def payment_posted_def Let_def)
          with t \<open>transfer_denotes D t p\<close> show ?thesis
            by (intro exI [where x = "pay_id p"]) auto
        qed
      qed
    qed
  qed
qed

text \<open>Two requests that the service does not turn into a domain error: a credit that the
  destination's balance cannot hold, and a key that only the service's parser accepts.\<close>

lemma Transfer_overflows:
  assumes v: "TransferService_validate D U cmd = None" and w: "calm_idle 5 w"
    and k: "key_option key_of (optionalKey (cmd_IdempotencyKey cmd)) = Some k"
      "\<forall>k'. k = Some k' \<longrightarrow> find_payment k' (settled w) = None"
    and a: "balance_of (settled w) (cmd_SourceID cmd) = Some a" "cmd_units D cmd \<le> a"
    and b: "balance_of (settled w) (cmd_DestinationID cmd) = Some b"
      "numeric_limit \<le> b + cmd_units D cmd"
  shows "\<exists>e w'. run h (TransferService_Transfer D U svc cmd) w = (Inl e, w') \<and> plain_internal e \<and>
    settled w' = settled w"
proof -
  have amt: "validateAmount D (cmd_Amount cmd) = None" and ne: "cmd_SourceID cmd \<noteq> cmd_DestinationID cmd"
    using v by (simp_all add: validate_None_iff)
  have "refuses 5 (settled w) (TransferService_execute D svc Tx cmd) plain_internal"
    using execute_outcomes [OF amt ne k settled_balances [OF calm_idle_idle [OF w]]] a b by auto
  from Transfer_refuses [OF v w body_new_key(1) [OF k this]] show ?thesis
    by (auto simp: plain_internal_def)
qed

lemma Transfer_bad_key:
  assumes v: "TransferService_validate D U cmd = None" and w: "calm_idle c w"
    and k: "cmd_IdempotencyKey cmd \<noteq> []" "key_of (cmd_IdempotencyKey cmd) = None"
  shows "\<exists>e w'. run h (TransferService_Transfer D U svc cmd) w = (Inl e, w') \<and> plain_internal e \<and>
    settled w' = settled w"
proof -
  have "refuses c (settled w) (TransferService_body D svc cmd Tx) plain_internal"
    using k by (auto simp: TransferService_body_def intro!: refuses_andThen_first find_bad_key)
  from Transfer_refuses [OF v w this] show ?thesis by (auto simp: plain_internal_def)
qed

text \<open>A key that a payment carries already, at any number of later requests: the same request is
  answered with that payment, another one is refused, and no money moves.\<close>

lemma Transfer_known_key:
  assumes v: "TransferService_validate D U cmd = None" and w: "calm_idle c w"
    and k: "key_option key_of (optionalKey (cmd_IdempotencyKey cmd)) = Some (Some k)"
    and p: "find_payment k (settled w) = Some p"
  shows "\<exists>r w'. run h (TransferService_Transfer D U svc cmd) w = (r, w') \<and> settled w' = settled w \<and>
    (if same_request p (cmd_SourceID cmd) (cmd_DestinationID cmd) (cmd_units D cmd)
     then \<exists>t. r = Inr t \<and> transfer_denotes D t p else r = Inl ErrIdempotencyConflict)"
proof -
  have amt: "validateAmount D (cmd_Amount cmd) = None" using v by (simp add: validate_None_iff)
  note body = body_known_key [OF k p amt, where c = c]
  show ?thesis
  proof (cases "same_request p (cmd_SourceID cmd) (cmd_DestinationID cmd) (cmd_units D cmd)")
    case True
    then show ?thesis using Transfer_yields [OF v w body(1)] by auto
  next
    case False
    then show ?thesis using Transfer_refuses [OF v w body(2)] domain_errors_plain by fastforce
  qed
qed

end

end
