(* ===== verification/Account_Service.thy ===== *)
theory Account_Service
  imports Deps
begin

text \<open>
  \<open>internal/service/account_service.go\<close>: account creation and lookup over the interfaces of
  \<open>Deps\<close>. The contract (locale \<open>account_service\<close>) is proved once for every provider: a creation
  opens the whole account or changes nothing, where nothing fails it answers what \<open>open_spec\<close> says,
  and a lookup reads the settled ledger.
\<close>

record 'd AccountService =
  asv_db :: querier
  asv_tx :: "('d, unit) TxManager"
  asv_accounts :: "'d AccountStore"

definition NewAccountService ::
    "querier \<Rightarrow> ('d, unit) TxManager \<Rightarrow> 'd AccountStore \<Rightarrow> 'd AccountService" where
  "NewAccountService db tx accs = \<lparr>asv_db = db, asv_tx = tx, asv_accounts = accs\<rparr>"

definition AccountService_Create ::
    "'d decimal_ops \<Rightarrow> 'd AccountService \<Rightarrow> int64 \<Rightarrow> 'd \<Rightarrow> ('d, go_error + unit) prog" where
  "AccountService_Create D s i initialBalance =
     (case validateAccountID i of Some err \<Rightarrow> Return (Inl err)
      | None \<Rightarrow>
     (case validateInitialBalance D initialBalance of Some err \<Rightarrow> Return (Inl err)
      | None \<Rightarrow> tm_WithTx (asv_tx s) (\<lambda>q. as_Create (asv_accounts s) q i initialBalance)))"

definition AccountService_Get ::
    "'d AccountService \<Rightarrow> int64 \<Rightarrow> ('d, go_error + 'd Account) prog" where
  "AccountService_Get s i =
     (case validateAccountID i of Some err \<Rightarrow> Return (Inl err)
      | None \<Rightarrow> as_Get (asv_accounts s) (asv_db s) i)"

subsection \<open>The contract\<close>

locale account_service =
    account_store D h ledger_of settled in_tx idle calm calm_idle AS +
    tx_manager D h ledger_of settled in_tx idle calm calm_idle TM begun
  for D :: "'d decimal_ops" and h :: "('d, 'w) handler" and ledger_of settled :: "'w \<Rightarrow> 'k ledger"
    and in_tx idle calm calm_idle AS and TM :: "('d, unit) TxManager" and begun
begin

abbreviation accounts_svc where
  "accounts_svc \<equiv> NewAccountService Pool TM AS"

lemma accounts_svc_sel [simp]:
  "asv_db accounts_svc = Pool" "asv_tx accounts_svc = TM" "asv_accounts accounts_svc = AS"
  by (simp_all add: NewAccountService_def)

lemma Create_atomic:
  assumes w: "idle w" and r: "run h (AccountService_Create D accounts_svc i b) w = (r, w')"
  shows "idle w' \<and>
    (settled w' = settled w \<or> 0 < sint i \<and> 0 \<le> units D b \<and> units D b < numeric_limit \<and>
      balance_of (settled w) i = None \<and> settled w' = open_account i (units D b) (settled w)) \<and>
    (r = Inr () \<longrightarrow> 0 < sint i \<and> validateInitialBalance D b = None \<and>
      balance_of (settled w) i = None \<and> settled w' = open_account i (units D b) (settled w))"
proof (cases "validateAccountID i = None \<and> validateInitialBalance D b = None")
  case True
  note n = validateInitialBalance_units [of b] True
  have "run h (tm_WithTx TM (\<lambda>q. as_Create AS q i b)) w = (r, w')"
    using r True by (simp add: AccountService_Create_def)
  from atomic [OF w this create_ensures [where n = "units D b"]] n show ?thesis
    by (auto simp: validateAccountID_def split: if_splits)
next
  case False
  with w r show ?thesis by (auto simp: AccountService_Create_def split: option.splits)
qed

lemma Create_refines:
  assumes i: "0 < sint i" and b: "validateInitialBalance D b = None" and w: "calm_idle (Suc c) w"
  shows "\<exists>r w'. run h (AccountService_Create D accounts_svc i b) w = (r, w') \<and>
    (r, settled w') = open_spec i (units D b) (settled w)"
proof -
  note n = validateInitialBalance_units [OF b]
  have C: "AccountService_Create D accounts_svc i b = tm_WithTx TM (\<lambda>q. as_Create AS q i b)"
    using i b by (simp add: AccountService_Create_def validateAccountID_def)
  show ?thesis
  proof (cases "balance_of (settled w) i = None")
    case True
    have "yields (Suc c) (settled w) (as_Create AS Tx i b) c (\<lambda>_ L'. L' = open_account i (units D b) (settled w))"
      using n True by (auto intro!: create_yields_account)
    from tx_commits [of _ _ "\<lambda>q. as_Create AS q i b", OF w this] True show ?thesis
      by (auto simp: C open_spec_def)
  next
    case False
    then have "refuses (Suc c) (settled w) (as_Create AS Tx i b) (\<lambda>e. e = ErrAccountAlreadyExists)"
      using n by (auto intro!: create_exists)
    moreover have "ensures (settled w) (as_Create AS Tx i b)
        (\<lambda>_ L'. balance_of (settled w) i = None \<and> L' = open_account i (units D b) (settled w))"
      using n by (auto intro!: create_ensures)
    ultimately show ?thesis
      using tx_rolls_back [of _ _ "\<lambda>q. as_Create AS q i b", OF w] False
      by (fastforce simp: C open_spec_def isRetryable_def)
  qed
qed

lemma Get_sound:
  assumes w: "idle w" and r: "run h (AccountService_Get accounts_svc i) w = (r, w')"
  shows "idle w' \<and> settled w' = settled w \<and> (\<forall>a. r = Inr a \<longrightarrow> 0 < sint i \<and>
    account_denotes D i (Some a) (balance_of (settled w) i))"
proof (cases "validateAccountID i")
  case None
  with get_pool [OF w, of i r w'] r show ?thesis
    by (auto simp: AccountService_Get_def validateAccountID_def split: if_splits)
next
  case (Some err)
  with w r show ?thesis by (auto simp: AccountService_Get_def)
qed

lemma Get_refines:
  assumes "0 < sint i" and "calm_idle c w"
  shows "\<exists>r. run h (AccountService_Get accounts_svc i) w = (r, w) \<and>
    (case balance_of (settled w) i of None \<Rightarrow> r = Inl (AccountNotFound i)
     | Some n \<Rightarrow> \<exists>a. r = Inr a \<and> acc_ID a = i \<and> decimal_value D (acc_Balance a) = numeric_value n)"
proof -
  have G: "AccountService_Get accounts_svc i = as_Get AS Pool i"
    using assms(1) by (simp add: AccountService_Get_def validateAccountID_def)
  show ?thesis
    using get_calm [OF assms(2), of i] get_pool [OF calm_idle_idle [OF assms(2)], of i]
    by (fastforce simp: G split: option.splits)
qed

end

end
