(* ===== verification/Providers.thy ===== *)
theory Providers
  imports Stores Transfer_Service Account_Service
begin

text \<open>
  The repositories and the transaction manager as providers: every locale of \<open>Deps\<close> and of the
  services is discharged on the database \<open>pg D U\<close>, for every decimal library \<open>D\<close> with its laws and
  every UUID parser that refuses the empty string (locale \<open>postgres\<close>), and instantiated on the
  reference libraries (\<open>refpg\<close>).
\<close>

locale postgres = decimal_laws D for D :: "'d decimal_ops" +
  fixes U :: "'u uuid_ops"
  assumes uuid: "uuid_laws U"
begin

abbreviation pg_ensures where
  "pg_ensures \<equiv> tx_ensures (pg D U) pg_in_tx settled_ledger tx_ledger"

abbreviation pg_yields where
  "pg_yields \<equiv> tx_yields (pg D U) pg_calm tx_ledger"

abbreviation pg_refuses where
  "pg_refuses \<equiv> tx_refuses (pg D U) pg_calm tx_ledger"

lemma decimal: "decimal_laws D"
  by (rule decimal_laws_axioms)

lemma pg_calm_in_tx: "pg_calm c w \<Longrightarrow> pg_in_tx w"
  by (simp add: pg_calm_def)

subsection \<open>account_repo.go\<close>

lemma UpdateBalance_laws:
  assumes b: "decimal_value D b = numeric_value n" and i: "balance_of L i \<noteq> None"
  shows "pg_ensures L (AccountRepository_UpdateBalance Tx i b) (\<lambda>_ L'. L' = put_balance i n L)"
    and "0 \<le> n \<Longrightarrow> n < numeric_limit \<Longrightarrow>
      pg_yields (Suc c) L (AccountRepository_UpdateBalance Tx i b) c (\<lambda>_ _. True)"
    and "numeric_limit \<le> n \<Longrightarrow> pg_refuses c L (AccountRepository_UpdateBalance Tx i b) plain_internal"
  unfolding AccountRepository_UpdateBalance_def
proof -
  let ?k = "\<lambda>r. case r of Inl err \<Rightarrow> if pgErrorCode err = codeCheckViolation
      then Return (Inl ErrInsufficientFunds) else Return (Inl (Wrapf ''update balance'' err))
    | Inr _ \<Rightarrow> Return (Inr ())"
  show "pg_ensures L (bind_prog (Exec Tx (SqlUpdateBalance i b)) ?k) (\<lambda>_ L'. L' = put_balance i n L)"
    by (rule ensures_bind [OF interactions_ensure(1)])
      (auto intro!: ensures_Inr dest: update_balance_step(1) [OF b i])
  show "pg_yields (Suc c) L (bind_prog (Exec Tx (SqlUpdateBalance i b)) ?k) c (\<lambda>_ _. True)"
    if "0 \<le> n" "n < numeric_limit"
    by (rule yields_bind [OF interactions_yield(1) [OF _ update_balance_step(2) [OF b i that]]])
      (simp_all add: yields_Inr)
  show "pg_refuses c L (bind_prog (Exec Tx (SqlUpdateBalance i b)) ?k) plain_internal"
    if "numeric_limit \<le> n"
    by (rule refuses_bind [OF interactions_refuse(1) [OF _ update_balance_step(3) [OF b i that]]])
      (simp_all add: err_simps codeCheckViolation_def)
qed

lemma Create_laws:
  assumes b: "decimal_value D b = numeric_value n" and n: "0 \<le> n"
  shows "pg_ensures L (AccountRepository_Create D Tx i b)
      (\<lambda>_ L'. balance_of L i = None \<and> L' = open_account i n L)"
    and "n < numeric_limit \<Longrightarrow> balance_of L i = None \<Longrightarrow>
      pg_yields (Suc c) L (AccountRepository_Create D Tx i b) c (\<lambda>_ _. True)"
    and "n < numeric_limit \<Longrightarrow> balance_of L i \<noteq> None \<Longrightarrow>
      pg_refuses c L (AccountRepository_Create D Tx i b) (\<lambda>e. e = ErrAccountAlreadyExists)"
proof -
  have sign: "0 < Sign D b \<longleftrightarrow> 0 < n" using b by (simp add: Sign_gt_iff)
  let ?k2 = "\<lambda>r. case r of Inl err \<Rightarrow> Return (Inl (Wrapf ''insert deposit'' err))
    | Inr _ \<Rightarrow> Return (Inr ())"
  show "pg_ensures L (AccountRepository_Create D Tx i b)
      (\<lambda>_ L'. balance_of L i = None \<and> L' = open_account i n L)"
    unfolding AccountRepository_Create_def
  proof (rule ensures_bind [OF interactions_ensure(1)], simp_all only: stmt_ok.simps sum.case sign)
    fix L1
    assume "\<exists>rows. step_result D U (SqlInsertAccount i b) L rows L1"
    then have L1: "balance_of L i = None" "L1 = put_balance i n L"
      using insert_account_step(1) [OF b n] by blast+
    have "pg_ensures L1 (bind_prog (Exec Tx (SqlInsertDeposit i b)) ?k2)
        (\<lambda>_ L'. balance_of L i = None \<and> L' = open_account i n L)"
      using L1 by (intro ensures_bind [OF interactions_ensure(1)])
        (auto intro!: ensures_Inr dest!: insert_deposit_step(1) [OF b] simp: open_account_def put_balance_def)
    then show "pg_ensures L1 (if 0 < n then bind_prog (Exec Tx (SqlInsertDeposit i b)) ?k2
        else Return (Inr ())) (\<lambda>_ L'. balance_of L i = None \<and> L' = open_account i n L)"
      using L1 by (auto intro!: ensures_Inr simp: open_account_def put_balance_def)
  next
    show "\<exists>e'. (if isUniqueViolation e ''accounts_pkey'' then Return (Inl ErrAccountAlreadyExists)
        else Return (Inl (Wrapf ''insert account'' e))) = Return (Inl e')" for e
      by simp
  qed
  show "pg_yields (Suc c) L (AccountRepository_Create D Tx i b) c (\<lambda>_ _. True)"
    if lim: "n < numeric_limit" and new: "balance_of L i = None"
    unfolding AccountRepository_Create_def
  proof (rule yields_bind [OF tx_yields_ensured [OF pg_calm_in_tx
        interactions_yield(1) [OF _ insert_account_step(2) [OF b n lim new]] interactions_ensure(1)]],
      simp_all only: stmt_ok.simps sum.case sign)
    fix L1
    assume "True \<and> (\<exists>rows. step_result D U (SqlInsertAccount i b) L rows L1)"
    then have L1: "balance_of L1 i \<noteq> None"
      using insert_account_step(1) [OF b n] by (fastforce simp: put_balance_def)
    show "pg_yields (Suc c) L1 (if 0 < n then bind_prog (Exec Tx (SqlInsertDeposit i b)) ?k2
        else Return (Inr ())) c (\<lambda>_ _. True)"
    proof (cases "0 < n")
      case True
      have "pg_yields (Suc c) L1 (bind_prog (Exec Tx (SqlInsertDeposit i b)) ?k2) c (\<lambda>_ _. True)"
        by (rule yields_bind [OF interactions_yield(1) [OF _ insert_deposit_step(2) [OF b True lim L1]]])
          (simp_all add: yields_Inr)
      with True show ?thesis by simp
    next
      case False
      then show ?thesis by (auto simp: tx_yields_def pg_calm_def intro: room_less)
    qed
  qed
  show "pg_refuses c L (AccountRepository_Create D Tx i b) (\<lambda>e. e = ErrAccountAlreadyExists)"
    if "n < numeric_limit" "balance_of L i \<noteq> None"
    unfolding AccountRepository_Create_def
    by (rule refuses_bind [OF interactions_refuse(1) [OF _ insert_account_step(3) [OF b n that]]])
      (simp_all add: err_simps)
qed

lemma LockForUpdate_laws:
  "pg_ensures L (AccountRepository_LockForUpdate Tx ids) (\<lambda>m L'. L' = L \<and>
     (\<forall>i \<in> set ids. account_denotes D i (m i) (balance_of L i)))"
  "pg_yields c L (AccountRepository_LockForUpdate Tx ids) c (\<lambda>_ _. True)"
proof -
  show "pg_ensures L (AccountRepository_LockForUpdate Tx ids) (\<lambda>m L'. L' = L \<and>
     (\<forall>i \<in> set ids. account_denotes D i (m i) (balance_of L i)))"
    unfolding AccountRepository_LockForUpdate_def
    by (rule ensures_bind [OF interactions_ensure(2)])
      (auto dest!: lock_accounts_step(1) [OF decimal] intro!: ensures_Inr)
  show "pg_yields c L (AccountRepository_LockForUpdate Tx ids) c (\<lambda>_ _. True)"
    unfolding AccountRepository_LockForUpdate_def
    by (rule yields_bind [OF interactions_yield(2) [OF _ lock_accounts_step(2) [OF decimal]]])
      (auto intro!: yields_Inr)
qed

lemma Get_pool_run:
  assumes "tables_ok (committed w) (seqs w)" and "run (pg D U) (AccountRepository_Get Pool i) w = (r, w')"
  shows "committed w' = committed w \<and> seqs w' = seqs w \<and> txn w' = txn w \<and>
    (\<forall>a. r = Inr a \<longrightarrow> account_denotes D i (Some a) (balance_of (settled_ledger w) i)) \<and>
    (script w = [] \<longrightarrow> w' = w \<and> (case balance_of (settled_ledger w) i of
       None \<Rightarrow> r = Inl (AccountNotFound i) | Some n \<Rightarrow> \<exists>a. r = Inr a))"
proof -
  let ?rows = "select_account D (committed w) i"
  obtain rs w1 where st: "statement D U Pool (SqlSelectAccount i) w = (rs, w1)" by fastforce
  have read: "committed w1 = committed w \<and> seqs w1 = seqs w \<and> txn w1 = txn w \<and>
      (\<forall>rows. rs = Inr rows \<longrightarrow> Inr (?rows, [] :: 'u db_write list) = (Inr (rows, []) :: go_error + _)) \<and>
      (script w = [] \<longrightarrow> w1 = w \<and> rs = (case Inr (?rows, [] :: 'u db_write list) of
         Inl e \<Rightarrow> Inl e | Inr (rows, ws) \<Rightarrow> Inr rows))"
    by (rule pool_read [OF _ _ st]) simp_all
  have no_rows: "errors_Is e ErrNoRows = False" if "rs = Inl e" for e
    using statement_error [of D U Pool "SqlSelectAccount i" w e w1] st that
    by (simp add: library_error_classes(2))
  have run: "run (pg D U) (AccountRepository_Get Pool i) w =
      (case rs of
         Inl e \<Rightarrow> (Inl (Wrapf ''get account'' e), w1)
       | Inr [] \<Rightarrow> (Inl (AccountNotFound i), w1)
       | Inr (row # rows) \<Rightarrow> (case scanAccount row of Inl e \<Rightarrow>
           (if errors_Is e ErrNoRows then Inl (AccountNotFound i) else Inl (Wrapf ''get account'' e), w1)
         | Inr a \<Rightarrow> (Inr a, w1)))"
  proof (cases rs)
    case (Inl e)
    with st no_rows show ?thesis by (simp add: AccountRepository_Get_def run_simps)
  next
    case (Inr rows)
    with st show ?thesis
      by (cases rows; cases "scanAccount (hd rows)") (simp_all add: AccountRepository_Get_def run_simps)
  qed
  have rows: "case ?rows of [] \<Rightarrow> balance_of (settled_ledger w) i = None
      | row # _ \<Rightarrow> \<exists>a. scanAccount row = Inr a \<and> account_denotes D i (Some a) (balance_of (settled_ledger w) i)"
  proof (cases "filter (\<lambda>r. ar_id r = i) (accounts (committed w))")
    case Nil
    then have "account_row_of (committed w) i = None"
      by (simp add: account_row_of_def filter_lookup_by(1))
    with Nil show ?thesis by (simp add: select_account_def settled_ledger_def)
  next
    case (Cons r rs)
    then have r: "account_row_of (committed w) i = Some r"
      by (simp add: account_row_of_def filter_lookup_by(2))
    then have "ar_id r = i" using account_Some_iff [OF assms(1)] by blast
    then show ?thesis
      using Cons r account_denotes_row [OF decimal]
      by (simp add: select_account_def settled_ledger_def)
  qed
  show ?thesis
    using assms(2) read rows unfolding run by (auto split: sum.splits list.splits option.splits) metis+
qed

subsection \<open>transfer_repo.go\<close>

lemma Find_ensures:
  "pg_ensures L (TransferRepository_FindByIdempotencyKey Tx key) (\<lambda>found L'. L' = L \<and>
     (\<exists>k. pg_uuid_in U key = Some k \<and> rel_option (transfer_denotes D) found (find_payment k L)))"
  unfolding tx_ensures_def
proof (intro allI impI)
  fix w r w'
  assume w: "pg_in_tx w" "tx_ledger w = L"
    and r: "run (pg D U) (TransferRepository_FindByIdempotencyKey Tx key) w = (r, w')"
  obtain rs w1 where st: "statement D U Tx (SqlFindTransfer key) w = (rs, w1)" by fastforce
  show "pg_in_tx w' \<and> settled_ledger w' = settled_ledger w \<and> (\<forall>found. r = Inr found \<longrightarrow>
      tx_ledger w' = L \<and> (\<exists>k. pg_uuid_in U key = Some k \<and>
        rel_option (transfer_denotes D) found (find_payment k L)))"
  proof (cases rs)
    case (Inl e)
    with st have "library_error e" by (simp add: statement_error)
    with Inl st r statement_fails [OF w(1) _ st [unfolded Inl]] show ?thesis
      by (auto simp: TransferRepository_FindByIdempotencyKey_def run_simps err_simps)
  next
    case (Inr rows)
    note step = statement_step_result [OF w(1) _ st [unfolded Inr]]
    show ?thesis
    proof (cases rows)
      case Nil
      with Inr st r step find_transfer_step(1) [OF decimal, of U key L rows "tx_ledger w1"] w(2) show ?thesis
        by (auto simp: TransferRepository_FindByIdempotencyKey_def run_simps)
    next
      case (Cons row rows')
      with Inr st r step find_transfer_step(1) [OF decimal, of U key L rows "tx_ledger w1"] w(2) show ?thesis
        by (auto simp: TransferRepository_FindByIdempotencyKey_def run_simps)
    qed
  qed
qed

lemma Find_calm:
  "pg_uuid_in U key = Some k \<Longrightarrow>
     pg_yields c L (TransferRepository_FindByIdempotencyKey Tx key) c (\<lambda>_ _. True)"
  "pg_uuid_in U key = None \<Longrightarrow>
     pg_refuses c L (TransferRepository_FindByIdempotencyKey Tx key) plain_internal"
proof -
  show "pg_yields c L (TransferRepository_FindByIdempotencyKey Tx key) c (\<lambda>_ _. True)"
    if "pg_uuid_in U key = Some k"
    unfolding tx_yields_def
  proof (intro allI impI)
    fix w
    assume "pg_calm c w" "tx_ledger w = L"
    with find_transfer_step(2) [OF decimal that] obtain rows w' where
      st: "statement D U Tx (SqlFindTransfer key) w = (Inr rows, w')" "pg_calm c w'"
      and rows: "\<forall>row \<in> set rows. \<exists>t. scanTransfer row = Inr t"
      using statement_yields [of "SqlFindTransfer key" D U c w c] by fastforce
    then show "\<exists>x w'. run (pg D U) (TransferRepository_FindByIdempotencyKey Tx key) w = (Inr x, w') \<and>
        pg_calm c w' \<and> True"
      by (cases rows) (auto simp: TransferRepository_FindByIdempotencyKey_def run_simps)
  qed
  show "pg_refuses c L (TransferRepository_FindByIdempotencyKey Tx key) plain_internal"
    if "pg_uuid_in U key = None"
    unfolding tx_refuses_def
  proof (intro allI impI)
    fix w
    assume "pg_calm c w" "tx_ledger w = L"
    with find_transfer_step(3) [OF decimal that] obtain w' where
      "statement D U Tx (SqlFindTransfer key) w = (Inl (pg_error U ''22P02'' []), w')"
      using statement_refuses [of "SqlFindTransfer key" D U c w] by fastforce
    then show "\<exists>e w'. run (pg D U) (TransferRepository_FindByIdempotencyKey Tx key) w = (Inl e, w') \<and>
        plain_internal e"
      by (simp add: TransferRepository_FindByIdempotencyKey_def run_simps err_simps)
  qed
qed

lemma Find_pool_run:
  assumes "tables_ok (committed w) (seqs w)"
    and "run (pg D U) (TransferRepository_FindByIdempotencyKey Pool key) w = (r, w')"
  shows "committed w' = committed w \<and> seqs w' = seqs w \<and> txn w' = txn w \<and> (\<forall>found. r = Inr found \<longrightarrow>
    (\<exists>k. pg_uuid_in U key = Some k \<and>
       rel_option (transfer_denotes D) found (find_payment k (settled_ledger w))))"
proof -
  obtain rs w1 where st: "statement D U Pool (SqlFindTransfer key) w = (rs, w1)" by fastforce
  obtain res where step: "sql_step D U (clock w) (committed w) (seqs w) (SqlFindTransfer key) = (res, seqs w)"
    and ws: "\<forall>rows ws. res = Inr (rows, ws) \<longrightarrow> ws = []"
    by (cases "pg_uuid_in U key") (auto simp: find_transfer_def)
  note read = pool_read [OF step ws st]
  then have same: "committed w1 = committed w" "seqs w1 = seqs w" "txn w1 = txn w" by simp_all
  show ?thesis
  proof (cases rs)
    case (Inl e)
    with st have "errors_Is e ErrNoRows = False" by (simp add: statement_error library_error_classes(2))
    with Inl st assms(2) same show ?thesis
      by (auto simp: TransferRepository_FindByIdempotencyKey_def run_simps)
  next
    case (Inr rows)
    with read step have "sql_step D U (clock w) (committed w) (seqs w) (SqlFindTransfer key) =
        (Inr (rows, []), seqs w)" by simp
    then have "step_result D U (SqlFindTransfer key) (settled_ledger w) rows (settled_ledger w)"
      using assms(1) unfolding step_result_def settled_ledger_def by (metis apply_writes_Nil)
    note found = find_transfer_step(1) [OF decimal this]
    show ?thesis
      using Inr st assms(2) same found
      by (cases rows) (auto simp: TransferRepository_FindByIdempotencyKey_def run_simps)
  qed
qed

lemma Insert_laws:
  assumes "decimal_value D (tr_Amount t) = numeric_value n" and "tr_Status t = StatusCompleted"
  shows "pg_ensures L (TransferRepository_Insert Tx t) (\<lambda>i L'.
      \<exists>k. key_option (pg_uuid_in U) (tr_IdempotencyKey t) = Some k \<and>
        (\<forall>k'. k = Some k' \<longrightarrow> find_payment k' L = None) \<and> i \<notin> pay_id ` set (payments L) \<and>
        L' = add_payment \<lparr>pay_id = i, pay_key = k, pay_source = tr_SourceID t,
          pay_destination = tr_DestinationID t, pay_amount = n\<rparr> L)"
    and "\<lbrakk>0 < n; n < numeric_limit; tr_SourceID t \<noteq> tr_DestinationID t;
        balance_of L (tr_SourceID t) \<noteq> None; balance_of L (tr_DestinationID t) \<noteq> None;
        key_option (pg_uuid_in U) (tr_IdempotencyKey t) = Some k;
        \<forall>k'. k = Some k' \<longrightarrow> find_payment k' L = None\<rbrakk> \<Longrightarrow>
      pg_yields (Suc c) L (TransferRepository_Insert Tx t) c (\<lambda>_ _. True)"
proof -
  let ?stmt = "SqlInsertTransfer (tr_IdempotencyKey t) (tr_SourceID t) (tr_DestinationID t) (tr_Amount t) (tr_Status t)"
  have ok: "stmt_ok ?stmt" using assms(2) by simp
  have key: "key_option (pg_uuid_in U) key = uuid_param U key" for key
    by (simp add: key_option_def uuid_param_def)
  have scan: "tx_ensures (pg D U) pg_in_tx settled_ledger tx_ledger L (QueryRowScan Tx ?stmt scanID)
      (\<lambda>i L'. \<exists>k. uuid_param U (tr_IdempotencyKey t) = Some k \<and>
        (\<forall>k'. k = Some k' \<longrightarrow> find_payment k' L = None) \<and> i \<notin> pay_id ` set (payments L) \<and>
        L' = add_payment \<lparr>pay_id = i, pay_key = k, pay_source = tr_SourceID t,
          pay_destination = tr_DestinationID t, pay_amount = n\<rparr> L)"
    unfolding QueryRowScan_def
    by (rule ensures_andThen [OF interactions_ensure(3) [OF ok]])
      (auto dest!: insert_transfer_step(1) [OF assms(1)] intro!: ensures_Inr simp: scanID_def)
  show "pg_ensures L (TransferRepository_Insert Tx t) (\<lambda>i L'.
      \<exists>k. key_option (pg_uuid_in U) (tr_IdempotencyKey t) = Some k \<and>
        (\<forall>k'. k = Some k' \<longrightarrow> find_payment k' L = None) \<and> i \<notin> pay_id ` set (payments L) \<and>
        L' = add_payment \<lparr>pay_id = i, pay_key = k, pay_source = tr_SourceID t,
          pay_destination = tr_DestinationID t, pay_amount = n\<rparr> L)"
    unfolding TransferRepository_Insert_def key
    by (rule ensures_bind [OF scan]) (auto intro!: ensures_Inr)
  show "pg_yields (Suc c) L (TransferRepository_Insert Tx t) c (\<lambda>_ _. True)"
    if "0 < n" "n < numeric_limit" "tr_SourceID t \<noteq> tr_DestinationID t"
      "balance_of L (tr_SourceID t) \<noteq> None" "balance_of L (tr_DestinationID t) \<noteq> None"
      "key_option (pg_uuid_in U) (tr_IdempotencyKey t) = Some k"
      "\<forall>k'. k = Some k' \<longrightarrow> find_payment k' L = None"
  proof -
    have row: "pg_yields (Suc c) L (QueryRow Tx ?stmt) c (\<lambda>row L'. (\<exists>rows. row # rows \<noteq> []) \<and>
        (\<exists>rows. step_result D U ?stmt L (row # rows) L'))"
      by (rule tx_yields_ensured [OF pg_calm_in_tx interactions_yield(3) [OF ok
          insert_transfer_step(2) [OF assms(1) that(1-5) that(6)[unfolded key] that(7)]]
          interactions_ensure(3) [OF ok]]) simp
    show ?thesis
      unfolding TransferRepository_Insert_def QueryRowScan_def
      by (rule yields_bind [OF yields_andThen [OF row, where Q = "\<lambda>_ _. True" and c'' = c]])
        (auto dest!: insert_transfer_step(1) [OF assms(1)] intro!: yields_Inr simp: scanID_def)
  qed
qed

lemma InsertLedgerEntry_laws:
  assumes "decimal_value D (le_Amount e) = numeric_value n"
    and "decimal_value D (le_BalanceAfter e) = numeric_value b"
  shows "pg_ensures L (TransferRepository_InsertLedgerEntry Tx e) (\<lambda>_ L'. L' =
      add_posting \<lparr>post_payment = le_TransferID e, post_account = le_AccountID e,
        post_direction = le_Direction e, post_amount = n, post_balance = b\<rparr> L)"
    and "\<lbrakk>0 < n; n < numeric_limit; 0 \<le> b; b < numeric_limit;
        le_TransferID e \<in> pay_id ` set (payments L); balance_of L (le_AccountID e) \<noteq> None\<rbrakk> \<Longrightarrow>
      pg_yields (Suc c) L (TransferRepository_InsertLedgerEntry Tx e) c (\<lambda>_ _. True)"
proof -
  have dir: "stmt_ok (SqlInsertLedgerEntry tid i (direction_string (le_Direction e)) a ba)" for tid i a ba
    by (cases "le_Direction e") simp_all
  show "pg_ensures L (TransferRepository_InsertLedgerEntry Tx e) (\<lambda>_ L'. L' =
      add_posting \<lparr>post_payment = le_TransferID e, post_account = le_AccountID e,
        post_direction = le_Direction e, post_amount = n, post_balance = b\<rparr> L)"
    unfolding TransferRepository_InsertLedgerEntry_def
    by (rule ensures_bind [OF interactions_ensure(1) [OF dir]])
      (auto intro!: ensures_Inr dest: insert_entry_step(1) [OF assms])
  show "pg_yields (Suc c) L (TransferRepository_InsertLedgerEntry Tx e) c (\<lambda>_ _. True)"
    if "0 < n" "n < numeric_limit" "0 \<le> b" "b < numeric_limit"
      "le_TransferID e \<in> pay_id ` set (payments L)" "balance_of L (le_AccountID e) \<noteq> None"
    unfolding TransferRepository_InsertLedgerEntry_def
    by (rule yields_bind [OF interactions_yield(1) [OF dir insert_entry_step(2) [OF assms that]]])
      (simp_all add: yields_Inr)
qed

subsection \<open>Worlds\<close>

lemma stored_balances:
  "tables_ok t sq \<Longrightarrow> balance_of (abs_ledger t) i = Some a \<Longrightarrow> 0 \<le> a \<and> a < numeric_limit"
  by (auto simp: account_Some_iff) (auto simp: tables_ok_def accounts_ok_def)

lemma idle_frame:
  "pg_idle w \<Longrightarrow> committed w' = committed w \<Longrightarrow> seqs w' = seqs w \<Longrightarrow> txn w' = txn w \<Longrightarrow>
     pg_idle w' \<and> settled_ledger w' = settled_ledger w"
  by (simp add: pg_idle_def settled_ledger_def)

end

subsection \<open>The contracts, discharged\<close>

sublocale postgres \<subseteq>
  world: ledger_world D "pg D U" tx_ledger settled_ledger pg_in_tx pg_idle pg_calm pg_calm_idle
proof
  show "pg_calm c w \<Longrightarrow> pg_in_tx w" for c and w :: "'u world"
    by (rule pg_calm_in_tx)
  show "pg_calm_idle c w \<Longrightarrow> pg_idle w" for c and w :: "'u world"
    by (simp add: pg_calm_idle_def)
  show "pg_in_tx w \<Longrightarrow> balance_of (tx_ledger w) i = Some a \<Longrightarrow> 0 \<le> a \<and> a < numeric_limit"
    for w :: "'u world" and i a
    using stored_balances [of "view w" "seqs w"] by (simp add: pg_in_tx_def tx_ledger_def)
  show "pg_idle w \<Longrightarrow> balance_of (settled_ledger w) i = Some a \<Longrightarrow> 0 \<le> a \<and> a < numeric_limit"
    for w :: "'u world" and i a
    using stored_balances [of "committed w" "seqs w"] by (simp add: pg_idle_def settled_ledger_def)
qed

lemma NewRepository_sel [simp]:
  "as_Create (NewAccountRepository D) = AccountRepository_Create D"
  "as_Get (NewAccountRepository D) = AccountRepository_Get"
  "as_LockForUpdate (NewAccountRepository D) = AccountRepository_LockForUpdate"
  "as_UpdateBalance (NewAccountRepository D) = AccountRepository_UpdateBalance"
  "ts_FindByIdempotencyKey NewTransferRepository = TransferRepository_FindByIdempotencyKey"
  "ts_Insert NewTransferRepository = TransferRepository_Insert"
  "ts_InsertLedgerEntry NewTransferRepository = TransferRepository_InsertLedgerEntry"
  "tm_WithTx (attempting n lastErr) = withTxLoop (Suc n) lastErr"
  by (simp_all add: NewAccountRepository_def NewTransferRepository_def attempting_def)

sublocale postgres \<subseteq>
  accs: account_store D "pg D U" tx_ledger settled_ledger pg_in_tx pg_idle pg_calm pg_calm_idle
    "NewAccountRepository D"
proof (unfold_locales, unfold NewRepository_sel)
  show "pg_idle w' \<and> settled_ledger w' = settled_ledger w \<and> (\<forall>a. ra = Inr a \<longrightarrow>
      account_denotes D i (Some a) (balance_of (settled_ledger w) i))"
    if "pg_idle w" "run (pg D U) (AccountRepository_Get Pool i) w = (ra, w')"
    for w w' :: "'u world" and i ra
  proof -
    have ok: "tables_ok (committed w) (seqs w)" using that(1) by (simp add: pg_idle_def)
    show ?thesis using Get_pool_run [OF ok that(2)] idle_frame [OF that(1), of w'] by blast
  qed
  show "case balance_of (settled_ledger w) i of
      None \<Rightarrow> run (pg D U) (AccountRepository_Get Pool i) w = (Inl (AccountNotFound i), w)
    | Some n \<Rightarrow> \<exists>a. run (pg D U) (AccountRepository_Get Pool i) w = (Inr a, w)"
    if "pg_calm_idle c w" for c and w :: "'u world" and i
  proof -
    obtain r w' where r: "run (pg D U) (AccountRepository_Get Pool i) w = (r, w')" by fastforce
    have ok: "tables_ok (committed w) (seqs w)" "script w = []"
      using that by (simp_all add: pg_calm_idle_def pg_idle_def)
    have "w' = w" "case balance_of (settled_ledger w) i of
        None \<Rightarrow> r = Inl (AccountNotFound i) | Some n \<Rightarrow> \<exists>a. r = Inr a"
      using Get_pool_run [OF ok(1) r] ok(2) by blast+
    then show ?thesis by (simp add: r split: option.splits)
  qed
qed (rule LockForUpdate_laws UpdateBalance_laws Create_laws; assumption)+

sublocale postgres \<subseteq>
  trs: transfer_store D "pg D U" tx_ledger settled_ledger pg_in_tx pg_idle pg_calm pg_calm_idle
    NewTransferRepository "pg_uuid_in U"
proof (unfold_locales, unfold NewRepository_sel)
  show "pg_uuid_in U [] = None" using uuid by (simp add: uuid_laws_def)
  show "pg_idle w' \<and> settled_ledger w' = settled_ledger w \<and> (\<forall>found. rf = Inr found \<longrightarrow>
      (\<exists>k. pg_uuid_in U key = Some k \<and>
         rel_option (transfer_denotes D) found (find_payment k (settled_ledger w))))"
    if "pg_idle w" "run (pg D U) (TransferRepository_FindByIdempotencyKey Pool key) w = (rf, w')"
    for w w' :: "'u world" and key rf
  proof -
    have ok: "tables_ok (committed w) (seqs w)" using that(1) by (simp add: pg_idle_def)
    show ?thesis using Find_pool_run [OF ok that(2)] idle_frame [OF that(1), of w'] by blast
  qed
qed (rule Find_ensures Find_calm Insert_laws InsertLedgerEntry_laws; assumption)+

text \<open>\<open>main.go\<close> passes one \<open>TxManager\<close> to both services; its function leaves a transfer to the one
  and nothing to the other. The laws hold with any number of attempts left.\<close>

lemmas attempting_laws = withTxLoop_atomic calm_begun withTxLoop_commits withTxLoop_rolls_back

context postgres
begin

lemma transfers_attempting:
  "transfer_service D (pg D U) tx_ledger settled_ledger pg_in_tx pg_idle pg_calm pg_calm_idle
    (NewAccountRepository D) NewTransferRepository (pg_uuid_in U) (attempting n lastErr) begun_world"
  by (unfold_locales, unfold NewRepository_sel) (rule attempting_laws; assumption)+

lemma accounts_attempting:
  "account_service D (pg D U) tx_ledger settled_ledger pg_in_tx pg_idle pg_calm pg_calm_idle
    (NewAccountRepository D) (attempting n lastErr) begun_world"
  by (unfold_locales, unfold NewRepository_sel) (rule attempting_laws; assumption)+

end

sublocale postgres \<subseteq>
  transfers: transfer_service D "pg D U" tx_ledger settled_ledger pg_in_tx pg_idle pg_calm pg_calm_idle
    "NewAccountRepository D" NewTransferRepository "pg_uuid_in U" NewTxManager begun_world U
  unfolding NewTxManager_attempting by (rule transfers_attempting)

sublocale postgres \<subseteq>
  accounts_contract: account_service D "pg D U" tx_ledger settled_ledger pg_in_tx pg_idle pg_calm pg_calm_idle
    "NewAccountRepository D" NewTxManager begun_world
  unfolding NewTxManager_attempting by (rule accounts_attempting)

interpretation refpg: postgres ref_decimal ref_uuid
  by unfold_locales (rule uuid_laws_ref)

end
