(* ===== verification/Ledger_Invariant.thy ===== *)
theory Ledger_Invariant
  imports Ledger_Spec
begin

text \<open>
  The bookkeeping invariant of the abstract ledger, and that opening an account and posting a payment
  keep it:

  \<^item> no balance is negative, and the balances add up to the deposits (conservation);
  \<^item> every payment has exactly its two postings, one debit of the source and one credit of the
    destination, each of the payment's amount, and every posting belongs to a payment;
  \<^item> replaying an account's postings from its deposits reproduces every \<open>balance_after\<close> snapshot and
    ends in its balance.
\<close>

definition funded :: "int64 \<Rightarrow> 'k ledger \<Rightarrow> int" where
  "funded i L = total_by snd (filter (\<lambda>f. fst f = i) (funding L))"

definition statement_of :: "int64 \<Rightarrow> 'k ledger \<Rightarrow> posting list" where
  "statement_of i L = filter (\<lambda>e. post_account e = i) (postings L)"

definition signed_amount :: "posting \<Rightarrow> int" where
  "signed_amount e = (case post_direction e of DirectionDebit \<Rightarrow> - post_amount e | DirectionCredit \<Rightarrow> post_amount e)"

text \<open>The balance after replaying postings, if every snapshot agrees.\<close>

fun replay :: "int \<Rightarrow> posting list \<Rightarrow> int option" where
  "replay b [] = Some b"
| "replay b (e # es) =
     (if post_balance e = b + signed_amount e then replay (post_balance e) es else None)"

definition total_balance :: "'k ledger \<Rightarrow> int" where
  "total_balance L = (\<Sum>i \<in> dom (balance_of L). the (balance_of L i))"

definition payment_postings :: "'k payment \<Rightarrow> 'k ledger \<Rightarrow> posting list" where
  "payment_postings p L = filter (\<lambda>e. post_payment e = pay_id p) (postings L)"

definition double_entry :: "'k payment \<Rightarrow> posting list \<Rightarrow> bool" where
  "double_entry p es \<longleftrightarrow>
     (\<exists>x y. es =
        [\<lparr>post_payment = pay_id p, post_account = pay_source p, post_direction = DirectionDebit,
          post_amount = pay_amount p, post_balance = x\<rparr>,
         \<lparr>post_payment = pay_id p, post_account = pay_destination p, post_direction = DirectionCredit,
          post_amount = pay_amount p, post_balance = y\<rparr>] \<and> 0 \<le> x \<and> 0 \<le> y)"


definition conserved :: "'k ledger \<Rightarrow> bool" where
  "conserved L \<longleftrightarrow> finite (dom (balance_of L)) \<and> total_balance L = total_by snd (funding L)"

definition nonnegative :: "'k ledger \<Rightarrow> bool" where
  "nonnegative L \<longleftrightarrow> (\<forall>i a. balance_of L i = Some a \<longrightarrow> 0 \<le> a)"

definition double_entries :: "'k ledger \<Rightarrow> bool" where
  "double_entries L \<longleftrightarrow> distinct (map pay_id (payments L)) \<and>
     (\<forall>p \<in> set (payments L). double_entry p (payment_postings p L)) \<and>
     post_payment ` set (postings L) \<subseteq> pay_id ` set (payments L)"

definition replayable :: "'k ledger \<Rightarrow> bool" where
  "replayable L \<longleftrightarrow>
     (\<forall>i. case balance_of L i of
        None \<Rightarrow> i \<notin> fst ` set (funding L) \<and> statement_of i L = []
      | Some a \<Rightarrow> replay (funded i L) (statement_of i L) = Some a)"

definition ledger_ok :: "'k ledger \<Rightarrow> bool" where
  "ledger_ok L \<longleftrightarrow> nonnegative L \<and> conserved L \<and> double_entries L \<and> replayable L"

definition empty_ledger :: "'k ledger" where
  "empty_ledger = \<lparr>balance_of = Map.empty, funding = [], payments = [], postings = []\<rparr>"

lemma ledger_ok_empty: "ledger_ok empty_ledger"
  by (simp add: ledger_ok_def empty_ledger_def nonnegative_def conserved_def total_balance_def
      double_entries_def replayable_def statement_of_def)

subsection \<open>Totals\<close>

lemma total_upd_new:
  assumes "finite (dom m)" and "m i = None"
  shows "(\<Sum>j \<in> dom (m(i \<mapsto> n)). the ((m(i \<mapsto> n)) j)) = (\<Sum>j \<in> dom m. the (m j)) + (n :: int)"
proof -
  have "i \<notin> dom m" using assms(2) by auto
  moreover have "(\<Sum>j \<in> dom m. the ((m(i \<mapsto> n)) j)) = (\<Sum>j \<in> dom m. the (m j))"
    using assms(2) by (intro sum.cong) (auto simp: dom_def)
  ultimately show ?thesis using assms(1) by simp
qed

lemma total_upd_old:
  assumes "finite (dom m)" and "m i = Some a"
  shows "(\<Sum>j \<in> dom (m(i \<mapsto> n)). the ((m(i \<mapsto> n)) j)) = (\<Sum>j \<in> dom m. the (m j)) - a + (n :: int)"
proof -
  let ?m = "m(i := None)"
  have m: "?m(i \<mapsto> a) = m" and n: "?m(i \<mapsto> n) = m(i \<mapsto> n)" using assms(2) by auto
  have fin: "finite (dom ?m)" "?m i = None" using assms(1) by simp_all
  show ?thesis
    using total_upd_new [OF fin, of a, unfolded m] total_upd_new [OF fin, of n, unfolded n] by linarith
qed

subsection \<open>Replay\<close>

lemma replayableD:
  "replayable L \<Longrightarrow> balance_of L i = None \<Longrightarrow> i \<notin> fst ` set (funding L) \<and> statement_of i L = []"
  "replayable L \<Longrightarrow> balance_of L i = Some a \<Longrightarrow> replay (funded i L) (statement_of i L) = Some a"
  unfolding replayable_def by (drule spec [of _ i], simp)+

lemma replay_snoc:
  "replay b es = Some a \<Longrightarrow> post_balance e = a + signed_amount e \<Longrightarrow>
     replay b (es @ [e]) = Some (post_balance e)"
  by (induction es arbitrary: b) (auto split: if_splits)

text \<open>A replayable account's balance is its deposits plus its credits less its debits.\<close>

lemma replay_total: "replay b es = Some a \<Longrightarrow> b + total_by signed_amount es = a"
proof (induction es arbitrary: b)
  case (Cons e es)
  then show ?case using Cons.IH [of "b + signed_amount e"] by (simp add: algebra_simps split: if_splits)
qed simp

lemma signed_total:
  "total_by signed_amount es =
     total_by post_amount (filter (\<lambda>e. post_direction e = DirectionCredit) es) -
     total_by post_amount (filter (\<lambda>e. post_direction e = DirectionDebit) es)"
proof (induction es)
  case (Cons e es)
  then show ?case by (cases "post_direction e") (simp_all add: signed_amount_def)
qed simp

lemma account_equation:
  assumes "replayable L" and "balance_of L i = Some a"
  shows "a = funded i L +
    total_by post_amount (filter (\<lambda>e. post_direction e = DirectionCredit) (statement_of i L)) -
    total_by post_amount (filter (\<lambda>e. post_direction e = DirectionDebit) (statement_of i L))"
proof -
  have "replay (funded i L) (statement_of i L) = Some a"
    by (rule replayableD(2) [OF assms])
  from replay_total [OF this] show ?thesis by (simp add: signed_total)
qed

subsection \<open>Opening an account\<close>

lemma ledger_ok_open:
  assumes ok: "ledger_ok L" and new: "balance_of L i = None" and n: "0 \<le> n"
  shows "ledger_ok (open_account i n L)"
proof -
  have nin: "i \<notin> fst ` set (funding L)" and stmt: "statement_of i L = []"
    using replayableD(1) [of L i] ok new by (simp_all add: ledger_ok_def)
  have "filter (\<lambda>f. fst f = i) (funding L) = []"
    using nin by (auto simp: filter_empty_conv)
  then have fund: "funded i L = 0" by (simp add: funded_def)
  have fund': "funded j (open_account i n L) = (if j = i then n else funded j L)" for j
    using fund(1) n by (auto simp: funded_def open_account_def)
  have "total_balance (open_account i n L) = total_balance L + n"
    using total_upd_new [of "balance_of L" i n] ok new
    by (simp add: total_balance_def open_account_def ledger_ok_def conserved_def)
  then have "conserved (open_account i n L)"
    using ok n by (simp add: ledger_ok_def conserved_def open_account_def)
  moreover have "replayable (open_account i n L)"
    unfolding replayable_def
  proof
    fix j
    have s: "statement_of j (open_account i n L) = statement_of j L"
      by (simp add: statement_of_def open_account_def)
    show "case balance_of (open_account i n L) j of
        None \<Rightarrow> j \<notin> fst ` set (funding (open_account i n L)) \<and> statement_of j (open_account i n L) = []
      | Some a \<Rightarrow> replay (funded j (open_account i n L)) (statement_of j (open_account i n L)) = Some a"
      using replayableD [of L j] ok stmt n unfolding fund' s
      by (cases "j = i") (auto simp: open_account_def ledger_ok_def split: option.split)
  qed
  ultimately show ?thesis
    using ok n by (auto simp: ledger_ok_def nonnegative_def double_entries_def open_account_def payment_postings_def)
qed

subsection \<open>Posting a payment\<close>

text \<open>The two postings of \<open>post p a b\<close>.\<close>

definition debit_posting :: "'k payment \<Rightarrow> int \<Rightarrow> posting" where
  "debit_posting p a =
     \<lparr>post_payment = pay_id p, post_account = pay_source p, post_direction = DirectionDebit,
      post_amount = pay_amount p, post_balance = a - pay_amount p\<rparr>"

definition credit_posting :: "'k payment \<Rightarrow> int \<Rightarrow> posting" where
  "credit_posting p b =
     \<lparr>post_payment = pay_id p, post_account = pay_destination p, post_direction = DirectionCredit,
      post_amount = pay_amount p, post_balance = b + pay_amount p\<rparr>"

lemma postings_post [simp]:
  "postings (post p a b L) = postings L @ [debit_posting p a, credit_posting p b]"
  by (simp add: post_def debit_posting_def credit_posting_def)

lemma posting_sel [simp]:
  "post_payment (debit_posting p a) = pay_id p" "post_payment (credit_posting p b) = pay_id p"
  "post_account (debit_posting p a) = pay_source p" "post_account (credit_posting p b) = pay_destination p"
  "post_balance (debit_posting p a) = a - pay_amount p" "post_balance (credit_posting p b) = b + pay_amount p"
  "signed_amount (debit_posting p a) = - pay_amount p" "signed_amount (credit_posting p b) = pay_amount p"
  by (simp_all add: debit_posting_def credit_posting_def signed_amount_def)

lemma statement_post:
  "pay_source p \<noteq> pay_destination p \<Longrightarrow> statement_of i (post p a b L) = statement_of i L @
     (if i = pay_source p then [debit_posting p a]
      else if i = pay_destination p then [credit_posting p b] else [])"
  by (auto simp: statement_of_def)

lemma ledger_ok_posted:
  assumes ok: "ledger_ok L" and p: "payment_posted key src dst n p L L'"
  shows "ledger_ok L'"
proof -
  from p obtain a b where ab: "balance_of L src = Some a" "balance_of L dst = Some b" "n \<le> a"
    and L': "L' = post p a b L" and p': "pay_source p = src" "pay_destination p = dst" "pay_amount p = n"
    "src \<noteq> dst" "0 < n" "pay_id p \<notin> pay_id ` set (payments L)"
    by (auto simp: payment_posted_def)
  have fin: "finite (dom (balance_of L))" "total_balance L = total_by snd (funding L)"
    using ok by (simp_all add: ledger_ok_def conserved_def)
  have "0 \<le> b" using ok ab(2) by (auto simp: ledger_ok_def nonnegative_def)
  have "nonnegative L'"
    using ok ab p' by (auto simp: ledger_ok_def nonnegative_def L' intro: order.trans)
  moreover have "conserved L'"
  proof -
    have "total_balance L' = total_balance L - a + (a - n) - b + (b + n)"
      using total_upd_old [of "(balance_of L)(src \<mapsto> a - n)" dst b "b + n"]
        total_upd_old [of "balance_of L" src a "a - n"] fin(1) ab p'
      by (simp add: total_balance_def L' p')
    then show ?thesis using fin by (simp add: conserved_def L')
  qed
  moreover have "double_entries L'"
  proof -
    have old: "payment_postings q L' = payment_postings q L" if "q \<in> set (payments L)" for q
      using that p' by (auto simp: payment_postings_def L')
    have "pay_id p \<notin> post_payment ` set (postings L)"
      using ok p' by (auto simp: ledger_ok_def double_entries_def)
    then have "payment_postings p L = []" by (force simp: payment_postings_def filter_empty_conv)
    then have new: "payment_postings p L' = [debit_posting p a, credit_posting p b]"
      by (simp add: payment_postings_def L')
    have "double_entry p [debit_posting p a, credit_posting p b]"
      using ab p' \<open>0 \<le> b\<close> by (simp add: double_entry_def debit_posting_def credit_posting_def)
    with ok p' old new show ?thesis
      unfolding ledger_ok_def double_entries_def by (auto simp: L')
  qed
  moreover have "replayable L'"
    unfolding replayable_def
  proof
    fix i
    have fund: "funded j L' = funded j L" "funding L' = funding L" for j by (simp_all add: funded_def L')
    have ok': "replayable L" using ok by (simp add: ledger_ok_def)
    have stmt: "statement_of j L' = statement_of j L @ (if j = src then [debit_posting p a]
        else if j = dst then [credit_posting p b] else [])" for j
      using statement_post [of p j a b L] p' by (simp add: L')
    have bal: "balance_of L' j = (if j = dst then Some (b + n) else if j = src then Some (a - n)
        else balance_of L j)" for j
      by (simp add: L' p')
    show "case balance_of L' i of None \<Rightarrow> i \<notin> fst ` set (funding L') \<and> statement_of i L' = []
        | Some a \<Rightarrow> replay (funded i L') (statement_of i L') = Some a"
    proof (cases "i = src \<or> i = dst")
      case True
      then show ?thesis
        using replay_snoc [OF replayableD(2) [OF ok' ab(1)], of "debit_posting p a"]
          replay_snoc [OF replayableD(2) [OF ok' ab(2)], of "credit_posting p b"] p'
        by (auto simp: bal stmt fund)
    next
      case False
      then show ?thesis
        using replayableD [OF ok', of i] by (auto simp: bal stmt fund split: option.split)
    qed
  qed
  ultimately show ?thesis by (simp add: ledger_ok_def)
qed

subsection \<open>The ledger is append-only\<close>

definition extends :: "'a list \<Rightarrow> 'a list \<Rightarrow> bool" where
  "extends xs ys \<longleftrightarrow> take (length xs) ys = xs"

definition ledger_extends :: "'k ledger \<Rightarrow> 'k ledger \<Rightarrow> bool" where
  "ledger_extends L L' \<longleftrightarrow>
     extends (funding L) (funding L') \<and> extends (payments L) (payments L') \<and>
     extends (postings L) (postings L') \<and> dom (balance_of L) \<subseteq> dom (balance_of L')"

lemma extends_iff: "extends xs ys \<longleftrightarrow> (\<exists>zs. ys = xs @ zs)"
  by (metis append_eq_conv_conj append_take_drop_id extends_def)

lemma ledger_extends_refl [simp]: "ledger_extends L L"
  by (simp add: ledger_extends_def extends_def)

lemma ledger_extends_trans: "ledger_extends L L' \<Longrightarrow> ledger_extends L' L'' \<Longrightarrow> ledger_extends L L''"
  by (auto simp: ledger_extends_def extends_iff)

lemma ledger_extends_open: "ledger_extends L (open_account i n L)"
  by (auto simp: ledger_extends_def open_account_def extends_def)

lemma ledger_extends_posted: "payment_posted key src dst n p L L' \<Longrightarrow> ledger_extends L L'"
  by (auto simp: payment_posted_def ledger_extends_def extends_def)

lemma find_payment_extends:
  "ledger_extends L L' \<Longrightarrow> find_payment k L = Some p \<Longrightarrow> find_payment k L' = Some p"
  by (auto simp: ledger_extends_def extends_iff find_payment_def lookup_by_append)

end
