(* ===== verification/Reconciliation.thy ===== *)
theory Reconciliation
  imports Ledger_Invariant Postgres
begin

text \<open>
  The two reconciliations of \<open>audit_script.py\<close> (and of the README's audit queries) on the tables, and
  that they pass whenever the bookkeeping invariant holds of the stored ledger.
\<close>

definition macro_reconciles :: "'u tables \<Rightarrow> bool" where
  "macro_reconciles t \<longleftrightarrow> total_by ar_balance (accounts t) = total_by dr_amount (deposits t)"

definition account_reconciles :: "'u tables \<Rightarrow> account_row \<Rightarrow> bool" where
  "account_reconciles t r \<longleftrightarrow>
     (let deposit = total_by dr_amount (filter (\<lambda>d. dr_account_id d = ar_id r) (deposits t));
          credit = total_by lr_amount
            (filter (\<lambda>e. lr_account_id e = ar_id r \<and> lr_direction e = ''credit'') (ledger_entries t));
          debit = total_by lr_amount
            (filter (\<lambda>e. lr_account_id e = ar_id r \<and> lr_direction e = ''debit'') (ledger_entries t))
      in ar_balance r = deposit + credit - debit)"

definition audit_database :: "'u tables \<Rightarrow> bool" where
  "audit_database t \<longleftrightarrow> macro_reconciles t \<and> list_all (account_reconciles t) (accounts t)"

lemma total_balance_rows:
  assumes "distinct (map ar_id rows)"
  shows "(\<Sum>i \<in> dom (\<lambda>i. lookup_by ar_id i rows). ar_balance (the (lookup_by ar_id i rows))) =
    total_by ar_balance rows"
  using assms
proof (induction rows)
  case (Cons r rows)
  let ?m = "\<lambda>i. lookup_by ar_id i rows" and ?m' = "\<lambda>i. lookup_by ar_id i (r # rows)"
  have dom: "dom ?m = ar_id ` set rows" "dom ?m' = insert (ar_id r) (ar_id ` set rows)"
    using dom_lookup_by [of ar_id rows] dom_lookup_by [of ar_id "r # rows"] by simp_all
  have nin: "ar_id r \<notin> ar_id ` set rows" using Cons.prems by simp
  have "(\<Sum>i \<in> dom ?m'. ar_balance (the (?m' i))) =
      ar_balance (the (?m' (ar_id r))) + (\<Sum>i \<in> ar_id ` set rows. ar_balance (the (?m' i)))"
    unfolding dom(2) by (rule sum.insert) (use nin in auto)
  also have "(\<Sum>i \<in> ar_id ` set rows. ar_balance (the (?m' i))) =
      (\<Sum>i \<in> dom ?m. ar_balance (the (?m i)))"
    unfolding dom(1) using nin by (intro sum.cong) auto
  also have "\<dots> = total_by ar_balance rows" using Cons.IH Cons.prems by (simp only: distinct.simps list.map)
  finally show ?case by simp
qed simp

lemma total_balance_abs:
  assumes "tables_ok t sq"
  shows "total_balance (abs_ledger t) = total_by ar_balance (accounts t)"
proof -
  have "dom (balance_of (abs_ledger t)) = dom (account_row_of t)"
    by (auto simp: dom_def)
  then have "total_balance (abs_ledger t) = (\<Sum>i \<in> dom (account_row_of t). ar_balance (the (account_row_of t i)))"
    by (auto simp: total_balance_def intro!: sum.cong)
  also have "account_row_of t = (\<lambda>i. lookup_by ar_id i (accounts t))"
    by (simp add: account_row_of_def fun_eq_iff)
  also have "(\<Sum>i \<in> dom (\<lambda>i. lookup_by ar_id i (accounts t)). ar_balance (the (lookup_by ar_id i (accounts t)))) =
      total_by ar_balance (accounts t)"
    by (rule total_balance_rows) (use assms in \<open>simp add: tables_ok_def accounts_ok_def\<close>)
  finally show ?thesis .
qed

lemma funding_abs: "funding (abs_ledger t) = map (\<lambda>d. (dr_account_id d, dr_amount d)) (deposits t)"
  and postings_abs: "postings (abs_ledger t) = map posting_of_row (ledger_entries t)"
  by (simp_all add: abs_ledger_def)

lemma entry_totals_rows:
  assumes "\<forall>e \<in> set es. lr_direction e = direction_string DirectionDebit \<or>
      lr_direction e = direction_string DirectionCredit"
  shows "total_by post_amount (filter (\<lambda>e. post_direction e = dir)
        (filter (\<lambda>e. post_account e = i) (map posting_of_row es))) =
      total_by lr_amount (filter (\<lambda>e. lr_account_id e = i \<and> lr_direction e = direction_string dir) es)"
  using assms by (induction es) (cases dir; auto simp: posting_of_row_def)+

lemma entry_totals:
  assumes "tables_ok t sq"
  shows "total_by post_amount (filter (\<lambda>e. post_direction e = dir) (statement_of i (abs_ledger t))) =
    total_by lr_amount (filter (\<lambda>e. lr_account_id e = i \<and> lr_direction e = direction_string dir)
      (ledger_entries t))"
  unfolding statement_of_def postings_abs
  by (rule entry_totals_rows) (use assms in \<open>auto simp: tables_ok_def entries_ok_def\<close>)

lemma audit_passes:
  assumes t: "tables_ok t sq" and L: "ledger_ok (abs_ledger t)"
  shows "audit_database t"
proof -
  have "macro_reconciles t"
    using L by (simp add: ledger_ok_def conserved_def macro_reconciles_def total_balance_abs [OF t]
        funding_abs total_by_def o_def)
  moreover have "account_reconciles t r" if "r \<in> set (accounts t)" for r
  proof -
    have "account_row_of t (ar_id r) = Some r" using that account_Some_iff [OF t] by blast
    then have "ar_balance r = funded (ar_id r) (abs_ledger t) +
        total_by post_amount (filter (\<lambda>e. post_direction e = DirectionCredit) (statement_of (ar_id r) (abs_ledger t))) -
        total_by post_amount (filter (\<lambda>e. post_direction e = DirectionDebit) (statement_of (ar_id r) (abs_ledger t)))"
      using L account_equation [of "abs_ledger t" "ar_id r" "ar_balance r"] by (simp add: ledger_ok_def)
    moreover have "funded (ar_id r) (abs_ledger t) =
        total_by dr_amount (filter (\<lambda>d. dr_account_id d = ar_id r) (deposits t))"
      by (simp add: funded_def funding_abs filter_map total_by_def o_def)
    ultimately show ?thesis
      by (simp add: account_reconciles_def entry_totals [OF t] Let_def direction_string_def)
  qed
  ultimately show ?thesis by (simp add: audit_database_def list_all_iff)
qed

end
