(* ===== verification/Service_System.thy ===== *)
theory Service_System
  imports Providers Reconciliation
begin

text \<open>
  The services wired to the repositories as \<open>cmd/server/main.go\<close> does, and the histories of the
  system: \<open>reachable\<close> worlds come from the empty schema by any sequence of service requests, each
  run to its end, with whatever the environment makes fail in between. The bookkeeping invariant and
  the integrity of the tables hold in every one of them.
\<close>

definition accountSvc :: "'d decimal_ops \<Rightarrow> 'd AccountService" where
  "accountSvc D = NewAccountService Pool NewTxManager (NewAccountRepository D)"

definition transferSvc :: "'d decimal_ops \<Rightarrow> 'd TransferService" where
  "transferSvc D = NewTransferService Pool NewTxManager (NewAccountRepository D) NewTransferRepository"

text \<open>The key a request asks for, as the database reads it: none for an empty header, \<open>None\<close> when the
  database cannot read it.\<close>

definition requested_key :: "'u uuid_ops \<Rightarrow> 'd TransferCmd \<Rightarrow> 'u option option" where
  "requested_key U cmd = key_option (pg_uuid_in U) (optionalKey (cmd_IdempotencyKey cmd))"

lemma postgresI: "decimal_laws D \<Longrightarrow> uuid_laws U \<Longrightarrow> postgres D U"
  by (simp add: postgres_def postgres_axioms_def)

subsection \<open>Histories\<close>

definition initial_world :: "'u world \<Rightarrow> bool" where
  "initial_world w \<longleftrightarrow> txn w = None \<and> committed w = empty_tables \<and>
     seqs w = \<lparr>deposits_id_seq = 0, transfers_id_seq = 0, ledger_entries_id_seq = 0\<rparr>"

text \<open>\<open>history D U w w'\<close>: requests run from the world \<open>w\<close> lead to \<open>w'\<close>.\<close>

inductive history :: "'d decimal_ops \<Rightarrow> 'u uuid_ops \<Rightarrow> 'u world \<Rightarrow> 'u world \<Rightarrow> bool" for D U w0 where
  start: "history D U w0 w0"
| create: "history D U w0 w \<Longrightarrow> run (pg D U) (AccountService_Create D (accountSvc D) i b) w = (r, w') \<Longrightarrow>
    history D U w0 w'"
| get: "history D U w0 w \<Longrightarrow> run (pg D U) (AccountService_Get (accountSvc D) i) w = (ra, w') \<Longrightarrow>
    history D U w0 w'"
| transfer: "history D U w0 w \<Longrightarrow>
    run (pg D U) (TransferService_Transfer D U (transferSvc D) cmd) w = (rt, w') \<Longrightarrow> history D U w0 w'"
| environment: "history D U w0 w \<Longrightarrow> history D U w0 (w\<lparr>clock := now, script := faults\<rparr>)"

definition reachable :: "'d decimal_ops \<Rightarrow> 'u uuid_ops \<Rightarrow> 'u world \<Rightarrow> bool" where
  "reachable D U w \<longleftrightarrow> (\<exists>w0. initial_world w0 \<and> history D U w0 w)"

definition books_ok :: "'u world \<Rightarrow> bool" where
  "books_ok w \<longleftrightarrow> pg_idle w \<and> ledger_ok (settled_ledger w)"

lemma initial_books_ok: "initial_world w \<Longrightarrow> books_ok w"
  using tables_ok_empty ledger_ok_empty
  by (simp add: books_ok_def initial_world_def pg_idle_def settled_ledger_def abs_ledger_def
      empty_tables_def empty_ledger_def account_row_of_def fun_eq_iff[symmetric] cong: ledger.fold_congs)

context postgres
begin

text \<open>The contracts of the services, on their wiring.\<close>

lemmas transfer_contract = transfers.Transfer_atomic [folded transferSvc_def requested_key_def]
lemmas transfer_refinement = transfers.Transfer_refines [folded transferSvc_def requested_key_def]
lemmas transfer_overflow = transfers.Transfer_overflows [folded transferSvc_def requested_key_def]
lemmas transfer_unreadable_key = transfers.Transfer_bad_key [folded transferSvc_def]
lemmas transfer_known_key = transfers.Transfer_known_key [folded transferSvc_def requested_key_def]
lemmas create_contract = accounts_contract.Create_atomic [folded accountSvc_def]
lemmas create_refinement = accounts_contract.Create_refines [folded accountSvc_def]
lemmas get_contract = accounts_contract.Get_sound [folded accountSvc_def]
lemmas get_refinement = accounts_contract.Get_refines [folded accountSvc_def]

text \<open>Attempts that fail with a retryable error are forgotten: the request is answered as from the calm
  world they end in, with the attempts that are left.\<close>

lemma transfer_after_attempts:
  assumes w: "pg_idle w" and v: "TransferService_validate D U cmd = None"
    and rs: "attempts (pg D U) (TransferService_body D (transferSvc D) cmd) rs w w1"
      "\<forall>x \<in> set rs. retryable_result x" "length rs < maxTxRetries"
    and w1: "pg_calm_idle 5 w1" and k: "requested_key U cmd = Some key"
    and room: "\<And>b. balance_of (settled_ledger w) (cmd_DestinationID cmd) = Some b \<Longrightarrow>
      b + cmd_units D cmd < numeric_limit"
  shows "\<exists>i r w'. run (pg D U) (TransferService_Transfer D U (transferSvc D) cmd) w = (r, w') \<and>
    (case transfer_spec i key (cmd_SourceID cmd) (cmd_DestinationID cmd) (cmd_units D cmd)
        (settled_ledger w) of
       (out, L') \<Rightarrow> outcome_denotes D r out \<and> settled_ledger w' = L')"
proof -
  have amt: "validateAmount D (cmd_Amount cmd) = None" "cmd_SourceID cmd \<noteq> cmd_DestinationID cmd"
    using v by (simp_all add: validate_None_iff)
  have same: "settled_ledger w1 = settled_ledger w"
    using attempts_idle [OF rs(1,2) w transfers.body_ensures [OF amt, folded transferSvc_def]] by simp
  obtain m where m: "maxTxRetries = length rs + Suc m" using rs(3) less_iff_Suc_add by auto
  obtain lastErr where skip: "run (pg D U) (withTxLoop (length rs + Suc m) None
      (TransferService_body D (transferSvc D) cmd)) w =
    run (pg D U) (withTxLoop (Suc m) lastErr (TransferService_body D (transferSvc D) cmd)) w1"
    using withTxLoop_skip [OF rs(1,2)] by blast
  let ?S = "NewTransferService Pool (attempting m lastErr) (NewAccountRepository D) NewTransferRepository"
  have sel: "tsv_accounts ?S = tsv_accounts (transferSvc D)" "tsv_transfers ?S = tsv_transfers (transferSvc D)"
    "tsv_db ?S = tsv_db (transferSvc D)"
    by (simp_all add: transferSvc_def NewTransferService_def)
  have posting: "execute_posting D ?S = execute_posting D (transferSvc D)"
    by (intro ext) (simp only: execute_posting_def sel)
  have execute: "TransferService_execute D ?S = TransferService_execute D (transferSvc D)"
    by (intro ext) (simp only: TransferService_execute_def sel posting)
  have body: "TransferService_body D ?S = TransferService_body D (transferSvc D)"
    "TransferService_resolveDuplicate D ?S = TransferService_resolveDuplicate D (transferSvc D)"
    by (intro ext, simp only: TransferService_body_def TransferService_resolveDuplicate_def sel execute)+
  have tx: "tm_WithTx (tsv_tx (transferSvc D)) = withTxLoop maxTxRetries None"
    "tm_WithTx (tsv_tx ?S) = withTxLoop (Suc m) lastErr"
    by (simp_all add: transferSvc_def NewTransferService_def NewTxManager_def WithTx_def attempting_def fun_eq_iff)
  have "run (pg D U) (TransferService_Transfer D U (transferSvc D) cmd) w =
      run (pg D U) (TransferService_Transfer D U ?S cmd) w1"
    using skip v unfolding TransferService_Transfer_def body tx m by (simp add: run_bind_prog del: withTxLoop.simps)
  with transfer_service.Transfer_refines [OF transfers_attempting v w1 k[unfolded requested_key_def], of m lastErr]
    room same show ?thesis by simp
qed

lemma create_books_ok:
  assumes "books_ok w" and "run (pg D U) (AccountService_Create D (accountSvc D) i b) w = (r, w')"
  shows "books_ok w'"
  using accounts_contract.Create_atomic [of w i b r w'] assms ledger_ok_open [of "settled_ledger w" i]
  by (auto simp: books_ok_def accountSvc_def)

lemma get_books_ok:
  assumes "books_ok w" and "run (pg D U) (AccountService_Get (accountSvc D) i) w = (r, w')"
  shows "books_ok w'"
  using accounts_contract.Get_sound [of w i r w'] assms
  by (auto simp: books_ok_def accountSvc_def)

lemma transfer_books_ok:
  assumes "books_ok w" and "run (pg D U) (TransferService_Transfer D U (transferSvc D) cmd) w = (r, w')"
  shows "books_ok w'"
  using transfers.Transfer_atomic [of w cmd r w'] assms ledger_ok_posted [of "settled_ledger w"]
  by (auto simp: books_ok_def transferSvc_def)

lemma history_books_ok: "history D U w0 w \<Longrightarrow> books_ok w0 \<Longrightarrow> books_ok w"
proof (induction rule: history.induct)
  case (environment w now faults)
  then show ?case by (simp add: books_ok_def pg_idle_def settled_ledger_def)
qed (blast intro: create_books_ok get_books_ok transfer_books_ok)+

lemma reachable_books_ok: "reachable D U w \<Longrightarrow> books_ok w"
  using history_books_ok initial_books_ok by (auto simp: reachable_def)

text \<open>Records are only ever added.\<close>

lemma history_extends:
  "history D U w0 w \<Longrightarrow> books_ok w0 \<Longrightarrow> ledger_extends (settled_ledger w0) (settled_ledger w)"
proof (induction rule: history.induct)
  case start
  then show ?case by simp
next
  case (create w i b r w')
  then have "ledger_extends (settled_ledger w) (settled_ledger w')"
    using create_contract [of w i b r w'] history_books_ok [OF create.hyps(1)] ledger_extends_open
    by (auto simp: books_ok_def)
  with create show ?case using ledger_extends_trans by blast
next
  case (get w i ra w')
  then show ?case
    using get_contract [of w i ra w'] history_books_ok [OF get.hyps(1)] by (simp add: books_ok_def)
next
  case (transfer w cmd rt w')
  then have "ledger_extends (settled_ledger w) (settled_ledger w')"
    using transfer_contract [of w cmd rt w'] history_books_ok [OF transfer.hyps(1)] ledger_extends_posted
    by (auto simp: books_ok_def)
  with transfer show ?case using ledger_extends_trans by blast
next
  case (environment w now faults)
  then show ?case by (simp add: settled_ledger_def)
qed

end

end
