(* ===== verification/Samples.thy ===== *)
theory Samples
  imports Service_System
begin

text \<open>
  Concrete worlds on the reference libraries, for the witnesses: the empty database, the database
  after two accounts were opened (account 1 with 100, account 2 with nothing), and the commands of
  the witnesses. The sample worlds are reachable ones.
\<close>

definition no_rows_world :: "nat list world" where
  "no_rows_world =
     \<lparr>committed = empty_tables,
      seqs = \<lparr>deposits_id_seq = 0, transfers_id_seq = 0, ledger_entries_id_seq = 0\<rparr>,
      txn = None, clock = 7, script = []\<rparr>"

definition one_account_world :: "nat list world" where
  "one_account_world =
     \<lparr>committed = \<lparr>accounts = [\<lparr>ar_id = 1, ar_balance = 100000000000000000000, ar_version = 0,
                                ar_created_at = 7, ar_updated_at = 7\<rparr>],
        deposits = [\<lparr>dr_id = 1, dr_account_id = 1, dr_amount = 100000000000000000000, dr_created_at = 7\<rparr>],
        transfers = [], ledger_entries = []\<rparr>,
      seqs = \<lparr>deposits_id_seq = 1, transfers_id_seq = 0, ledger_entries_id_seq = 0\<rparr>,
      txn = None, clock = 7, script = []\<rparr>"

definition sample_world :: "nat list world" where
  "sample_world =
     \<lparr>committed = \<lparr>accounts = [\<lparr>ar_id = 1, ar_balance = 100000000000000000000, ar_version = 0,
                                ar_created_at = 7, ar_updated_at = 7\<rparr>,
                               \<lparr>ar_id = 2, ar_balance = 0, ar_version = 0,
                                ar_created_at = 7, ar_updated_at = 7\<rparr>],
        deposits = [\<lparr>dr_id = 1, dr_account_id = 1, dr_amount = 100000000000000000000, dr_created_at = 7\<rparr>],
        transfers = [], ledger_entries = []\<rparr>,
      seqs = \<lparr>deposits_id_seq = 1, transfers_id_seq = 0, ledger_entries_id_seq = 0\<rparr>,
      txn = None, clock = 7, script = []\<rparr>"

text \<open>Transfer 30.5 from account 1 to account 2, with a key and without.\<close>

definition sample_cmd :: "refdec TransferCmd" where
  "sample_cmd = \<lparr>cmd_SourceID = 1, cmd_DestinationID = 2, cmd_Amount = (305, - 1),
     cmd_IdempotencyKey = sample_key\<rparr>"

text \<open>Send 30.5 back, without a key.\<close>

definition back_cmd :: "refdec TransferCmd" where
  "back_cmd = \<lparr>cmd_SourceID = 2, cmd_DestinationID = 1, cmd_Amount = (305, - 1), cmd_IdempotencyKey = []\<rparr>"

abbreviation ref_run where
  "ref_run \<equiv> run (pg ref_decimal ref_uuid)"

abbreviation ref_transfer :: "refdec TransferCmd \<Rightarrow> (refdec, go_error + refdec Transfer) prog" where
  "ref_transfer \<equiv> TransferService_Transfer ref_decimal ref_uuid (transferSvc ref_decimal)"

abbreviation ref_create :: "int64 \<Rightarrow> refdec \<Rightarrow> (refdec, go_error + unit) prog" where
  "ref_create \<equiv> AccountService_Create ref_decimal (accountSvc ref_decimal)"

lemma ref_laws: "decimal_laws ref_decimal" "uuid_laws ref_uuid"
  by (rule refdec.decimal_laws_axioms, rule uuid_laws_ref)

lemma sample_creates:
  "ref_run (ref_create 1 (100, 0)) no_rows_world = (Inr (), one_account_world)"
  "ref_run (ref_create 2 (0, 0)) one_account_world = (Inr (), sample_world)"
  by code_simp+

lemma one_account_books_ok: "books_ok one_account_world"
  by (rule refpg.create_books_ok [OF initial_books_ok sample_creates(1)])
    (simp add: initial_world_def no_rows_world_def)

lemma sample_history: "history ref_decimal ref_uuid no_rows_world sample_world"
  by (rule history.create [OF history.create [OF history.start sample_creates(1)] sample_creates(2)])

lemma sample_reachable: "reachable ref_decimal ref_uuid sample_world"
  unfolding reachable_def
  by (rule exI [of _ no_rows_world], rule conjI [OF _ sample_history])
    (simp add: initial_world_def no_rows_world_def)

lemma sample_books_ok: "books_ok sample_world"
  by (rule refpg.reachable_books_ok [OF sample_reachable])

lemma sample_idle: "pg_idle sample_world"
  using sample_books_ok by (simp add: books_ok_def)

text \<open>The sample world whose commit is acknowledged into a broken connection (its begin and eight
  statements go well).\<close>

definition lost_ack_world :: "nat list world" where
  "lost_ack_world = sample_world\<lparr>script := replicate 8 NoFault @ [LostAck ''conn closed'']\<rparr>"

lemma lost_ack_idle: "pg_idle lost_ack_world"
  using sample_idle by (simp add: lost_ack_world_def pg_idle_def)

text \<open>The world after the sample command went well.\<close>

definition paid_world :: "nat list world" where
  "paid_world = snd (ref_run (ref_transfer sample_cmd) sample_world)"

definition paid_transfer :: "refdec Transfer" where
  "paid_transfer = \<lparr>tr_ID = 1, tr_IdempotencyKey = Some sample_key, tr_SourceID = 1, tr_DestinationID = 2,
     tr_Amount = (305, - 1), tr_Status = StatusCompleted, tr_CreatedAt = 0\<rparr>"

lemma paid_run: "ref_run (ref_transfer sample_cmd) sample_world = (Inr paid_transfer, paid_world)"
proof -
  have "fst (ref_run (ref_transfer sample_cmd) sample_world) = Inr paid_transfer" by code_simp
  then show ?thesis by (simp add: paid_world_def prod_eq_iff)
qed

lemma paid_books_ok: "books_ok paid_world"
  by (rule refpg.transfer_books_ok [OF sample_books_ok paid_run])

lemma paid_reachable: "reachable ref_decimal ref_uuid paid_world"
  using sample_reachable history.transfer [OF _ paid_run] unfolding reachable_def by blast

lemma paid_calm: "pg_calm_idle 5 paid_world"
proof -
  have "script paid_world = [] \<and> room 5 (committed paid_world) (seqs paid_world)" by code_simp
  then show ?thesis using paid_books_ok by (simp add: pg_calm_idle_def books_ok_def)
qed

lemma sample_calm: "pg_calm_idle 5 sample_world"
  using sample_idle by (simp add: pg_calm_idle_def room_def) (simp add: sample_world_def)

text \<open>Account 2 almost full: one below the largest integer part that \<open>NUMERIC(38, 18)\<close> can hold.\<close>

definition full_world :: "nat list world" where
  "full_world = snd (ref_run (ref_create 2 (99999999999999999999, 0)) one_account_world)"

lemma full_calm: "pg_calm_idle 5 full_world"
proof -
  have "fst (ref_run (ref_create 2 (99999999999999999999, 0)) one_account_world) = Inr ()" by code_simp
  then have run: "ref_run (ref_create 2 (99999999999999999999, 0)) one_account_world = (Inr (), full_world)"
    by (simp only: full_world_def prod_eq_iff fst_conv snd_conv)
  have "books_ok full_world" by (rule refpg.create_books_ok [OF one_account_books_ok run])
  then have "pg_idle full_world" by (simp add: books_ok_def)
  moreover have "script full_world = [] \<and> room 5 (committed full_world) (seqs full_world)" by code_simp
  ultimately show ?thesis by (simp add: pg_calm_idle_def)
qed

text \<open>The sample command with its key written as a URN.\<close>

definition urn_cmd :: "refdec TransferCmd" where
  "urn_cmd = sample_cmd\<lparr>cmd_IdempotencyKey := ''urn:uuid:'' @ sample_key\<rparr>"

text \<open>The empty database, whose connection breaks at the insertion of the deposit.\<close>

definition broken_deposit_world :: "nat list world" where
  "broken_deposit_world = no_rows_world\<lparr>script := [NoFault, NoFault, ConnError ''reset'']\<rparr>"

lemma initial_idle: "initial_world w \<Longrightarrow> pg_idle w"
  by (drule initial_books_ok) (simp add: books_ok_def)

lemma broken_deposit_idle: "pg_idle broken_deposit_world"
  by (rule initial_idle) (simp add: initial_world_def broken_deposit_world_def no_rows_world_def)

text \<open>The sample world, whose server reports a deadlock at the \<open>k\<close>-th interaction to come.\<close>

definition deadlock_world :: "nat \<Rightarrow> nat list world" where
  "deadlock_world k = sample_world\<lparr>script := replicate k NoFault @ [ServerError ''40P01'' [] ''deadlock detected'']\<rparr>"

abbreviation ref_attempt :: "(refdec, go_error + refdec Transfer) prog" where
  "ref_attempt \<equiv> runOnce (TransferService_body ref_decimal (transferSvc ref_decimal) sample_cmd)"

definition deadlocked_world :: "nat list world" where
  "deadlocked_world = snd (ref_run ref_attempt (deadlock_world 3))"

lemma deadlock_attempt:
  "attempts (pg ref_decimal ref_uuid) (TransferService_body ref_decimal (transferSvc ref_decimal) sample_cmd)
     [fst (ref_run ref_attempt (deadlock_world 3))] (deadlock_world 3) deadlocked_world"
  by (simp add: deadlocked_world_def prod_eq_iff)

lemma deadlock_retryable: "retryable_result (fst (ref_run ref_attempt (deadlock_world 3)))"
proof -
  have "case_sum isRetryable (\<lambda>_. False) (fst (ref_run ref_attempt (deadlock_world 3)))" by code_simp
  then show ?thesis by (auto simp: retryable_result_def split: sum.splits)
qed

lemma deadlock_idle: "pg_idle (deadlock_world k)"
  using sample_idle by (simp add: deadlock_world_def pg_idle_def)

lemma deadlocked_calm: "pg_calm_idle 5 deadlocked_world"
proof -
  have amt: "validateAmount ref_decimal (cmd_Amount sample_cmd) = None"
    "cmd_SourceID sample_cmd \<noteq> cmd_DestinationID sample_cmd" by code_simp+
  have "pg_idle deadlocked_world"
    using attempts_idle [OF deadlock_attempt _ deadlock_idle
        refpg.transfers.body_ensures [OF amt, folded transferSvc_def]] deadlock_retryable by simp
  moreover have "script deadlocked_world = [] \<and> room 5 (committed deadlocked_world) (seqs deadlocked_world)"
    by code_simp
  ultimately show ?thesis by (simp add: pg_calm_idle_def)
qed

end
