(* ===== verification/Effects.thy ===== *)
theory Effects
  imports Prelude
begin

text \<open>
  Go code that changes a state \<open>'s\<close> and may panic: a function of the state that answers a value or
  the panic, with the state it leaves. The request layer, the metrics and the process are written
  with it. \<open>runs_ok P p Q\<close> is the triple the safety lemmas of those layers use: from a state in \<open>P\<close>
  the code does not panic and ends in \<open>Q\<close>.
\<close>

named_theorems io_simps "unfolding effects on a concrete state"
named_theorems ok_intros "effects that do not panic"

datatype 'a outcome = Value 'a | Panic string

type_synonym ('s, 'a) io = "'s \<Rightarrow> 'a outcome \<times> 's"

definition ret :: "'a \<Rightarrow> ('s, 'a) io" where
  "ret x s = (Value x, s)"

definition bind_io :: "('s, 'a) io \<Rightarrow> ('a \<Rightarrow> ('s, 'b) io) \<Rightarrow> ('s, 'b) io" where
  "bind_io p f s = (case p s of (Value x, s') \<Rightarrow> f x s' | (Panic m, s') \<Rightarrow> (Panic m, s'))"

definition next_io :: "('s, 'a) io \<Rightarrow> ('s, 'b) io \<Rightarrow> ('s, 'b) io" where
  "next_io p q = bind_io p (\<lambda>_. q)"

definition gets :: "('s \<Rightarrow> 'a) \<Rightarrow> ('s, 'a) io" where
  "gets f s = (Value (f s), s)"

definition modify :: "('s \<Rightarrow> 's) \<Rightarrow> ('s, unit) io" where
  "modify f s = (Value (), f s)"

text \<open>\<open>defer func() { if r := recover(); r != nil { ... } }()\<close> around the rest of a function.\<close>

definition recovering :: "(string \<Rightarrow> ('s, unit) io) \<Rightarrow> ('s, unit) io \<Rightarrow> ('s, unit) io" where
  "recovering handle p s = (case p s of (Value u, s') \<Rightarrow> (Value u, s') | (Panic r, s') \<Rightarrow> handle r s')"

text \<open>\<open>defer d()\<close> for a \<open>d\<close> that does not panic: it runs after the rest of the function on every path.\<close>

definition deferring :: "('s, unit) io \<Rightarrow> ('s, 'a) io \<Rightarrow> ('s, 'a) io" where
  "deferring d p s = (case p s of (r, s') \<Rightarrow> (r, snd (d s')))"

lemma io_eval [io_simps]:
  "ret x s = (Value x, s)" "gets f s = (Value (f s), s)" "modify g s = (Value (), g s)"
  "bind_io p k s = (case p s of (Value x, s') \<Rightarrow> k x s' | (Panic m, s') \<Rightarrow> (Panic m, s'))"
  "next_io p q s = (case p s of (Value x, s') \<Rightarrow> q s' | (Panic m, s') \<Rightarrow> (Panic m, s'))"
  "deferring d p s = (case p s of (r, s') \<Rightarrow> (r, snd (d s')))"
  by (simp_all add: ret_def gets_def modify_def bind_io_def next_io_def deferring_def)

definition runs_ok :: "('s \<Rightarrow> bool) \<Rightarrow> ('s, 'a) io \<Rightarrow> ('a \<Rightarrow> 's \<Rightarrow> bool) \<Rightarrow> bool" where
  "runs_ok P p Q \<longleftrightarrow> (\<forall>s. P s \<longrightarrow> (\<exists>x s'. p s = (Value x, s') \<and> Q x s'))"

lemma runs_okD: "runs_ok P p Q \<Longrightarrow> P s \<Longrightarrow> \<exists>x s'. p s = (Value x, s') \<and> Q x s'"
  by (simp add: runs_ok_def)

lemma runs_okE:
  assumes "runs_ok P p Q" and "P s" and "p s = (r, s')"
  obtains x where "r = Value x" and "Q x s'"
  using assms unfolding runs_ok_def by (metis prod.inject)

lemma runs_ok_ret: "(\<And>s. P s \<Longrightarrow> Q x s) \<Longrightarrow> runs_ok P (ret x) Q"
  by (simp add: runs_ok_def ret_def)

lemma runs_ok_gets: "(\<And>s. P s \<Longrightarrow> Q (f s) s) \<Longrightarrow> runs_ok P (gets f) Q"
  by (simp add: runs_ok_def gets_def)

lemma runs_ok_modify: "(\<And>s. P s \<Longrightarrow> Q () (f s)) \<Longrightarrow> runs_ok P (modify f) Q"
  by (simp add: runs_ok_def modify_def)

lemma runs_ok_bind:
  "runs_ok P p R \<Longrightarrow> (\<And>x. runs_ok (R x) (f x) Q) \<Longrightarrow> runs_ok P (bind_io p f) Q"
  by (fastforce simp: runs_ok_def bind_io_def)

lemma runs_ok_next:
  "runs_ok P p (\<lambda>_. R) \<Longrightarrow> runs_ok R q Q \<Longrightarrow> runs_ok P (next_io p q) Q"
  unfolding next_io_def by (rule runs_ok_bind)

lemma runs_ok_weaken:
  "runs_ok P p Q \<Longrightarrow> (\<And>s. P' s \<Longrightarrow> P s) \<Longrightarrow> (\<And>x s. Q x s \<Longrightarrow> Q' x s) \<Longrightarrow> runs_ok P' p Q'"
  by (fastforce simp: runs_ok_def)

text \<open>Keeping an invariant without a panic.\<close>

abbreviation keeps :: "('s \<Rightarrow> bool) \<Rightarrow> ('s, 'a) io \<Rightarrow> bool" where
  "keeps I p \<equiv> runs_ok I p (\<lambda>_. I)"

lemma keeps_ret [ok_intros]: "keeps I (ret x)"
  by (rule runs_ok_ret)

lemma keeps_gets [ok_intros]: "keeps I (gets f)"
  by (rule runs_ok_gets)

lemma keeps_bind [ok_intros]: "keeps I p \<Longrightarrow> (\<And>x. keeps I (f x)) \<Longrightarrow> keeps I (bind_io p f)"
  by (rule runs_ok_bind)

lemma keeps_next [ok_intros]: "keeps I p \<Longrightarrow> keeps I q \<Longrightarrow> keeps I (next_io p q)"
  by (rule runs_ok_next)

end
