(* ===== verification/Metrics.thy ===== *)
theory Metrics
  imports Effects
begin

text \<open>
  \<open>internal/observability/metrics.go\<close>: the application's Prometheus collectors. A collector is the
  value its scrape shows: a counter vector counts per tuple of label values, a histogram keeps the
  observations it was given (durations in nanoseconds), a gauge a number. The documented panics of
  the client library are part of the model: registering a name twice, and \<open>WithLabelValues\<close> with a
  number of values that differs from the number of labels.
\<close>

subsection \<open>Collectors\<close>

record counter_vec =
  cv_name :: string
  cv_labels :: "string list"
  cv_count :: "string list \<Rightarrow> nat"

record histogram_vec =
  hv_name :: string
  hv_buckets :: "rat list option"
  hv_labels :: "string list"
  hv_observations :: "string list \<Rightarrow> int list"

record gauge =
  g_name :: string
  g_value :: int

definition NewCounterVec :: "string \<Rightarrow> string list \<Rightarrow> counter_vec" where
  "NewCounterVec name labels = \<lparr>cv_name = name, cv_labels = labels, cv_count = (\<lambda>_. 0)\<rparr>"

text \<open>\<open>None\<close> stands for \<open>prometheus.DefBuckets\<close>. A plain histogram has no labels.\<close>

definition NewHistogramVec :: "string \<Rightarrow> rat list option \<Rightarrow> string list \<Rightarrow> histogram_vec" where
  "NewHistogramVec name buckets labels =
     \<lparr>hv_name = name, hv_buckets = buckets, hv_labels = labels, hv_observations = (\<lambda>_. [])\<rparr>"

definition NewGauge :: "string \<Rightarrow> gauge" where
  "NewGauge name = \<lparr>g_name = name, g_value = 0\<rparr>"

subsection \<open>Metrics\<close>

record Metrics =
  HTTPRequests :: counter_vec
  HTTPDuration :: histogram_vec
  Transfers :: counter_vec
  TransferLatency :: histogram_vec
  AccountsCreated :: counter_vec
  IdempotencyHits :: counter_vec
  Errors :: counter_vec
  DBTotalConns :: gauge
  DBIdleConns :: gauge
  DBAcquiredConns :: gauge
  DBQueryDuration :: histogram_vec

definition fresh_metrics :: Metrics where
  "fresh_metrics =
     \<lparr>HTTPRequests = NewCounterVec ''http_requests_total'' [''route'', ''method'', ''status''],
      HTTPDuration = NewHistogramVec ''http_request_duration_seconds'' None [''route'', ''method''],
      Transfers = NewCounterVec ''transfers_total'' [''status''],
      TransferLatency = NewHistogramVec ''transfer_processing_duration_seconds'' None [],
      AccountsCreated = NewCounterVec ''accounts_created_total'' [''result''],
      IdempotencyHits = NewCounterVec ''idempotency_requests_total'' [''result''],
      Errors = NewCounterVec ''transfers_errors_total'' [''type'', ''layer''],
      DBTotalConns = NewGauge ''db_pool_total_conns'',
      DBIdleConns = NewGauge ''db_pool_idle_conns'',
      DBAcquiredConns = NewGauge ''db_pool_acquired_conns'',
      DBQueryDuration = NewHistogramVec ''db_query_duration_seconds''
        (Some [5 / 10000, 1 / 1000, 25 / 10000, 5 / 1000, 1 / 100, 25 / 1000, 5 / 100, 1 / 10,
               25 / 100, 5 / 10, 1, 5 / 2]) [''operation'']\<rparr>"

text \<open>The names in the order of their registration.\<close>

definition collector_names :: "Metrics \<Rightarrow> string list" where
  "collector_names m =
     [cv_name (HTTPRequests m), hv_name (HTTPDuration m), cv_name (Transfers m),
      hv_name (TransferLatency m), cv_name (AccountsCreated m), cv_name (IdempotencyHits m),
      cv_name (Errors m), g_name (DBTotalConns m), g_name (DBIdleConns m),
      g_name (DBAcquiredConns m), hv_name (DBQueryDuration m)]"

text \<open>\<open>MustRegister\<close> on a registry that holds the names \<open>reg\<close>.\<close>

definition MustRegister :: "string \<Rightarrow> (string list, unit) io" where
  "MustRegister name reg =
     (if name \<in> set reg then (Panic ''duplicate metrics collector registration attempted'', reg)
      else (Value (), reg @ [name]))"

fun register_all :: "string list \<Rightarrow> (string list, unit) io" where
  "register_all [] = ret ()"
| "register_all (name # names) = next_io (MustRegister name) (register_all names)"

definition NewMetrics :: "(string list, Metrics) io" where
  "NewMetrics = next_io (register_all (collector_names fresh_metrics)) (ret fresh_metrics)"

subsection \<open>Recording\<close>

definition cv_inc :: "string list \<Rightarrow> counter_vec \<Rightarrow> counter_vec" where
  "cv_inc vals c = c\<lparr>cv_count := (cv_count c)(vals := Suc (cv_count c vals))\<rparr>"

definition hv_observe :: "string list \<Rightarrow> int \<Rightarrow> histogram_vec \<Rightarrow> histogram_vec" where
  "hv_observe vals d h = h\<lparr>hv_observations := (hv_observations h)(vals := hv_observations h vals @ [d])\<rparr>"

text \<open>\<open>m.X.WithLabelValues(vals...).Inc()\<close> and \<open>m.X.WithLabelValues(vals...).Observe(d)\<close>, for the
  collector with the given selector and update.\<close>

definition with_labels_inc ::
    "(Metrics \<Rightarrow> counter_vec) \<Rightarrow> ((counter_vec \<Rightarrow> counter_vec) \<Rightarrow> Metrics \<Rightarrow> Metrics) \<Rightarrow> string list \<Rightarrow>
     (Metrics, unit) io" where
  "with_labels_inc sel upd vals m =
     (if length vals \<noteq> length (cv_labels (sel m)) then (Panic ''inconsistent label cardinality'', m)
      else (Value (), upd (cv_inc vals) m))"

definition with_labels_observe ::
    "(Metrics \<Rightarrow> histogram_vec) \<Rightarrow> ((histogram_vec \<Rightarrow> histogram_vec) \<Rightarrow> Metrics \<Rightarrow> Metrics) \<Rightarrow> string list \<Rightarrow>
     int \<Rightarrow> (Metrics, unit) io" where
  "with_labels_observe sel upd vals d m =
     (if length vals \<noteq> length (hv_labels (sel m)) then (Panic ''inconsistent label cardinality'', m)
      else (Value (), upd (hv_observe vals d) m))"

subsection \<open>Well-labelled metrics\<close>

text \<open>The label names that the call sites rely on.\<close>

definition metrics_ok :: "Metrics \<Rightarrow> bool" where
  "metrics_ok m \<longleftrightarrow>
     length (cv_labels (HTTPRequests m)) = 3 \<and> length (hv_labels (HTTPDuration m)) = 2 \<and>
     length (cv_labels (Transfers m)) = 1 \<and> length (hv_labels (TransferLatency m)) = 0 \<and>
     length (cv_labels (AccountsCreated m)) = 1 \<and> length (cv_labels (IdempotencyHits m)) = 1 \<and>
     length (cv_labels (Errors m)) = 2 \<and> length (hv_labels (DBQueryDuration m)) = 1"

lemma cv_inc_sel [simp]:
  "cv_name (cv_inc vals c) = cv_name c" "cv_labels (cv_inc vals c) = cv_labels c"
  "cv_count (cv_inc vals c) = (cv_count c)(vals := Suc (cv_count c vals))"
  by (simp_all add: cv_inc_def)

lemma hv_observe_sel [simp]:
  "hv_name (hv_observe vals d h) = hv_name h" "hv_labels (hv_observe vals d h) = hv_labels h"
  "hv_buckets (hv_observe vals d h) = hv_buckets h"
  "hv_observations (hv_observe vals d h) =
     (hv_observations h)(vals := hv_observations h vals @ [d])"
  by (simp_all add: hv_observe_def)

lemma metrics_ok_fresh [simp]: "metrics_ok fresh_metrics"
  by (simp add: metrics_ok_def fresh_metrics_def NewCounterVec_def NewHistogramVec_def)

lemma register_all_ok:
  "distinct (reg @ names) \<Longrightarrow> register_all names reg = (Value (), reg @ names)"
  by (induction names arbitrary: reg) (auto simp: io_simps MustRegister_def)

lemma register_all_duplicate:
  "\<not> distinct (reg @ names) \<Longrightarrow> distinct reg \<Longrightarrow> \<exists>m reg'. register_all names reg = (Panic m, reg')"
proof (induction names arbitrary: reg)
  case Nil
  then show ?case by simp
next
  case (Cons a names)
  show ?case
  proof (cases "a \<in> set reg")
    case True
    then show ?thesis by (simp add: io_simps MustRegister_def)
  next
    case False
    with Cons.prems have "\<not> distinct ((reg @ [a]) @ names)" "distinct (reg @ [a])" by auto
    with Cons.IH [of "reg @ [a]"] False show ?thesis by (simp add: io_simps MustRegister_def)
  qed
qed

end
