(* ===== verification/Http.thy ===== *)
theory Http
  imports Metrics Querier
begin

text \<open>
  What the request layer works on: the request context of the HTTP framework (\<open>app.RequestContext\<close>
  of cloudwego/hertz: the parts of a request the handlers read, the response they fill in), the data
  types of \<open>internal/api/dto.go\<close>, and the state of the server process that the handlers share: the
  database, the metrics, the log, and the clock and the UUID generator they read.

  JSON is not part of the repository: \<open>json_codec\<close> is what \<open>BindJSON\<close> makes of a body (\<open>None\<close> for an
  error), and a response body is kept as the value that is rendered.
\<close>

subsection \<open>dto.go\<close>

record 'd CreateAccountRequest =
  car_AccountID :: int64
  car_InitialBalance :: 'd

record 'd AccountResponse =
  ar_AccountID :: int64
  ar_Balance :: 'd

record 'd TransferRequest =
  trq_SourceAccountID :: int64
  trq_DestinationAccountID :: int64
  trq_Amount :: 'd

record 'd TransactionResponse =
  trs_TransactionID :: int64
  trs_SourceAccountID :: int64
  trs_DestinationAccountID :: int64
  trs_Amount :: 'd
  trs_Status :: string

record ErrorResponse =
  er_Error :: string

record ReadyResponse =
  rr_Status :: string
  rr_Checks :: "(string \<times> string) list"

datatype 'd body =
    BodyAccount "'d AccountResponse"
  | BodyTransaction "'d TransactionResponse"
  | BodyError ErrorResponse
  | BodyReady ReadyResponse
  | BodyStrings "(string \<times> string) list"

record 'd json_codec =
  BindCreateAccount :: "string \<Rightarrow> 'd CreateAccountRequest option"
  BindTransfer :: "string \<Rightarrow> 'd TransferRequest option"

subsection \<open>The request context\<close>

text \<open>A header or route parameter that is absent reads as the empty string. The status of a response
  that nobody set is 200.\<close>

record 'd RequestContext =
  rc_Method :: string
  rc_Path :: string
  rc_FullPath :: string
  rc_headers :: "string \<Rightarrow> string"
  rc_params :: "string \<Rightarrow> string"
  rc_body :: string
  rc_keys :: "string \<Rightarrow> string"
  rc_response_headers :: "string \<Rightarrow> string"
  rc_StatusCode :: int
  rc_response :: "'d body option"
  rc_aborted :: bool

subsection \<open>The server's state\<close>

datatype level = LevelDebug | LevelInfo | LevelWarn | LevelError

datatype log_value = LogString string | LogInt int | LogError go_error

record log_line =
  log_level :: level
  log_msg :: string
  log_attrs :: "(string \<times> log_value) list"

text \<open>\<open>srv_clock n\<close> is what the \<open>n\<close>-th reading of the clock returns, in nanoseconds, and
  \<open>srv_uuids n\<close> the \<open>n\<close>-th generated UUID; \<open>srv_reads\<close> and \<open>srv_fresh\<close> count them.
  \<open>srv_shuttingDown\<close> is the flag of the \<open>HealthHandler\<close>, and \<open>srv_ping n\<close> tells whether the database
  answers the \<open>n\<close>-th ping in time.\<close>

record ('d, 'w) server =
  srv_db :: 'w
  srv_metrics :: Metrics
  srv_log :: "log_line list"
  srv_clock :: "nat \<Rightarrow> int"
  srv_reads :: nat
  srv_uuids :: "nat \<Rightarrow> string"
  srv_fresh :: nat
  srv_shuttingDown :: bool
  srv_ping :: "nat \<Rightarrow> bool"
  srv_pings :: nat
  srv_ctx :: "'d RequestContext"

type_synonym ('d, 'w, 'a) http = "(('d, 'w) server, 'a) io"

definition read_ctx :: "('d RequestContext \<Rightarrow> 'a) \<Rightarrow> ('d, 'w, 'a) http" where
  "read_ctx f = gets (\<lambda>s. f (srv_ctx s))"

definition set_ctx :: "('d RequestContext \<Rightarrow> 'd RequestContext) \<Rightarrow> ('d, 'w, unit) http" where
  "set_ctx f = modify (\<lambda>s. s\<lparr>srv_ctx := f (srv_ctx s)\<rparr>)"

definition SetKey :: "string \<Rightarrow> string \<Rightarrow> ('d, 'w, unit) http" where
  "SetKey k v = set_ctx (\<lambda>c. c\<lparr>rc_keys := (rc_keys c)(k := v)\<rparr>)"

definition SetHeader :: "string \<Rightarrow> string \<Rightarrow> ('d, 'w, unit) http" where
  "SetHeader k v = set_ctx (\<lambda>c. c\<lparr>rc_response_headers := (rc_response_headers c)(k := v)\<rparr>)"

definition Status :: "int \<Rightarrow> ('d, 'w, unit) http" where
  "Status code = set_ctx (\<lambda>c. c\<lparr>rc_StatusCode := code\<rparr>)"

definition JSON :: "int \<Rightarrow> 'd body \<Rightarrow> ('d, 'w, unit) http" where
  "JSON code b = set_ctx (\<lambda>c. c\<lparr>rc_StatusCode := code, rc_response := Some b\<rparr>)"

definition AbortWithStatusJSON :: "int \<Rightarrow> 'd body \<Rightarrow> ('d, 'w, unit) http" where
  "AbortWithStatusJSON code b = next_io (set_ctx (\<lambda>c. c\<lparr>rc_aborted := True\<rparr>)) (JSON code b)"

definition Now :: "('d, 'w, int) http" where
  "Now s = (Value (srv_clock s (srv_reads s)), s\<lparr>srv_reads := Suc (srv_reads s)\<rparr>)"

definition NewUUID :: "('d, 'w, string) http" where
  "NewUUID s = (Value (srv_uuids s (srv_fresh s)), s\<lparr>srv_fresh := Suc (srv_fresh s)\<rparr>)"

text \<open>\<open>pool.Ping\<close>.\<close>

definition Ping :: "('d, 'w, bool) http" where
  "Ping s = (Value (srv_ping s (srv_pings s)), s\<lparr>srv_pings := Suc (srv_pings s)\<rparr>)"

definition log_at :: "level \<Rightarrow> string \<Rightarrow> (string \<times> log_value) list \<Rightarrow> ('d, 'w, unit) http" where
  "log_at lvl msg attrs =
     modify (\<lambda>s. s\<lparr>srv_log := srv_log s @ [\<lparr>log_level = lvl, log_msg = msg, log_attrs = attrs\<rparr>]\<rparr>)"

text \<open>An effect on the metrics, and a program run on the database.\<close>

definition on_metrics :: "(Metrics, unit) io \<Rightarrow> ('d, 'w, unit) http" where
  "on_metrics p s = (case p (srv_metrics s) of (r, m) \<Rightarrow> (r, s\<lparr>srv_metrics := m\<rparr>))"

definition on_db :: "('d, 'w) handler \<Rightarrow> ('d, 'a) prog \<Rightarrow> ('d, 'w, 'a) http" where
  "on_db h p s = (case run h p (srv_db s) of (r, w) \<Rightarrow> (Value r, s\<lparr>srv_db := w\<rparr>))"

definition inc :: "(Metrics \<Rightarrow> counter_vec) \<Rightarrow> ((counter_vec \<Rightarrow> counter_vec) \<Rightarrow> Metrics \<Rightarrow> Metrics) \<Rightarrow>
    string list \<Rightarrow> ('d, 'w, unit) http" where
  "inc sel upd vals = on_metrics (with_labels_inc sel upd vals)"

definition observe :: "(Metrics \<Rightarrow> histogram_vec) \<Rightarrow> ((histogram_vec \<Rightarrow> histogram_vec) \<Rightarrow> Metrics \<Rightarrow> Metrics) \<Rightarrow>
    string list \<Rightarrow> int \<Rightarrow> ('d, 'w, unit) http" where
  "observe sel upd vals d = on_metrics (with_labels_observe sel upd vals d)"

text \<open>\<open>time.Duration.Milliseconds()\<close>: division that truncates towards zero.\<close>

definition Milliseconds :: "int \<Rightarrow> int" where
  "Milliseconds d = (if d < 0 then - (- d div 1000000) else d div 1000000)"

lemmas http_defs = read_ctx_def set_ctx_def SetKey_def SetHeader_def Status_def JSON_def
  AbortWithStatusJSON_def Now_def NewUUID_def Ping_def log_at_def on_metrics_def on_db_def inc_def
  observe_def with_labels_inc_def with_labels_observe_def

subsection \<open>Effects that keep the server well formed\<close>

text \<open>\<open>server_ok\<close>: the metrics have the labels their call sites give values for, so that recording
  does not panic.\<close>

definition server_ok :: "('d, 'w) server \<Rightarrow> bool" where
  "server_ok s \<longleftrightarrow> metrics_ok (srv_metrics s)"

text \<open>\<open>server_kept True\<close> is a server that drains: its flag is set.\<close>

definition server_kept :: "bool \<Rightarrow> ('d, 'w) server \<Rightarrow> bool" where
  "server_kept b s \<longleftrightarrow> server_ok s \<and> (b \<longrightarrow> srv_shuttingDown s)"

lemma server_kept_False [simp]: "server_kept False s = server_ok s"
  by (simp add: server_kept_def)

lemma keeps_ctx [ok_intros]:
  "keeps (server_kept b) (read_ctx f)" "keeps (server_kept b) (set_ctx g)" "keeps (server_kept b) (SetKey k v)"
  "keeps (server_kept b) (SetHeader k v)" "keeps (server_kept b) (Status c)" "keeps (server_kept b) (JSON c r)"
  "keeps (server_kept b) (AbortWithStatusJSON c r)" "keeps (server_kept b) Now" "keeps (server_kept b) NewUUID" "keeps (server_kept b) Ping"
  "keeps (server_kept b) (log_at lvl msg attrs)" "keeps (server_kept b) (on_db h p)"
  by (auto simp: runs_ok_def server_kept_def server_ok_def http_defs io_simps split: prod.split)

lemma keeps_inc [ok_intros]:
  "length vals = 3 \<Longrightarrow> keeps (server_kept b) (inc HTTPRequests HTTPRequests_update vals)"
  "length vals = 1 \<Longrightarrow> keeps (server_kept b) (inc Transfers Transfers_update vals)"
  "length vals = 1 \<Longrightarrow> keeps (server_kept b) (inc AccountsCreated AccountsCreated_update vals)"
  "length vals = 1 \<Longrightarrow> keeps (server_kept b) (inc IdempotencyHits IdempotencyHits_update vals)"
  "length vals = 2 \<Longrightarrow> keeps (server_kept b) (inc Errors Errors_update vals)"
  by (auto simp: runs_ok_def server_kept_def server_ok_def metrics_ok_def http_defs)

lemma keeps_observe [ok_intros]:
  "length vals = 2 \<Longrightarrow> keeps (server_kept b) (observe HTTPDuration HTTPDuration_update vals d)"
  "length vals = 0 \<Longrightarrow> keeps (server_kept b) (observe TransferLatency TransferLatency_update vals d)"
  "length vals = 1 \<Longrightarrow> keeps (server_kept b) (observe DBQueryDuration DBQueryDuration_update vals d)"
  by (auto simp: runs_ok_def server_kept_def server_ok_def metrics_ok_def http_defs)

end
