(* ===== verification/Api.thy ===== *)
theory Api
  imports Http Account_Service Transfer_Service
begin

text \<open>
  \<open>internal/api\<close>: the error mapping and the responder (\<open>response.go\<close>), the middlewares
  (\<open>middleware.go\<close>), the account and transaction handlers and the routes. A handler is an effect on
  the server's state; a middleware takes the rest of its chain (\<open>c.Next\<close>). The metrics and the log
  that the handlers hold pointers to are those of the server's state.
\<close>

subsection \<open>response.go\<close>

definition errorMapping :: "go_error \<Rightarrow> int \<times> string" where
  "errorMapping err =
     (if errors_Is err ErrInvalidAmount then (400, ''invalid_amount'')
      else if errors_Is err ErrInvalidAccountID then (400, ''invalid_account_id'')
      else if errors_Is err ErrSameAccount then (400, ''same_account'')
      else if errors_Is err ErrInvalidIdempotency then (400, ''invalid_idempotency_key'')
      else if errors_Is err ErrAccountNotFound then (404, ''account_not_found'')
      else if errors_Is err ErrAccountAlreadyExists then (409, ''account_already_exists'')
      else if errors_Is err ErrInsufficientFunds then (409, ''insufficient_funds'')
      else if errors_Is err ErrIdempotencyConflict then (422, ''idempotency_conflict'')
      else (500, ''internal''))"

definition Responder_Error :: "string \<Rightarrow> go_error \<Rightarrow> ('d, 'w, unit) http" where
  "Responder_Error layer err =
     (case errorMapping err of (status, errType) \<Rightarrow>
        next_io (inc Errors Errors_update [errType, layer])
       (bind_io
          (if status \<ge> 500 then
             bind_io (read_ctx (\<lambda>c. rc_keys c ''request_id'')) (\<lambda>request_id.
             bind_io (read_ctx rc_Method) (\<lambda>meth.
             bind_io (read_ctx rc_Path) (\<lambda>path.
             next_io (log_at LevelError ''request failed''
                [(''request_id'', LogString request_id), (''method'', LogString meth),
                 (''path'', LogString path), (''type'', LogString errType),
                 (''layer'', LogString layer), (''error'', LogError err)])
             (ret ''internal server error''))))
           else ret (error_text err))
        (\<lambda>msg. JSON status (BodyError \<lparr>er_Error = msg\<rparr>))))"

definition Responder_BadRequest :: "string \<Rightarrow> string \<Rightarrow> ('d, 'w, unit) http" where
  "Responder_BadRequest errType msg =
     next_io (inc Errors Errors_update [errType, ''handler''])
       (JSON 400 (BodyError \<lparr>er_Error = msg\<rparr>))"

subsection \<open>account_handler.go\<close>

record 'd AccountHandler =
  ah_svc :: "'d AccountService"

definition NewAccountHandler :: "'d AccountService \<Rightarrow> 'd AccountHandler" where
  "NewAccountHandler svc = \<lparr>ah_svc = svc\<rparr>"

definition AccountHandler_Create ::
    "'d decimal_ops \<Rightarrow> 'd json_codec \<Rightarrow> ('d, 'w) handler \<Rightarrow> 'd AccountHandler \<Rightarrow> ('d, 'w, unit) http" where
  "AccountHandler_Create D J h ah =
     bind_io (read_ctx rc_body) (\<lambda>body.
     case BindCreateAccount J body of
       None \<Rightarrow> Responder_BadRequest ''invalid_request'' ''invalid request body''
     | Some req \<Rightarrow>
         bind_io (on_db h (AccountService_Create D (ah_svc ah) (car_AccountID req) (car_InitialBalance req))) (\<lambda>r.
         case r of
           Inl err \<Rightarrow>
             next_io (inc AccountsCreated AccountsCreated_update [''error''])
               (Responder_Error ''service'' err)
         | Inr _ \<Rightarrow>
             next_io (inc AccountsCreated AccountsCreated_update [''ok'']) (Status 201)))"

definition AccountHandler_Get :: "('d, 'w) handler \<Rightarrow> 'd AccountHandler \<Rightarrow> ('d, 'w, unit) http" where
  "AccountHandler_Get h ah =
     bind_io (read_ctx (\<lambda>c. rc_params c ''account_id'')) (\<lambda>param.
     case ParseInt64 param of
       None \<Rightarrow> Responder_BadRequest ''invalid_request'' ''invalid account id''
     | Some i \<Rightarrow>
         bind_io (on_db h (AccountService_Get (ah_svc ah) i)) (\<lambda>r.
         case r of
           Inl err \<Rightarrow> Responder_Error ''service'' err
         | Inr account \<Rightarrow>
             JSON 200 (BodyAccount \<lparr>ar_AccountID = acc_ID account, ar_Balance = acc_Balance account\<rparr>)))"

subsection \<open>transaction_handler.go\<close>

definition idempotencyHeader :: string where
  "idempotencyHeader = ''Idempotency-Key''"

record 'd TransactionHandler =
  th_svc :: "'d TransferService"

definition NewTransactionHandler :: "'d TransferService \<Rightarrow> 'd TransactionHandler" where
  "NewTransactionHandler svc = \<lparr>th_svc = svc\<rparr>"

definition transfer_cmd :: "'d TransferRequest \<Rightarrow> string \<Rightarrow> 'd TransferCmd" where
  "transfer_cmd req key =
     \<lparr>cmd_SourceID = trq_SourceAccountID req, cmd_DestinationID = trq_DestinationAccountID req,
      cmd_Amount = trq_Amount req, cmd_IdempotencyKey = key\<rparr>"

definition transaction_response :: "'d Transfer \<Rightarrow> 'd TransactionResponse" where
  "transaction_response t =
     \<lparr>trs_TransactionID = tr_ID t, trs_SourceAccountID = tr_SourceID t,
      trs_DestinationAccountID = tr_DestinationID t, trs_Amount = tr_Amount t, trs_Status = tr_Status t\<rparr>"

definition TransactionHandler_Transfer ::
    "'d decimal_ops \<Rightarrow> 'u uuid_ops \<Rightarrow> 'd json_codec \<Rightarrow> ('d, 'w) handler \<Rightarrow> 'd TransactionHandler \<Rightarrow>
     ('d, 'w, unit) http" where
  "TransactionHandler_Transfer D U J h th =
     bind_io (read_ctx rc_body) (\<lambda>body.
     case BindTransfer J body of
       None \<Rightarrow> Responder_BadRequest ''invalid_request'' ''invalid request body''
     | Some req \<Rightarrow>
         bind_io (read_ctx (\<lambda>c. rc_headers c idempotencyHeader)) (\<lambda>key.
         next_io (inc IdempotencyHits IdempotencyHits_update [if key \<noteq> '''' then ''with_key'' else ''no_key''])
        (bind_io Now (\<lambda>start.
         bind_io (on_db h (TransferService_Transfer D U (th_svc th) (transfer_cmd req key))) (\<lambda>r.
         bind_io Now (\<lambda>stop.
         next_io (observe TransferLatency TransferLatency_update [] (stop - start))
        (case r of
           Inl err \<Rightarrow>
             next_io (inc Transfers Transfers_update [''failed'']) (Responder_Error ''service'' err)
         | Inr t \<Rightarrow>
             next_io (inc Transfers Transfers_update [''completed''])
               (JSON 200 (BodyTransaction (transaction_response t)))))))))) "

subsection \<open>middleware.go\<close>

type_synonym ('d, 'w) middleware = "('d, 'w, unit) http \<Rightarrow> ('d, 'w, unit) http"

definition requestIDHeader :: string where
  "requestIDHeader = ''X-Request-Id''"

definition RequestID :: "('d, 'w) middleware" where
  "RequestID next_handler =
     bind_io (read_ctx (\<lambda>c. rc_headers c requestIDHeader)) (\<lambda>header.
     bind_io (if header = '''' then NewUUID else ret header) (\<lambda>i.
     next_io (SetKey ''request_id'' i)
    (next_io (SetHeader requestIDHeader i) next_handler)))"

definition statusClass :: "int \<Rightarrow> string" where
  "statusClass code =
     (if code \<ge> 500 then ''5xx'' else if code \<ge> 400 then ''4xx'' else if code \<ge> 300 then ''3xx''
      else if code \<ge> 200 then ''2xx'' else ''other'')"

definition Observe :: "('d, 'w) middleware" where
  "Observe next_handler =
     bind_io (read_ctx rc_Path) (\<lambda>path.
     bind_io Now (\<lambda>start.
     next_io next_handler
    (bind_io Now (\<lambda>stop.
     bind_io (read_ctx (\<lambda>c. if rc_FullPath c = '''' then ''unmatched'' else rc_FullPath c)) (\<lambda>route.
     bind_io (read_ctx rc_Method) (\<lambda>meth.
     bind_io (read_ctx rc_StatusCode) (\<lambda>code.
     next_io (inc HTTPRequests HTTPRequests_update [route, meth, statusClass code])
    (next_io (observe HTTPDuration HTTPDuration_update [route, meth] (stop - start))
    (bind_io (read_ctx (\<lambda>c. rc_keys c ''request_id'')) (\<lambda>request_id.
     log_at LevelInfo ''request''
       [(''request_id'', LogString request_id), (''method'', LogString meth), (''path'', LogString path),
        (''status'', LogInt code), (''duration_ms'', LogInt (Milliseconds (stop - start)))]))))))))))"

definition Recover :: "('d, 'w) middleware" where
  "Recover next_handler =
     recovering (\<lambda>r.
       next_io (inc Errors Errors_update [''panic_recovered'', ''middleware''])
      (bind_io (read_ctx (\<lambda>c. rc_keys c ''request_id'')) (\<lambda>request_id.
       bind_io (read_ctx rc_Method) (\<lambda>meth.
       bind_io (read_ctx rc_Path) (\<lambda>path.
       next_io (log_at LevelError ''panic recovered''
          [(''request_id'', LogString request_id), (''method'', LogString meth),
           (''path'', LogString path), (''panic'', LogString r)])
       (AbortWithStatusJSON 500 (BodyError \<lparr>er_Error = ''internal server error''\<rparr>)))))))
     next_handler"

end
