(* ===== verification/Router.thy ===== *)
theory Router
  imports Api
begin

text \<open>
  \<open>internal/api/health_handler.go\<close> and \<open>router.go\<close>: the probes, and which handler behind which
  middlewares serves which route of the two servers.

  The framework's side of routing is small: a route is registered with the middlewares that are in
  use at that moment around its handler, and a request runs the chain of the route it matches, or,
  when it matches none, the middlewares alone with the status preset to 404. Which route a method and
  path match, and with which parameters, is the argument \<open>lookup\<close>: an index into the routes.
\<close>

subsection \<open>health_handler.go\<close>

definition SetNotReady :: "('d, 'w, unit) http" where
  "SetNotReady = modify (\<lambda>s. s\<lparr>srv_shuttingDown := True\<rparr>)"

definition Livez :: "('d, 'w, unit) http" where
  "Livez = JSON 200 (BodyStrings [(''status'', ''ok'')])"

definition Readyz :: "('d, 'w, unit) http" where
  "Readyz =
     bind_io (gets srv_shuttingDown) (\<lambda>shuttingDown.
     if shuttingDown then JSON 503 (BodyReady \<lparr>rr_Status = ''draining'', rr_Checks = []\<rparr>)
     else
       bind_io Ping (\<lambda>ok.
       if \<not> ok then
         JSON 503 (BodyReady \<lparr>rr_Status = ''unavailable'', rr_Checks = [(''postgres'', ''down'')]\<rparr>)
       else JSON 200 (BodyReady \<lparr>rr_Status = ''ready'', rr_Checks = [(''postgres'', ''ok'')]\<rparr>)))"

subsection \<open>router.go\<close>

record ('d, 'w) route =
  rt_method :: string
  rt_pattern :: string
  rt_chain :: "('d, 'w, unit) http"

record ('d, 'w) hertz =
  hz_middleware :: "('d, 'w) middleware list"
  hz_routes :: "('d, 'w) route list"

definition chain :: "('d, 'w) middleware list \<Rightarrow> ('d, 'w, unit) http \<Rightarrow> ('d, 'w, unit) http" where
  "chain ms endpoint = foldr (\<lambda>m rest. m rest) ms endpoint"

definition Use :: "('d, 'w) middleware list \<Rightarrow> ('d, 'w) hertz \<Rightarrow> ('d, 'w) hertz" where
  "Use ms e = e\<lparr>hz_middleware := hz_middleware e @ ms\<rparr>"

definition Handle :: "string \<Rightarrow> string \<Rightarrow> ('d, 'w, unit) http \<Rightarrow> ('d, 'w) hertz \<Rightarrow> ('d, 'w) hertz" where
  "Handle meth pattern endpoint e =
     e\<lparr>hz_routes := hz_routes e @
         [\<lparr>rt_method = meth, rt_pattern = pattern, rt_chain = chain (hz_middleware e) endpoint\<rparr>]\<rparr>"

definition new_hertz :: "('d, 'w) hertz" where
  "new_hertz = \<lparr>hz_middleware = [], hz_routes = []\<rparr>"

type_synonym route_finder = "(string \<times> string) list \<Rightarrow> string \<Rightarrow> string \<Rightarrow> (nat \<times> (string \<Rightarrow> string)) option"

definition serve :: "route_finder \<Rightarrow> ('d, 'w) hertz \<Rightarrow> ('d, 'w, unit) http" where
  "serve lookup e =
     bind_io (read_ctx (\<lambda>c. lookup (map (\<lambda>r. (rt_method r, rt_pattern r)) (hz_routes e)) (rc_Method c) (rc_Path c)))
       (\<lambda>found.
        case found of
          Some (n, params) \<Rightarrow>
            if n < length (hz_routes e) then
              (let r = hz_routes e ! n in
               next_io (set_ctx (\<lambda>c. c\<lparr>rc_FullPath := rt_pattern r, rc_params := params\<rparr>)) (rt_chain r))
            else next_io (Status 404) (chain (hz_middleware e) (ret ()))
        | None \<Rightarrow> next_io (Status 404) (chain (hz_middleware e) (ret ())))"

record 'd Handlers =
  hs_Account :: "'d AccountHandler"
  hs_Transaction :: "'d TransactionHandler"

definition RegisterPublicRoutes ::
    "'d decimal_ops \<Rightarrow> 'u uuid_ops \<Rightarrow> 'd json_codec \<Rightarrow> ('d, 'w) handler \<Rightarrow> 'd Handlers \<Rightarrow>
     ('d, 'w) hertz \<Rightarrow> ('d, 'w) hertz" where
  "RegisterPublicRoutes D U J h hs e0 =
     (let e1 = Use [Recover, RequestID, Observe] e0;
          e2 = Handle ''POST'' ''/accounts'' (AccountHandler_Create D J h (hs_Account hs)) e1;
          e3 = Handle ''GET'' ''/accounts/:account_id'' (AccountHandler_Get h (hs_Account hs)) e2
      in Handle ''POST'' ''/transactions'' (TransactionHandler_Transfer D U J h (hs_Transaction hs)) e3)"

text \<open>\<open>metrics_page\<close> is the handler of the Prometheus client library.\<close>

definition RegisterAdminRoutes :: "('d, 'w, unit) http \<Rightarrow> ('d, 'w) hertz \<Rightarrow> ('d, 'w) hertz" where
  "RegisterAdminRoutes metrics_page e0 =
     (let e1 = Use [Recover] e0;
          e2 = Handle ''GET'' ''/livez'' Livez e1;
          e3 = Handle ''GET'' ''/readyz'' Readyz e2
      in Handle ''GET'' ''/metrics'' metrics_page e3)"

end
