(* ===== verification/Endpoints.thy ===== *)
theory Endpoints
  imports Router
begin

text \<open>
  What the handlers and the middlewares do to the server, for every database: no recording of a
  metric panics; an endpoint answers one status, counts what the metrics promise, and writes one
  error line exactly when it answers 500; the middlewares add the request id, the metrics of the
  request and the access line, and turn a panic into a 500.
\<close>

subsection \<open>Error mapping\<close>

lemma errorMapping_Wrapf [err_simps]: "errorMapping (Wrapf p e) = errorMapping e"
  by (simp add: errorMapping_def)

lemma errorMapping_internal [err_simps]: "fst (errorMapping e) = 500 \<longleftrightarrow> internal_error e"
  by (auto simp: errorMapping_def internal_error_def domain_sentinels_def)

lemma errorMapping_status: "fst (errorMapping e) \<in> {400, 404, 409, 422, 500}"
  by (auto simp: errorMapping_def)

lemma errorMapping_server_error: "500 \<le> fst (errorMapping e) \<longleftrightarrow> internal_error e"
  using errorMapping_status [of e] errorMapping_internal [of e] by auto

lemma errorMapping_values [err_simps]:
  "errorMapping ErrInvalidAmount = (400, ''invalid_amount'')"
  "errorMapping ErrInvalidAccountID = (400, ''invalid_account_id'')"
  "errorMapping ErrSameAccount = (400, ''same_account'')"
  "errorMapping ErrInvalidIdempotency = (400, ''invalid_idempotency_key'')"
  "errorMapping (AccountNotFound i) = (404, ''account_not_found'')"
  "errorMapping ErrAccountAlreadyExists = (409, ''account_already_exists'')"
  "errorMapping ErrInsufficientFunds = (409, ''insufficient_funds'')"
  "errorMapping ErrIdempotencyConflict = (422, ''idempotency_conflict'')"
  by (simp_all add: errorMapping_def AccountNotFound_def)

subsection \<open>Nothing panics\<close>

lemma keeps_Responder [ok_intros]:
  "keeps (server_kept b) (Responder_Error layer err)" "keeps (server_kept b) (Responder_BadRequest t msg)"
  unfolding Responder_Error_def Responder_BadRequest_def
  by (auto split: prod.split intro!: ok_intros)

lemma keeps_endpoints [ok_intros]:
  "keeps (server_kept b) (AccountHandler_Create D J h ah)" "keeps (server_kept b) (AccountHandler_Get h ah)"
  "keeps (server_kept b) (TransactionHandler_Transfer D U J h th)"
  "keeps (server_kept b) Livez" "keeps (server_kept b) Readyz" "keeps (server_kept b) SetNotReady"
  unfolding AccountHandler_Create_def AccountHandler_Get_def TransactionHandler_Transfer_def
    Livez_def Readyz_def SetNotReady_def
  by (auto split: option.split sum.split intro!: ok_intros runs_ok_modify simp: server_kept_def server_ok_def)

lemma keeps_middleware [ok_intros]:
  assumes "keeps (server_kept b) p"
  shows "keeps (server_kept b) (RequestID p)" "keeps (server_kept b) (Observe p)" "keeps (server_kept b) (Recover p)"
proof -
  show "keeps (server_kept b) (RequestID p)"
    unfolding RequestID_def using assms by (auto intro!: ok_intros)
  show "keeps (server_kept b) (Observe p)"
    unfolding Observe_def using assms by (auto intro!: ok_intros)
  show "keeps (server_kept b) (Recover p)"
    using assms by (fastforce simp: runs_ok_def Recover_def recovering_def)
qed

subsection \<open>What an error response does\<close>

definition failure_line :: "'d RequestContext \<Rightarrow> string \<Rightarrow> go_error \<Rightarrow> log_line" where
  "failure_line c layer err =
     \<lparr>log_level = LevelError, log_msg = ''request failed'',
      log_attrs = [(''request_id'', LogString (rc_keys c ''request_id'')),
        (''method'', LogString (rc_Method c)), (''path'', LogString (rc_Path c)),
        (''type'', LogString ''internal''), (''layer'', LogString layer), (''error'', LogError err)]\<rparr>"

definition error_message :: "go_error \<Rightarrow> string" where
  "error_message err = (if internal_error err then ''internal server error'' else error_text err)"

lemma internal_type: "internal_error err \<Longrightarrow> errorMapping err = (500, ''internal'')"
  by (auto simp: errorMapping_def internal_error_def domain_sentinels_def)

lemma Responder_Error_run:
  assumes "server_ok s"
  shows "Responder_Error layer err s = (Value (), s\<lparr>
    srv_metrics := Errors_update (cv_inc [snd (errorMapping err), layer]) (srv_metrics s),
    srv_log := srv_log s @ (if internal_error err then [failure_line (srv_ctx s) layer err] else []),
    srv_ctx := (srv_ctx s)\<lparr>rc_StatusCode := fst (errorMapping err),
      rc_response := Some (BodyError \<lparr>er_Error = error_message err\<rparr>)\<rparr>\<rparr>)"
proof -
  obtain status errType where m: "errorMapping err = (status, errType)" by fastforce
  have i: "500 \<le> status \<longleftrightarrow> internal_error err" using errorMapping_server_error [of err] m by simp
  have t: "internal_error err \<Longrightarrow> errType = ''internal''" using internal_type [of err] m by simp
  show ?thesis
    using assms i t
    by (auto simp: Responder_Error_def m http_defs io_simps server_ok_def metrics_ok_def
        failure_line_def error_message_def)
qed

lemma Responder_BadRequest_run:
  assumes "server_ok s"
  shows "Responder_BadRequest t msg s = (Value (), s\<lparr>
    srv_metrics := Errors_update (cv_inc [t, ''handler'']) (srv_metrics s),
    srv_ctx := (srv_ctx s)\<lparr>rc_StatusCode := 400, rc_response := Some (BodyError \<lparr>er_Error = msg\<rparr>)\<rparr>\<rparr>)"
  using assms by (simp add: Responder_BadRequest_def http_defs io_simps server_ok_def metrics_ok_def)

subsection \<open>What an endpoint does\<close>

text \<open>The parts of the server that belong to the middlewares.\<close>

definition same_request_side :: "('d, 'w) server \<Rightarrow> ('d, 'w) server \<Rightarrow> bool" where
  "same_request_side s s' \<longleftrightarrow>
     HTTPRequests (srv_metrics s') = HTTPRequests (srv_metrics s) \<and>
     HTTPDuration (srv_metrics s') = HTTPDuration (srv_metrics s) \<and>
     srv_clock s' = srv_clock s \<and> srv_fresh s' = srv_fresh s \<and> srv_uuids s' = srv_uuids s \<and>
     rc_Method (srv_ctx s') = rc_Method (srv_ctx s) \<and> rc_Path (srv_ctx s') = rc_Path (srv_ctx s) \<and>
     rc_FullPath (srv_ctx s') = rc_FullPath (srv_ctx s) \<and> rc_headers (srv_ctx s') = rc_headers (srv_ctx s) \<and>
     rc_keys (srv_ctx s') = rc_keys (srv_ctx s) \<and>
     rc_response_headers (srv_ctx s') = rc_response_headers (srv_ctx s)"

text \<open>One response: an error line in the log exactly for a 500, whose body says nothing about it.\<close>

definition answered :: "('d, 'w) server \<Rightarrow> ('d, 'w) server \<Rightarrow> bool" where
  "answered s s' \<longleftrightarrow> server_ok s' \<and> same_request_side s s' \<and>
     (rc_StatusCode (srv_ctx s') < 500 \<and> srv_log s' = srv_log s \<or>
      rc_StatusCode (srv_ctx s') = 500 \<and>
      rc_response (srv_ctx s') = Some (BodyError \<lparr>er_Error = ''internal server error''\<rparr>) \<and>
      (\<exists>layer err. srv_log s' = srv_log s @ [failure_line (srv_ctx s) layer err]))"

lemma metrics_ok_updates [simp]:
  "metrics_ok (Errors_update (cv_inc v) m) = metrics_ok m"
  "metrics_ok (Transfers_update (cv_inc v) m) = metrics_ok m"
  "metrics_ok (AccountsCreated_update (cv_inc v) m) = metrics_ok m"
  "metrics_ok (IdempotencyHits_update (cv_inc v) m) = metrics_ok m"
  "metrics_ok (HTTPRequests_update (cv_inc v) m) = metrics_ok m"
  "metrics_ok (TransferLatency_update (hv_observe v d) m) = metrics_ok m"
  "metrics_ok (HTTPDuration_update (hv_observe v d) m) = metrics_ok m"
  by (simp_all add: metrics_ok_def)

lemma server_ok_updates [simp]:
  "server_ok (s\<lparr>srv_db := x1\<rparr>) = server_ok s" "server_ok (s\<lparr>srv_log := x2\<rparr>) = server_ok s"
  "server_ok (s\<lparr>srv_ctx := x3\<rparr>) = server_ok s" "server_ok (s\<lparr>srv_reads := x4\<rparr>) = server_ok s"
  "server_ok (s\<lparr>srv_fresh := x5\<rparr>) = server_ok s" "server_ok (s\<lparr>srv_metrics := m\<rparr>) = metrics_ok m"
  by (simp_all add: server_ok_def)

lemma server_okD [simp]: "server_ok s \<Longrightarrow> metrics_ok (srv_metrics s)"
  by (simp add: server_ok_def)

lemma same_request_side_refl [simp]: "same_request_side s s"
  by (simp add: same_request_side_def)

lemma same_request_side_updates [simp]:
  "same_request_side s (s'\<lparr>srv_db := x1\<rparr>) = same_request_side s s'"
  "same_request_side s (s'\<lparr>srv_log := x2\<rparr>) = same_request_side s s'"
  "same_request_side s (s'\<lparr>srv_reads := x3\<rparr>) = same_request_side s s'"
  by (simp_all add: same_request_side_def)

lemma same_request_side_metrics [simp]:
  "same_request_side s (s'\<lparr>srv_metrics := Errors_update f m\<rparr>) = same_request_side s (s'\<lparr>srv_metrics := m\<rparr>)"
  "same_request_side s (s'\<lparr>srv_metrics := Transfers_update f m\<rparr>) = same_request_side s (s'\<lparr>srv_metrics := m\<rparr>)"
  "same_request_side s (s'\<lparr>srv_metrics := AccountsCreated_update f m\<rparr>) = same_request_side s (s'\<lparr>srv_metrics := m\<rparr>)"
  "same_request_side s (s'\<lparr>srv_metrics := IdempotencyHits_update f m\<rparr>) = same_request_side s (s'\<lparr>srv_metrics := m\<rparr>)"
  "same_request_side s (s'\<lparr>srv_metrics := TransferLatency_update g m\<rparr>) = same_request_side s (s'\<lparr>srv_metrics := m\<rparr>)"
  "same_request_side s (s'\<lparr>srv_metrics := srv_metrics s'\<rparr>) = same_request_side s s'"
  by (simp_all add: same_request_side_def)

lemma same_request_side_ctx [simp]:
  "same_request_side s (s'\<lparr>srv_ctx := c\<lparr>rc_StatusCode := x\<rparr>\<rparr>) = same_request_side s (s'\<lparr>srv_ctx := c\<rparr>)"
  "same_request_side s (s'\<lparr>srv_ctx := c\<lparr>rc_response := y\<rparr>\<rparr>) = same_request_side s (s'\<lparr>srv_ctx := c\<rparr>)"
  "same_request_side s (s'\<lparr>srv_ctx := srv_ctx s'\<rparr>) = same_request_side s s'"
  by (simp_all add: same_request_side_def)

lemma same_request_side_same_ctx [simp]:
  "srv_ctx s' = srv_ctx s \<Longrightarrow> same_request_side s (s'\<lparr>srv_ctx := srv_ctx s\<rparr>) = same_request_side s s'"
  by (simp add: same_request_side_def)

lemma answered_quietly:
  "\<lbrakk>server_ok s'; same_request_side s s'; rc_StatusCode (srv_ctx s') < 500; srv_log s' = srv_log s\<rbrakk> \<Longrightarrow>
     answered s s'"
  by (simp add: answered_def)

lemma answered_loudly:
  "\<lbrakk>server_ok s'; same_request_side s s'; rc_StatusCode (srv_ctx s') = 500;
    rc_response (srv_ctx s') = Some (BodyError \<lparr>er_Error = ''internal server error''\<rparr>);
    srv_log s' = srv_log s @ [failure_line (srv_ctx s) layer err]\<rbrakk> \<Longrightarrow> answered s s'"
  unfolding answered_def by blast

lemma answered_Error:
  assumes "server_ok s" and "Responder_Error layer err s = (r, s')"
  shows "answered s s'"
proof (cases "internal_error err")
  case True
  with assms internal_type [OF True] show ?thesis
    by (intro answered_loudly [where layer = layer and err = err])
      (auto simp: Responder_Error_run error_message_def)
next
  case False
  then have "fst (errorMapping err) < 500"
    using errorMapping_status [of err] errorMapping_internal [of err] by auto
  with assms False show ?thesis by (intro answered_quietly) (auto simp: Responder_Error_run)
qed

lemma answered_BadRequest:
  "server_ok s \<Longrightarrow> Responder_BadRequest t msg s = (r, s') \<Longrightarrow> answered s s'"
  by (intro answered_quietly) (auto simp: Responder_BadRequest_run)

lemma same_request_side_trans:
  "same_request_side s s1 \<Longrightarrow> same_request_side s1 s2 \<Longrightarrow> same_request_side s s2"
  by (simp add: same_request_side_def)

lemma answered_from:
  "answered s1 s' \<Longrightarrow> same_request_side s s1 \<Longrightarrow> srv_log s1 = srv_log s \<Longrightarrow> srv_ctx s1 = srv_ctx s \<Longrightarrow>
     answered s s'"
  using same_request_side_trans by (auto simp: answered_def)

text \<open>The primitives, where they succeed.\<close>

lemma inc_run [io_simps]:
  "server_ok s \<Longrightarrow> inc Errors Errors_update [a, b] s =
     (Value (), s\<lparr>srv_metrics := Errors_update (cv_inc [a, b]) (srv_metrics s)\<rparr>)"
  "server_ok s \<Longrightarrow> inc Transfers Transfers_update [a] s =
     (Value (), s\<lparr>srv_metrics := Transfers_update (cv_inc [a]) (srv_metrics s)\<rparr>)"
  "server_ok s \<Longrightarrow> inc AccountsCreated AccountsCreated_update [a] s =
     (Value (), s\<lparr>srv_metrics := AccountsCreated_update (cv_inc [a]) (srv_metrics s)\<rparr>)"
  "server_ok s \<Longrightarrow> inc IdempotencyHits IdempotencyHits_update [a] s =
     (Value (), s\<lparr>srv_metrics := IdempotencyHits_update (cv_inc [a]) (srv_metrics s)\<rparr>)"
  "server_ok s \<Longrightarrow> inc HTTPRequests HTTPRequests_update [a, b, c] s =
     (Value (), s\<lparr>srv_metrics := HTTPRequests_update (cv_inc [a, b, c]) (srv_metrics s)\<rparr>)"
  by (simp_all add: inc_def on_metrics_def with_labels_inc_def server_ok_def metrics_ok_def)

lemma observe_run [io_simps]:
  "server_ok s \<Longrightarrow> observe TransferLatency TransferLatency_update [] d s =
     (Value (), s\<lparr>srv_metrics := TransferLatency_update (hv_observe [] d) (srv_metrics s)\<rparr>)"
  "server_ok s \<Longrightarrow> observe HTTPDuration HTTPDuration_update [a, b] d s =
     (Value (), s\<lparr>srv_metrics := HTTPDuration_update (hv_observe [a, b] d) (srv_metrics s)\<rparr>)"
  by (simp_all add: observe_def on_metrics_def with_labels_observe_def server_ok_def metrics_ok_def)

lemma ctx_run [io_simps]:
  "read_ctx f s = (Value (f (srv_ctx s)), s)" "set_ctx g s = (Value (), s\<lparr>srv_ctx := g (srv_ctx s)\<rparr>)"
  "Status c s = (Value (), s\<lparr>srv_ctx := (srv_ctx s)\<lparr>rc_StatusCode := c\<rparr>\<rparr>)"
  "JSON c b s = (Value (), s\<lparr>srv_ctx := (srv_ctx s)\<lparr>rc_StatusCode := c, rc_response := Some b\<rparr>\<rparr>)"
  "Now s = (Value (srv_clock s (srv_reads s)), s\<lparr>srv_reads := Suc (srv_reads s)\<rparr>)"
  "log_at lvl msg attrs s =
     (Value (), s\<lparr>srv_log := srv_log s @ [\<lparr>log_level = lvl, log_msg = msg, log_attrs = attrs\<rparr>]\<rparr>)"
  by (simp_all add: http_defs io_eval)

lemma on_db_run [io_simps]:
  "on_db h p s = (case run h p (srv_db s) of (r, w) \<Rightarrow> (Value r, s\<lparr>srv_db := w\<rparr>))"
  by (simp add: on_db_def)

text \<open>The ways through each endpoint: a request that is not understood, and the service's error or
  result, with the server as the response finds it.\<close>

definition creation_served :: "'w \<Rightarrow> string \<Rightarrow> ('d, 'w) server \<Rightarrow> ('d, 'w) server" where
  "creation_served w result s =
     s\<lparr>srv_db := w, srv_metrics := AccountsCreated_update (cv_inc [result]) (srv_metrics s)\<rparr>"

definition transfer_served :: "string \<Rightarrow> 'w \<Rightarrow> string \<Rightarrow> ('d, 'w) server \<Rightarrow> ('d, 'w) server" where
  "transfer_served key w result s =
     s\<lparr>srv_db := w, srv_reads := srv_reads s + 2,
       srv_metrics := Transfers_update (cv_inc [result])
         (TransferLatency_update (hv_observe [] (srv_clock s (Suc (srv_reads s)) - srv_clock s (srv_reads s)))
           (IdempotencyHits_update (cv_inc [if key \<noteq> [] then ''with_key'' else ''no_key''])
             (srv_metrics s)))\<rparr>"

lemma served_sel [simp]:
  "server_ok (creation_served w result s) = server_ok s"
  "same_request_side s (creation_served w result s)"
  "srv_ctx (creation_served w result s) = srv_ctx s" "srv_log (creation_served w result s) = srv_log s"
  "srv_db (creation_served w result s) = w"
  "server_ok (transfer_served key w result s) = server_ok s"
  "same_request_side s (transfer_served key w result s)"
  "srv_ctx (transfer_served key w result s) = srv_ctx s" "srv_log (transfer_served key w result s) = srv_log s"
  "srv_db (transfer_served key w result s) = w"
  by (simp_all add: creation_served_def transfer_served_def server_ok_def)

lemma Create_cases:
  assumes ok: "server_ok s" and r: "AccountHandler_Create D J h ah s = (r, s')"
  obtains
    (bad_request) t msg where "Responder_BadRequest t msg s = (r, s')"
  | (refused) i b err w where "run h (AccountService_Create D (ah_svc ah) i b) (srv_db s) = (Inl err, w)"
      "Responder_Error ''service'' err (creation_served w ''error'' s) = (r, s')"
  | (created) i b w where "run h (AccountService_Create D (ah_svc ah) i b) (srv_db s) = (Inr (), w)"
      "r = Value ()" "s' = (creation_served w ''ok'' s)\<lparr>srv_ctx := (srv_ctx s)\<lparr>rc_StatusCode := 201\<rparr>\<rparr>"
proof (cases "BindCreateAccount J (rc_body (srv_ctx s))")
  case None
  with r bad_request show thesis by (simp add: AccountHandler_Create_def io_simps)
next
  case (Some req)
  obtain rc w where c: "run h (AccountService_Create D (ah_svc ah) (car_AccountID req) (car_InitialBalance req))
      (srv_db s) = (rc, w)" by fastforce
  show thesis
  proof (cases rc)
    case (Inl err)
    with ok r Some c refused [of _ _ err w] show thesis
      by (simp add: AccountHandler_Create_def io_simps creation_served_def)
  next
    case (Inr u)
    with ok r Some c created [of _ _ w] show thesis
      by (simp add: AccountHandler_Create_def io_simps creation_served_def)
  qed
qed

lemma Get_cases:
  assumes r: "AccountHandler_Get h ah s = (r, s')"
  obtains
    (bad_request) t msg where "Responder_BadRequest t msg s = (r, s')"
  | (refused) i err w where "run h (AccountService_Get (ah_svc ah) i) (srv_db s) = (Inl err, w)"
      "Responder_Error ''service'' err (s\<lparr>srv_db := w\<rparr>) = (r, s')"
  | (found) i a w where "ParseInt64 (rc_params (srv_ctx s) ''account_id'') = Some i"
      "run h (AccountService_Get (ah_svc ah) i) (srv_db s) = (Inr a, w)" "r = Value ()"
      "s' = s\<lparr>srv_db := w, srv_ctx := (srv_ctx s)\<lparr>rc_StatusCode := 200,
        rc_response := Some (BodyAccount \<lparr>ar_AccountID = acc_ID a, ar_Balance = acc_Balance a\<rparr>)\<rparr>\<rparr>"
proof (cases "ParseInt64 (rc_params (srv_ctx s) ''account_id'')")
  case None
  with r bad_request show thesis by (simp add: AccountHandler_Get_def io_simps)
next
  case (Some i)
  obtain ra w where c: "run h (AccountService_Get (ah_svc ah) i) (srv_db s) = (ra, w)" by fastforce
  show thesis
  proof (cases ra)
    case (Inl err)
    with r Some c refused [of i err w] show thesis by (simp add: AccountHandler_Get_def io_simps)
  next
    case (Inr a)
    with r Some c found [of i a w] show thesis by (simp add: AccountHandler_Get_def io_simps)
  qed
qed

lemma Transfer_run:
  assumes "server_ok s" and "BindTransfer J (rc_body (srv_ctx s)) = Some req"
    and "rc_headers (srv_ctx s) idempotencyHeader = key"
    and "run h (TransferService_Transfer D U (th_svc th) (transfer_cmd req key)) (srv_db s) = (rt, w)"
  shows "TransactionHandler_Transfer D U J h th s =
    (case rt of
       Inl err \<Rightarrow> Responder_Error ''service'' err (transfer_served key w ''failed'' s)
     | Inr t \<Rightarrow> (Value (), (transfer_served key w ''completed'' s)\<lparr>srv_ctx := (srv_ctx s)\<lparr>
         rc_StatusCode := 200, rc_response := Some (BodyTransaction (transaction_response t))\<rparr>\<rparr>))"
  using assms
  by (cases rt) (simp_all add: TransactionHandler_Transfer_def io_simps transfer_served_def)

lemma Transfer_cases:
  assumes ok: "server_ok s" and r: "TransactionHandler_Transfer D U J h th s = (r, s')"
  obtains
    (bad_request) t msg where "Responder_BadRequest t msg s = (r, s')"
  | (refused) cmd err w key where "run h (TransferService_Transfer D U (th_svc th) cmd) (srv_db s) = (Inl err, w)"
      "Responder_Error ''service'' err (transfer_served key w ''failed'' s) = (r, s')"
  | (completed) cmd t w key where "run h (TransferService_Transfer D U (th_svc th) cmd) (srv_db s) = (Inr t, w)"
      "r = Value ()"
      "s' = (transfer_served key w ''completed'' s)\<lparr>srv_ctx := (srv_ctx s)\<lparr>rc_StatusCode := 200,
        rc_response := Some (BodyTransaction (transaction_response t))\<rparr>\<rparr>"
proof (cases "BindTransfer J (rc_body (srv_ctx s))")
  case None
  with r bad_request show thesis by (simp add: TransactionHandler_Transfer_def io_simps)
next
  case (Some req)
  obtain rt w where t: "run h (TransferService_Transfer D U (th_svc th)
      (transfer_cmd req (rc_headers (srv_ctx s) idempotencyHeader))) (srv_db s) = (rt, w)" by fastforce
  note run = r [unfolded Transfer_run [OF ok Some refl t]]
  show thesis
    by (cases rt) (use run t refused completed in auto)
qed

subsection \<open>Every endpoint answers once\<close>

lemma answered_Error_via:
  "\<lbrakk>Responder_Error layer err s1 = (r, s'); server_ok s1; same_request_side s s1; srv_log s1 = srv_log s;
    srv_ctx s1 = srv_ctx s\<rbrakk> \<Longrightarrow> answered s s'"
  by (rule answered_from [OF answered_Error])

lemma Create_answers:
  assumes "server_ok s" and "AccountHandler_Create D J h ah s = (r, s')"
  shows "answered s s'"
  using assms
proof (cases rule: Create_cases)
  case created
  with assms show ?thesis by (intro answered_quietly) auto
qed (use assms in \<open>auto intro: answered_BadRequest answered_Error_via\<close>)

lemma Get_answers:
  assumes "server_ok s" and "AccountHandler_Get h ah s = (r, s')"
  shows "answered s s'"
  using assms(2)
proof (cases rule: Get_cases)
  case found
  with assms show ?thesis by (intro answered_quietly) auto
qed (use assms in \<open>auto intro: answered_BadRequest answered_Error_via\<close>)

lemma Transfer_answers:
  assumes "server_ok s" and "TransactionHandler_Transfer D U J h th s = (r, s')"
  shows "answered s s'"
  using assms
proof (cases rule: Transfer_cases)
  case completed
  with assms show ?thesis by (intro answered_quietly) auto
qed (use assms in \<open>auto intro: answered_BadRequest answered_Error_via\<close>)

end
