(* ===== verification/Public_Server.thy ===== *)
theory Public_Server
  imports Endpoints
begin

text \<open>
  A request through the whole public server: the chain of \<open>Recover\<close>, \<open>RequestID\<close> and \<open>Observe\<close>
  around an endpoint, and \<open>serve\<close> on the routes of \<open>RegisterPublicRoutes\<close>.
\<close>

subsection \<open>The chain\<close>

definition request_id_of :: "('d, 'w) server \<Rightarrow> string" where
  "request_id_of s =
     (let header = rc_headers (srv_ctx s) requestIDHeader
      in if header = [] then srv_uuids s (srv_fresh s) else header)"

text \<open>The server as \<open>RequestID\<close> leaves it, and as the endpoint finds it.\<close>

definition identified :: "('d, 'w) server \<Rightarrow> ('d, 'w) server" where
  "identified s =
     s\<lparr>srv_fresh := (if rc_headers (srv_ctx s) requestIDHeader = [] then Suc (srv_fresh s) else srv_fresh s),
       srv_ctx := (srv_ctx s)\<lparr>
         rc_keys := (rc_keys (srv_ctx s))(''request_id'' := request_id_of s),
         rc_response_headers := (rc_response_headers (srv_ctx s))(requestIDHeader := request_id_of s)\<rparr>\<rparr>"

definition prepared :: "('d, 'w) server \<Rightarrow> ('d, 'w) server" where
  "prepared s = (identified s)\<lparr>srv_reads := Suc (srv_reads s)\<rparr>"

definition route_label :: "'d RequestContext \<Rightarrow> string" where
  "route_label c = (if rc_FullPath c = [] then ''unmatched'' else rc_FullPath c)"

definition access_line :: "string \<Rightarrow> int \<Rightarrow> 'd RequestContext \<Rightarrow> log_line" where
  "access_line path d c =
     \<lparr>log_level = LevelInfo, log_msg = ''request'',
      log_attrs = [(''request_id'', LogString (rc_keys c ''request_id'')), (''method'', LogString (rc_Method c)),
        (''path'', LogString path), (''status'', LogInt (rc_StatusCode c)),
        (''duration_ms'', LogInt (Milliseconds d))]\<rparr>"

text \<open>The server after \<open>Observe\<close>, from where the endpoint left it.\<close>

definition observed :: "string \<Rightarrow> int \<Rightarrow> ('d, 'w) server \<Rightarrow> ('d, 'w) server" where
  "observed path start s =
     (let c = srv_ctx s; d = srv_clock s (srv_reads s) - start in
      s\<lparr>srv_reads := Suc (srv_reads s),
        srv_metrics := HTTPDuration_update (hv_observe [route_label c, rc_Method c] d)
          (HTTPRequests_update (cv_inc [route_label c, rc_Method c, statusClass (rc_StatusCode c)])
            (srv_metrics s)),
        srv_log := srv_log s @ [access_line path d c]\<rparr>)"

text \<open>The server after \<open>Recover\<close> caught a panic.\<close>

definition panic_line :: "string \<Rightarrow> 'd RequestContext \<Rightarrow> log_line" where
  "panic_line r c =
     \<lparr>log_level = LevelError, log_msg = ''panic recovered'',
      log_attrs = [(''request_id'', LogString (rc_keys c ''request_id'')), (''method'', LogString (rc_Method c)),
        (''path'', LogString (rc_Path c)), (''panic'', LogString r)]\<rparr>"

definition recovered :: "string \<Rightarrow> ('d, 'w) server \<Rightarrow> ('d, 'w) server" where
  "recovered r s =
     s\<lparr>srv_metrics := Errors_update (cv_inc [''panic_recovered'', ''middleware'']) (srv_metrics s),
       srv_log := srv_log s @ [panic_line r (srv_ctx s)],
       srv_ctx := (srv_ctx s)\<lparr>rc_aborted := True, rc_StatusCode := 500,
         rc_response := Some (BodyError \<lparr>er_Error = ''internal server error''\<rparr>)\<rparr>\<rparr>"

abbreviation public_chain :: "('d, 'w, unit) http \<Rightarrow> ('d, 'w, unit) http" where
  "public_chain \<equiv> chain [Recover, RequestID, Observe]"

lemma prepared_sel [simp]:
  "server_ok (prepared s) = server_ok s" "srv_db (prepared s) = srv_db s"
  "srv_log (prepared s) = srv_log s" "srv_metrics (prepared s) = srv_metrics s"
  "srv_clock (prepared s) = srv_clock s"
  "rc_body (srv_ctx (prepared s)) = rc_body (srv_ctx s)"
  "rc_headers (srv_ctx (prepared s)) = rc_headers (srv_ctx s)"
  "rc_params (srv_ctx (prepared s)) = rc_params (srv_ctx s)"
  "rc_Method (srv_ctx (prepared s)) = rc_Method (srv_ctx s)"
  "rc_Path (srv_ctx (prepared s)) = rc_Path (srv_ctx s)"
  "rc_FullPath (srv_ctx (prepared s)) = rc_FullPath (srv_ctx s)"
  "rc_StatusCode (srv_ctx (prepared s)) = rc_StatusCode (srv_ctx s)"
  "rc_keys (srv_ctx (prepared s)) ''request_id'' = request_id_of s"
  "rc_response_headers (srv_ctx (prepared s)) requestIDHeader = request_id_of s"
  by (simp_all add: prepared_def identified_def server_ok_def)

lemma observed_sel [simp]:
  "server_ok (observed path start s) = server_ok s" "srv_db (observed path start s) = srv_db s"
  "srv_ctx (observed path start s) = srv_ctx s"
  by (simp_all add: observed_def Let_def server_ok_def)

lemma RequestID_run: "RequestID p s = p (identified s)"
  by (simp add: RequestID_def io_simps NewUUID_def SetKey_def SetHeader_def request_id_of_def Let_def
      identified_def)

lemma identified_sel [simp]:
  "rc_Path (srv_ctx (identified s)) = rc_Path (srv_ctx s)" "srv_clock (identified s) = srv_clock s"
  "srv_reads (identified s) = srv_reads s"
  by (simp_all add: identified_def)

lemma chain_Value:
  assumes ep: "ep (prepared s) = (Value (), s2)" and ok: "server_ok s2"
  shows "public_chain ep s = (Value (), observed (rc_Path (srv_ctx s)) (srv_clock s (srv_reads s)) s2)"
  using ep ok
  by (simp add: chain_def Recover_def recovering_def RequestID_run Observe_def io_simps
      prepared_def observed_def route_label_def access_line_def Let_def)

lemma chain_Panic:
  assumes ep: "ep (prepared s) = (Panic r, s2)" and ok: "server_ok s2"
  shows "public_chain ep s = (Value (), recovered r s2)"
  using ep ok
  by (simp add: chain_def Recover_def recovering_def RequestID_run Observe_def io_simps
      prepared_def recovered_def panic_line_def AbortWithStatusJSON_def Let_def)

end
