(* ===== verification/Http_System.thy ===== *)
theory Http_System
  imports Public_Server Service_System
begin

text \<open>
  The public server over the services and the database, as \<open>cmd/server/main.go\<close> wires them: every
  request is recorded once, runs at most one service operation, and so keeps the books in order; the
  business metrics agree with each other and bound the number of payments.
\<close>

definition public_handlers :: "'d decimal_ops \<Rightarrow> 'd Handlers" where
  "public_handlers D =
     \<lparr>hs_Account = NewAccountHandler (accountSvc D), hs_Transaction = NewTransactionHandler (transferSvc D)\<rparr>"

definition public_server ::
    "'d decimal_ops \<Rightarrow> 'u uuid_ops \<Rightarrow> 'd json_codec \<Rightarrow> ('d, 'u world) hertz" where
  "public_server D U J = RegisterPublicRoutes D U J (pg D U) (public_handlers D) new_hertz"

subsection \<open>Which endpoint serves a request\<close>

text \<open>The endpoint that a request reaches; \<open>ret ()\<close> stands behind the 404.\<close>

definition endpoints ::
    "'d decimal_ops \<Rightarrow> 'u uuid_ops \<Rightarrow> 'd json_codec \<Rightarrow> ('d, 'w) handler \<Rightarrow> 'd Handlers \<Rightarrow> ('d, 'w, unit) http list" where
  "endpoints D U J h hs =
     [AccountHandler_Create D J h (hs_Account hs), AccountHandler_Get h (hs_Account hs),
      TransactionHandler_Transfer D U J h (hs_Transaction hs), ret ()]"

text \<open>What routing changes before the chain runs.\<close>

definition routed :: "('d, 'w) server \<Rightarrow> ('d, 'w) server \<Rightarrow> bool" where
  "routed s s1 \<longleftrightarrow> (\<exists>full params code. s1 = s\<lparr>srv_ctx := (srv_ctx s)\<lparr>rc_FullPath := full, rc_params := params,
     rc_StatusCode := code\<rparr>\<rparr> \<and> (code = rc_StatusCode (srv_ctx s) \<or> code = 404))"

lemma routed_sel:
  "routed s s1 \<Longrightarrow> server_ok s1 = server_ok s" "routed s s1 \<Longrightarrow> srv_db s1 = srv_db s"
  "routed s s1 \<Longrightarrow> srv_log s1 = srv_log s" "routed s s1 \<Longrightarrow> srv_metrics s1 = srv_metrics s"
  "routed s s1 \<Longrightarrow> rc_Path (srv_ctx s1) = rc_Path (srv_ctx s)"
  "routed s s1 \<Longrightarrow> rc_Method (srv_ctx s1) = rc_Method (srv_ctx s)"
  "routed s s1 \<Longrightarrow> request_id_of s1 = request_id_of s"
  by (auto simp: routed_def server_ok_def request_id_of_def Let_def)

lemma public_routes:
  "hz_routes (RegisterPublicRoutes D U J h hs new_hertz) =
     [\<lparr>rt_method = ''POST'', rt_pattern = ''/accounts'', rt_chain = public_chain (endpoints D U J h hs ! 0)\<rparr>,
      \<lparr>rt_method = ''GET'', rt_pattern = ''/accounts/:account_id'',
        rt_chain = public_chain (endpoints D U J h hs ! 1)\<rparr>,
      \<lparr>rt_method = ''POST'', rt_pattern = ''/transactions'',
        rt_chain = public_chain (endpoints D U J h hs ! 2)\<rparr>]"
  "hz_middleware (RegisterPublicRoutes D U J h hs new_hertz) = [Recover, RequestID, Observe]"
  by (simp_all add: RegisterPublicRoutes_def Handle_def Use_def new_hertz_def endpoints_def Let_def)

lemma serve_public:
  "\<exists>s1 ep. ep \<in> set (endpoints D U J h hs) \<and> routed s s1 \<and>
     serve lookup (RegisterPublicRoutes D U J h hs new_hertz) s = public_chain ep s1"
proof -
  let ?e = "RegisterPublicRoutes D U J h hs new_hertz"
  let ?nf = "s\<lparr>srv_ctx := (srv_ctx s)\<lparr>rc_StatusCode := 404\<rparr>\<rparr>"
  obtain found where found: "found = lookup (map (\<lambda>r. (rt_method r, rt_pattern r)) (hz_routes ?e))
    (rc_Method (srv_ctx s)) (rc_Path (srv_ctx s))" by blast
  have nf: "routed s ?nf"
    unfolding routed_def
    by (rule exI [of _ "rc_FullPath (srv_ctx s)"], rule exI [of _ "rc_params (srv_ctx s)"], rule exI [of _ 404]) simp
  consider (hit) n params where "found = Some (n, params)" "n < 3" | (miss) "\<forall>n params. found = Some (n, params) \<longrightarrow> \<not> n < 3"
    by blast
  then show ?thesis
  proof cases
    case hit
    let ?s1 = "s\<lparr>srv_ctx := (srv_ctx s)\<lparr>rc_FullPath := rt_pattern (hz_routes ?e ! n), rc_params := params\<rparr>\<rparr>"
    have "routed s ?s1"
      unfolding routed_def
      by (rule exI [of _ "rt_pattern (hz_routes ?e ! n)"], rule exI [of _ params],
          rule exI [of _ "rc_StatusCode (srv_ctx s)"]) simp
    moreover have "serve lookup ?e s = public_chain (endpoints D U J h hs ! n) ?s1"
      using hit found by (auto simp: serve_def io_simps public_routes less_Suc_eq numeral_eq_Suc)
    moreover have "endpoints D U J h hs ! n \<in> set (endpoints D U J h hs)"
      using hit by (intro nth_mem) (simp add: endpoints_def)
    ultimately show ?thesis by blast
  next
    case miss
    then have "serve lookup ?e s = public_chain (ret ()) ?nf"
      using found by (auto simp: serve_def io_simps public_routes split: option.splits)
    then show ?thesis using nf unfolding endpoints_def by fastforce
  qed
qed

lemma endpoint_answers:
  assumes "ep \<in> set (endpoints D U J h hs)" and "server_ok s" and "rc_StatusCode (srv_ctx s) < 500"
  shows "\<exists>s'. ep s = (Value (), s') \<and> answered s s'"
proof -
  have "keeps (server_kept False) ep" using assms(1) by (auto simp: endpoints_def intro!: ok_intros)
  then obtain s' where s': "ep s = (Value (), s')" using assms(2) by (auto simp: runs_ok_def)
  moreover have "answered s s'"
    using assms s' Create_answers Get_answers Transfer_answers
    by (auto simp: endpoints_def io_simps answered_quietly)
  ultimately show ?thesis by blast
qed

subsection \<open>The business metrics\<close>

text \<open>The business side of a server: the database and the counts that only the endpoints change.\<close>

definition business :: "Metrics \<Rightarrow> nat \<times> nat \<times> nat \<times> nat \<times> nat" where
  "business m =
     (cv_count (Transfers m) [''completed''], cv_count (Transfers m) [''failed''],
      length (hv_observations (TransferLatency m) []),
      cv_count (IdempotencyHits m) [''with_key''], cv_count (IdempotencyHits m) [''no_key''])"

subsection \<open>Every request is recorded\<close>

text \<open>The lines a request adds to the log: an error line exactly for a 500, then its access line. The
  error line carries the request id of the access line.\<close>

definition request_lines :: "log_line list \<Rightarrow> log_line list \<Rightarrow> string \<Rightarrow> int \<Rightarrow> bool" where
  "request_lines old new rid status \<longleftrightarrow>
     (\<exists>fails access. new = old @ fails @ [access] \<and>
        log_msg access = ''request'' \<and> log_level access = LevelInfo \<and>
        map_of (log_attrs access) ''request_id'' = Some (LogString rid) \<and>
        map_of (log_attrs access) ''status'' = Some (LogInt status) \<and>
        (status < 500 \<and> fails = [] \<or>
         status = 500 \<and> (\<exists>line. fails = [line] \<and> log_level line = LevelError \<and>
           map_of (log_attrs line) ''request_id'' = Some (LogString rid))))"

definition request_recorded :: "('d, 'w) server \<Rightarrow> ('d, 'w) server \<Rightarrow> bool" where
  "request_recorded s s' \<longleftrightarrow>
     (let c = srv_ctx s'; status = rc_StatusCode c in
      request_lines (srv_log s) (srv_log s') (request_id_of s) status \<and>
      rc_response_headers c requestIDHeader = request_id_of s \<and>
      HTTPRequests (srv_metrics s') =
        cv_inc [route_label c, rc_Method (srv_ctx s), statusClass status] (HTTPRequests (srv_metrics s)) \<and>
      (\<exists>d. HTTPDuration (srv_metrics s') =
        hv_observe [route_label c, rc_Method (srv_ctx s)] d (HTTPDuration (srv_metrics s))) \<and>
      (status = 500 \<longrightarrow> rc_response c = Some (BodyError \<lparr>er_Error = ''internal server error''\<rparr>)))"

lemma chain_records:
  assumes ok: "server_ok s" and ep: "ep (prepared s) = (Value (), s2)" and a: "answered (prepared s) s2"
  shows "\<exists>s'. public_chain ep s = (Value (), s') \<and> server_ok s' \<and> request_recorded s s' \<and>
    srv_db s' = srv_db s2 \<and> srv_ctx s' = srv_ctx s2 \<and> business (srv_metrics s') = business (srv_metrics s2)"
proof -
  have s2: "server_ok s2" "same_request_side (prepared s) s2" using a by (simp_all add: answered_def)
  let ?s' = "observed (rc_Path (srv_ctx s)) (srv_clock s (srv_reads s)) s2"
  have keys: "rc_keys (srv_ctx s2) ''request_id'' = request_id_of s"
    "rc_response_headers (srv_ctx s2) requestIDHeader = request_id_of s"
    "rc_Method (srv_ctx s2) = rc_Method (srv_ctx s)"
    "HTTPRequests (srv_metrics s2) = HTTPRequests (srv_metrics s)"
    "HTTPDuration (srv_metrics s2) = HTTPDuration (srv_metrics s)"
    using s2(2) by (simp_all add: same_request_side_def)
  have lines: "request_lines (srv_log s) (srv_log ?s') (request_id_of s) (rc_StatusCode (srv_ctx s2))"
    using a unfolding answered_def request_lines_def
    by (auto simp: observed_def Let_def access_line_def keys failure_line_def)
  have "request_recorded s ?s'"
    using lines a keys unfolding request_recorded_def Let_def observed_sel
    by (auto simp: observed_def Let_def answered_def)
  moreover have "business (srv_metrics ?s') = business (srv_metrics s2)"
    by (simp add: observed_def business_def Let_def)
  ultimately show ?thesis using chain_Value [of ep s s2, OF ep s2(1)] s2(1) by simp
qed

lemma request_recorded_routed:
  "routed s s1 \<Longrightarrow> request_recorded s1 s' \<Longrightarrow> request_recorded s s'"
  by (simp add: request_recorded_def routed_sel)

text \<open>A request through the public server, with the endpoint that it reached.\<close>

lemma serve_answers:
  assumes ok: "server_ok s" and code: "rc_StatusCode (srv_ctx s) < 500"
  shows "\<exists>s1 ep s2 s'. ep \<in> set (endpoints D U J h hs) \<and> routed s s1 \<and> ep (prepared s1) = (Value (), s2) \<and>
    serve lookup (RegisterPublicRoutes D U J h hs new_hertz) s = (Value (), s') \<and>
    server_ok s' \<and> request_recorded s s' \<and> srv_db s' = srv_db s2 \<and> srv_ctx s' = srv_ctx s2 \<and> business (srv_metrics s') = business (srv_metrics s2)"
proof -
  obtain s1 ep where ep: "ep \<in> set (endpoints D U J h hs)" "routed s s1"
    "serve lookup (RegisterPublicRoutes D U J h hs new_hertz) s = public_chain ep s1"
    using serve_public by blast
  have s1: "server_ok s1" "rc_StatusCode (srv_ctx s1) < 500"
    using ep(2) ok code by (auto simp: routed_def)
  then obtain s2 where s2: "ep (prepared s1) = (Value (), s2)" "answered (prepared s1) s2"
    using endpoint_answers [OF ep(1), of "prepared s1"] by auto
  from chain_records [of s1 ep s2, OF s1(1) s2] ep s2(1) request_recorded_routed [OF ep(2)] show ?thesis by metis
qed

subsection \<open>What a request does to the database and to the business metrics\<close>

lemma Responder_business:
  assumes "server_ok s"
  shows "Responder_Error layer err s = (r, s') \<Longrightarrow>
      srv_db s' = srv_db s \<and> business (srv_metrics s') = business (srv_metrics s)"
    "Responder_BadRequest t msg s = (r, s') \<Longrightarrow>
      srv_db s' = srv_db s \<and> business (srv_metrics s') = business (srv_metrics s)"
  using assms by (auto simp: Responder_Error_run Responder_BadRequest_run business_def)

text \<open>A transfer request that was understood: one attempt, one outcome, one latency, one key label.\<close>

definition one_more_transfer :: "Metrics \<Rightarrow> Metrics \<Rightarrow> bool" where
  "one_more_transfer m m' \<longleftrightarrow>
     (case (business m, business m') of ((c, f, n, k, nk), (c', f', n', k', nk')) \<Rightarrow>
        n' = Suc n \<and> c' + f' = Suc (c + f) \<and> k' + nk' = Suc (k + nk))"

lemma served_business [simp]:
  "business (srv_metrics (creation_served w result s)) = business (srv_metrics s)"
  "result = ''completed'' \<or> result = ''failed'' \<Longrightarrow>
     one_more_transfer (srv_metrics s) (srv_metrics (transfer_served key w result s))"
  by (auto simp: one_more_transfer_def business_def transfer_served_def creation_served_def)

lemma Create_effect:
  assumes "server_ok s" and "AccountHandler_Create D J h ah s = (r, s')"
  shows "business (srv_metrics s') = business (srv_metrics s) \<and>
    (srv_db s' = srv_db s \<or>
     (\<exists>i b rc. run h (AccountService_Create D (ah_svc ah) i b) (srv_db s) = (rc, srv_db s')))"
  using assms
proof (cases rule: Create_cases)
  case (refused i b err w)
  with assms(1) Responder_business(1) [OF _ refused(2)] show ?thesis by auto
qed (use assms in \<open>auto dest: Responder_business(2) [OF assms(1)]\<close>)

lemma Get_effect:
  assumes "server_ok s" and "AccountHandler_Get h ah s = (r, s')"
  shows "business (srv_metrics s') = business (srv_metrics s) \<and>
    (srv_db s' = srv_db s \<or> (\<exists>i ra. run h (AccountService_Get (ah_svc ah) i) (srv_db s) = (ra, srv_db s')))"
  using assms(2)
proof (cases rule: Get_cases)
  case (refused i err w)
  with assms(1) Responder_business(1) [OF _ refused(2)] show ?thesis by auto
qed (use assms in \<open>auto dest: Responder_business(2) [OF assms(1)]\<close>)

lemma Transfer_effect:
  assumes "server_ok s" and "TransactionHandler_Transfer D U J h th s = (r, s')"
  shows "srv_db s' = srv_db s \<and> business (srv_metrics s') = business (srv_metrics s) \<or>
    (\<exists>cmd rt. run h (TransferService_Transfer D U (th_svc th) cmd) (srv_db s) = (rt, srv_db s')) \<and>
     one_more_transfer (srv_metrics s) (srv_metrics s')"
  using assms
proof (cases rule: Transfer_cases)
  case (refused cmd err w key)
  have "one_more_transfer (srv_metrics s) (srv_metrics (transfer_served key w ''failed'' s))" by simp
  with refused(1) assms(1) Responder_business(1) [OF _ refused(2)] show ?thesis
    by (auto simp: one_more_transfer_def)
qed (use assms in \<open>auto dest: Responder_business(2) [OF assms(1)]\<close>)

text \<open>A response that shows a transfer or an account, or a 201, comes from the service's success.\<close>

definition truthful ::
    "'d decimal_ops \<Rightarrow> 'u uuid_ops \<Rightarrow> ('d, 'w) handler \<Rightarrow> 'd Handlers \<Rightarrow> 'w \<Rightarrow> 'd RequestContext \<Rightarrow> 'w \<Rightarrow> bool" where
  "truthful D U h hs w c w' \<longleftrightarrow>
     (\<forall>b. rc_response c = Some (BodyTransaction b) \<longrightarrow> rc_StatusCode c = 200 \<and>
        (\<exists>cmd t. b = transaction_response t \<and>
           run h (TransferService_Transfer D U (th_svc (hs_Transaction hs)) cmd) w = (Inr t, w'))) \<and>
     (\<forall>b. rc_response c = Some (BodyAccount b) \<longrightarrow> rc_StatusCode c = 200 \<and>
        (\<exists>i a. b = \<lparr>ar_AccountID = acc_ID a, ar_Balance = acc_Balance a\<rparr> \<and>
           run h (AccountService_Get (ah_svc (hs_Account hs)) i) w = (Inr a, w'))) \<and>
     (rc_StatusCode c = 201 \<longrightarrow>
        (\<exists>i b. run h (AccountService_Create D (ah_svc (hs_Account hs)) i b) w = (Inr (), w')))"

lemma errorMapping_no_success [simp]: "fst (errorMapping e) \<noteq> 200" "fst (errorMapping e) \<noteq> 201"
  by (simp_all add: errorMapping_def)

lemma endpoint_truthful:
  assumes ep: "ep \<in> set (endpoints D U J h hs)" and ok: "server_ok s"
    and c: "rc_response (srv_ctx s) = None" "rc_StatusCode (srv_ctx s) \<noteq> 201" and r: "ep s = (r, s')"
  shows "truthful D U h hs (srv_db s) (srv_ctx s') (srv_db s')"
  using ep unfolding endpoints_def list.set insert_iff empty_iff
proof (elim disjE)
  assume "ep = AccountHandler_Create D J h (hs_Account hs)"
  from ok r [unfolded this] show ?thesis
    by (cases rule: Create_cases) (use ok c in \<open>auto simp: truthful_def Responder_Error_run Responder_BadRequest_run\<close>)
next
  assume "ep = AccountHandler_Get h (hs_Account hs)"
  from r [unfolded this] show ?thesis
    by (cases rule: Get_cases) (use ok c in \<open>auto simp: truthful_def Responder_Error_run Responder_BadRequest_run\<close>)
next
  assume "ep = TransactionHandler_Transfer D U J h (hs_Transaction hs)"
  from ok r [unfolded this] show ?thesis
    by (cases rule: Transfer_cases) (use ok c in \<open>auto simp: truthful_def Responder_Error_run Responder_BadRequest_run\<close>)
next
  assume "ep = ret ()"
  with r c show ?thesis by (auto simp: io_simps truthful_def)
qed simp

lemma truthful_routed:
  "routed s s1 \<Longrightarrow> rc_StatusCode (srv_ctx s) \<noteq> 201 \<Longrightarrow> rc_response (srv_ctx s) = None \<Longrightarrow>
     rc_response (srv_ctx (prepared s1)) = None \<and> rc_StatusCode (srv_ctx (prepared s1)) \<noteq> 201"
  by (auto simp: routed_def prepared_def identified_def)

lemma serve_truthful:
  assumes ok: "server_ok s" and c: "rc_StatusCode (srv_ctx s) < 500" "rc_StatusCode (srv_ctx s) \<noteq> 201"
      "rc_response (srv_ctx s) = None"
    and r: "serve lookup (RegisterPublicRoutes D U J h hs new_hertz) s = (r, s')"
  shows "truthful D U h hs (srv_db s) (srv_ctx s') (srv_db s')"
proof -
  from serve_answers [OF ok c(1), of D U J h hs lookup] r obtain s1 ep s2 where *:
    "ep \<in> set (endpoints D U J h hs)" "routed s s1" "ep (prepared s1) = (Value (), s2)"
    "srv_db s' = srv_db s2" "srv_ctx s' = srv_ctx s2" by auto
  have ok1: "server_ok (prepared s1)" "srv_db (prepared s1) = srv_db s"
    using ok routed_sel(1,2) [OF *(2)] by simp_all
  from endpoint_truthful [OF *(1) ok1(1) _ _ *(3)] truthful_routed [OF *(2) c(2,3)] ok1(2) *(4,5)
  show ?thesis by simp
qed

subsection \<open>Responses that show an outcome of the specification\<close>

text \<open>How a response shows what \<open>transfer_spec\<close> decided.\<close>

definition shows_payment :: "'d decimal_ops \<Rightarrow> 'd RequestContext \<Rightarrow> 'k payment \<Rightarrow> bool" where
  "shows_payment D c p \<longleftrightarrow> rc_StatusCode c = 200 \<and>
     (\<exists>b. rc_response c = Some (BodyTransaction b) \<and> trs_TransactionID b = pay_id p \<and>
        trs_SourceAccountID b = pay_source p \<and> trs_DestinationAccountID b = pay_destination p \<and>
        decimal_value D (trs_Amount b) = numeric_value (pay_amount p) \<and> trs_Status b = StatusCompleted)"

definition refusal_status :: "go_error \<Rightarrow> int" where
  "refusal_status e = (if e = ErrInsufficientFunds then 409 else if e = ErrIdempotencyConflict then 422 else 404)"

definition shows_refusal :: "'d RequestContext \<Rightarrow> go_error \<Rightarrow> bool" where
  "shows_refusal c e \<longleftrightarrow> rc_StatusCode c = refusal_status e \<and>
     rc_response c = Some (BodyError \<lparr>er_Error = error_text e\<rparr>)"

fun response_shows :: "'d decimal_ops \<Rightarrow> 'd RequestContext \<Rightarrow> 'k transfer_outcome \<Rightarrow> bool" where
  "response_shows D c (Refused e) = shows_refusal c e"
| "response_shows D c (Replayed p) = shows_payment D c p"
| "response_shows D c (Posted p) = shows_payment D c p"

lemma shows_payment_response:
  assumes "transfer_denotes D t p" and "rc_StatusCode c = 200"
    and "rc_response c = Some (BodyTransaction (transaction_response t))"
  shows "shows_payment D c p"
  using assms by (simp add: shows_payment_def transfer_denotes_def transaction_response_def)

lemma Responder_Error_shows:
  assumes "server_ok s" and "\<not> internal_error e \<and> fst (errorMapping e) = refusal_status e"
  shows "\<exists>s'. Responder_Error layer e s = (Value (), s') \<and> srv_db s' = srv_db s \<and> shows_refusal (srv_ctx s') e"
  using assms by (simp add: Responder_Error_run shows_refusal_def error_message_def)

lemma spec_refusals:
  "transfer_spec i k src dst n L = (Refused e, L') \<Longrightarrow>
     \<not> internal_error e \<and> fst (errorMapping e) = refusal_status e"
  by (auto simp: transfer_spec_def pay_new_def Let_def err_simps AccountNotFound_def errorMapping_def refusal_status_def
      split: option.splits if_splits)

lemma public_handlers_sel [simp]:
  "ah_svc (hs_Account (public_handlers D)) = accountSvc D"
  "th_svc (hs_Transaction (public_handlers D)) = transferSvc D"
  by (simp_all add: public_handlers_def NewAccountHandler_def NewTransactionHandler_def)

subsection \<open>Draining\<close>

lemma keeps_chain [ok_intros]:
  "keeps (server_kept b) p \<Longrightarrow> keeps (server_kept b) (public_chain p)"
  "keeps (server_kept b) p \<Longrightarrow> keeps (server_kept b) (chain [Recover] p)"
  by (auto simp: chain_def intro!: ok_intros)

lemma keeps_serve:
  assumes "\<And>r. r \<in> set (hz_routes e) \<Longrightarrow> keeps (server_kept b) (rt_chain r)"
    and "keeps (server_kept b) (chain (hz_middleware e) (ret ()))"
  shows "keeps (server_kept b) (serve lookup e)"
  unfolding serve_def Let_def
  by (auto split: option.split intro!: ok_intros assms)

lemma keeps_public_server [ok_intros]:
  "keeps (server_kept b) (serve lookup (RegisterPublicRoutes D U J h hs new_hertz))"
  by (rule keeps_serve) (auto simp: public_routes endpoints_def intro!: ok_intros)

lemma admin_routes:
  "hz_routes (RegisterAdminRoutes page new_hertz) =
     [\<lparr>rt_method = ''GET'', rt_pattern = ''/livez'', rt_chain = chain [Recover] Livez\<rparr>,
      \<lparr>rt_method = ''GET'', rt_pattern = ''/readyz'', rt_chain = chain [Recover] Readyz\<rparr>,
      \<lparr>rt_method = ''GET'', rt_pattern = ''/metrics'', rt_chain = chain [Recover] page\<rparr>]"
  "hz_middleware (RegisterAdminRoutes page new_hertz) = [Recover]"
  by (simp_all add: RegisterAdminRoutes_def Handle_def Use_def new_hertz_def Let_def)

lemma keeps_admin_server [ok_intros]:
  "keeps (server_kept b) page \<Longrightarrow> keeps (server_kept b) (serve lookup (RegisterAdminRoutes page new_hertz))"
  by (rule keeps_serve) (auto simp: admin_routes intro!: ok_intros)

text \<open>Requests to both servers, from \<open>s0\<close> on; between them the outside may change.\<close>

inductive requests ::
    "'d decimal_ops \<Rightarrow> 'u uuid_ops \<Rightarrow> 'd json_codec \<Rightarrow> ('d, 'w) handler \<Rightarrow> 'd Handlers \<Rightarrow> ('d, 'w, unit) http \<Rightarrow>
     route_finder \<Rightarrow> ('d, 'w) server \<Rightarrow> ('d, 'w) server \<Rightarrow> bool"
  for D U J h hs page lookup s0 where
  start: "requests D U J h hs page lookup s0 s0"
| public: "requests D U J h hs page lookup s0 s \<Longrightarrow>
    serve lookup (RegisterPublicRoutes D U J h hs new_hertz) (s\<lparr>srv_ctx := c\<rparr>) = (r, s') \<Longrightarrow>
    requests D U J h hs page lookup s0 s'"
| admin: "requests D U J h hs page lookup s0 s \<Longrightarrow>
    serve lookup (RegisterAdminRoutes page new_hertz) (s\<lparr>srv_ctx := c\<rparr>) = (r, s') \<Longrightarrow>
    requests D U J h hs page lookup s0 s'"
| environment: "requests D U J h hs page lookup s0 s \<Longrightarrow>
    requests D U J h hs page lookup s0
      (s\<lparr>srv_db := w, srv_clock := readings, srv_uuids := uuids, srv_ping := pings\<rparr>)"

lemma requests_keep:
  assumes "requests D U J h hs page lookup s0 s" and "server_kept b s0" and "keeps (server_kept b) page"
  shows "server_kept b s"
  using assms(1,2)
proof (induction rule: requests.induct)
  case (public s c r s')
  then have "server_kept b (s\<lparr>srv_ctx := c\<rparr>)" by (simp add: server_kept_def)
  from runs_okE [OF keeps_public_server this public.hyps(2)] show ?case by blast
next
  case (admin s c r s')
  then have "server_kept b (s\<lparr>srv_ctx := c\<rparr>)" by (simp add: server_kept_def)
  from runs_okE [OF keeps_admin_server [OF assms(3)] this admin.hyps(2)] show ?case by blast
qed (simp_all add: server_kept_def server_ok_def)

lemma keeps_page:
  fixes page :: "('d, 'w, unit) http"
  assumes "\<And>x. \<exists>c. page x = (Value (), x\<lparr>srv_ctx := c\<rparr>)"
  shows "keeps (server_kept b) page"
  unfolding runs_ok_def
proof (intro allI impI)
  fix x :: "('d, 'w) server"
  assume "server_kept b x"
  moreover obtain c where "page x = (Value (), x\<lparr>srv_ctx := c\<rparr>)" using assms by blast
  ultimately show "\<exists>y x'. page x = (Value y, x') \<and> server_kept b x'"
    by (simp add: server_kept_def server_ok_def)
qed

lemma Readyz_run:
  "Readyz s = (Value (),
     if srv_shuttingDown s then
       s\<lparr>srv_ctx := (srv_ctx s)\<lparr>rc_StatusCode := 503,
         rc_response := Some (BodyReady \<lparr>rr_Status = ''draining'', rr_Checks = []\<rparr>)\<rparr>\<rparr>
     else if srv_ping s (srv_pings s) then
       s\<lparr>srv_pings := Suc (srv_pings s), srv_ctx := (srv_ctx s)\<lparr>rc_StatusCode := 200,
         rc_response := Some (BodyReady \<lparr>rr_Status = ''ready'', rr_Checks = [(''postgres'', ''ok'')]\<rparr>)\<rparr>\<rparr>
     else
       s\<lparr>srv_pings := Suc (srv_pings s), srv_ctx := (srv_ctx s)\<lparr>rc_StatusCode := 503,
         rc_response := Some (BodyReady \<lparr>rr_Status = ''unavailable'', rr_Checks = [(''postgres'', ''down'')]\<rparr>)\<rparr>\<rparr>)"
  by (simp add: Readyz_def Ping_def io_simps)

subsection \<open>Histories of requests\<close>

text \<open>\<open>serving D U J lookup s\<close>: the server in state \<open>s\<close> started on the empty database with the metrics of
  \<open>NewMetrics\<close> and has served requests since. A new request replaces the request context; the
  environment may change the database's clock and the failures to come, and all readings to come.\<close>

definition fresh_request :: "'d RequestContext \<Rightarrow> bool" where
  "fresh_request c \<longleftrightarrow> rc_StatusCode c = 200 \<and> rc_response c = None \<and> \<not> rc_aborted c"

inductive serving ::
    "'d decimal_ops \<Rightarrow> 'u uuid_ops \<Rightarrow> 'd json_codec \<Rightarrow> route_finder \<Rightarrow> ('d, 'u world) server \<Rightarrow> bool"
  for D U J lookup where
  start: "initial_world (srv_db s) \<Longrightarrow> srv_metrics s = fresh_metrics \<Longrightarrow> srv_log s = [] \<Longrightarrow>
    serving D U J lookup s"
| request: "serving D U J lookup s \<Longrightarrow> fresh_request c \<Longrightarrow>
    serve lookup (public_server D U J) (s\<lparr>srv_ctx := c\<rparr>) = (r, s') \<Longrightarrow> serving D U J lookup s'"
| environment: "serving D U J lookup s \<Longrightarrow>
    serving D U J lookup (s\<lparr>srv_db := (srv_db s)\<lparr>clock := now, script := faults\<rparr>,
      srv_clock := readings, srv_uuids := uuids\<rparr>)"

text \<open>The business metrics agree, and every payment of the ledger came with a counted request.\<close>

definition requests_accounted :: "('d, 'u world) server \<Rightarrow> bool" where
  "requests_accounted s \<longleftrightarrow>
     (case business (srv_metrics s) of (completed, failed, latencies, with_key, no_key) \<Rightarrow>
        completed + failed = latencies \<and> with_key + no_key = latencies \<and>
        length (payments (settled_ledger (srv_db s))) \<le> latencies)"

definition server_books_ok :: "('d, 'u world) server \<Rightarrow> bool" where
  "server_books_ok s \<longleftrightarrow> server_ok s \<and> books_ok (srv_db s) \<and> requests_accounted s"

context postgres
begin

lemma payments_Create:
  assumes "books_ok w" and "run (pg D U) (AccountService_Create D (accountSvc D) i b) w = (r, w')"
  shows "payments (settled_ledger w') = payments (settled_ledger w)"
  using create_contract [of w i b r w'] assms by (auto simp: books_ok_def open_account_def)

lemma payments_Get:
  assumes "books_ok w" and "run (pg D U) (AccountService_Get (accountSvc D) i) w = (r, w')"
  shows "payments (settled_ledger w') = payments (settled_ledger w)"
  using get_contract [of w i r w'] assms by (auto simp: books_ok_def)

lemma payments_Transfer:
  assumes "books_ok w" and "run (pg D U) (TransferService_Transfer D U (transferSvc D) cmd) w = (r, w')"
  shows "length (payments (settled_ledger w')) \<le> Suc (length (payments (settled_ledger w)))"
  using transfer_contract [of w cmd r w'] assms by (auto simp: books_ok_def payment_posted_def)

lemma endpoint_books_ok:
  assumes ep: "ep \<in> set (endpoints D U J (pg D U) (public_handlers D))" and s: "server_books_ok s"
    and r: "ep s = (r, s')"
  shows "books_ok (srv_db s') \<and> requests_accounted s' \<and> history D U (srv_db s) (srv_db s')"
proof -
  have ok: "server_ok s" "books_ok (srv_db s)" "requests_accounted s"
    using s by (simp_all add: server_books_ok_def)
  have "history D U (srv_db s) (srv_db s') \<and>
    (business (srv_metrics s') = business (srv_metrics s) \<and>
       payments (settled_ledger (srv_db s')) = payments (settled_ledger (srv_db s)) \<or>
     one_more_transfer (srv_metrics s) (srv_metrics s') \<and>
       length (payments (settled_ledger (srv_db s'))) \<le> Suc (length (payments (settled_ledger (srv_db s)))))"
    using ep unfolding endpoints_def list.set insert_iff empty_iff
  proof (elim disjE)
    assume e: "ep = AccountHandler_Create D J (pg D U) (hs_Account (public_handlers D))"
    from Create_effect [OF ok(1) r [unfolded e]] payments_Create [OF ok(2)]
    show ?thesis by (auto intro: history.intros)
  next
    assume e: "ep = AccountHandler_Get (pg D U) (hs_Account (public_handlers D))"
    from Get_effect [OF ok(1) r [unfolded e]] payments_Get [OF ok(2)]
    show ?thesis by (auto intro: history.intros)
  next
    assume e: "ep = TransactionHandler_Transfer D U J (pg D U) (hs_Transaction (public_handlers D))"
    from Transfer_effect [OF ok(1) r [unfolded e]] payments_Transfer [OF ok(2)]
    show ?thesis by (auto intro: history.intros)
  next
    assume e: "ep = ret ()"
    with r show ?thesis by (auto simp: io_simps intro: history.start)
  qed simp
  moreover from this have "books_ok (srv_db s')" using history_books_ok ok(2) by blast
  moreover have "requests_accounted s'"
    using ok(3) calculation
    by (auto simp: requests_accounted_def one_more_transfer_def split: prod.splits)
  ultimately show ?thesis by blast
qed

lemma serve_books_ok:
  assumes s: "server_books_ok s" and c: "rc_StatusCode (srv_ctx s) < 500"
    and r: "serve lookup (public_server D U J) s = (r, s')"
  shows "r = Value () \<and> server_books_ok s' \<and> request_recorded s s' \<and> history D U (srv_db s) (srv_db s')"
proof -
  have ok: "server_ok s" using s by (simp add: server_books_ok_def)
  from serve_answers [OF ok c, of D U J "pg D U" "public_handlers D" lookup]
  obtain s1 ep s2 s'' where *: "ep \<in> set (endpoints D U J (pg D U) (public_handlers D))" "routed s s1"
    "ep (prepared s1) = (Value (), s2)" "serve lookup (public_server D U J) s = (Value (), s'')"
    "server_ok s''" "request_recorded s s''" "srv_db s'' = srv_db s2"
    "business (srv_metrics s'') = business (srv_metrics s2)"
    unfolding public_server_def by blast
  have "server_books_ok (prepared s1)"
    using s routed_sel [OF *(2)] by (simp add: server_books_ok_def requests_accounted_def)
  from endpoint_books_ok [OF *(1) this *(3)] * r routed_sel(2) [OF *(2)] show ?thesis
    by (simp add: server_books_ok_def requests_accounted_def)
qed

lemma serving_books_ok: "serving D U J lookup s \<Longrightarrow> server_books_ok s"
proof (induction rule: serving.induct)
  case (start s)
  then show ?case
    using initial_books_ok [of "srv_db s"]
    by (simp add: server_books_ok_def server_ok_def requests_accounted_def business_def fresh_metrics_def
        NewCounterVec_def NewHistogramVec_def metrics_ok_def initial_world_def settled_ledger_def
        abs_ledger_def empty_tables_def)
next
  case (request s c r s')
  have "server_books_ok (s\<lparr>srv_ctx := c\<rparr>)"
    using request.IH by (simp add: server_books_ok_def requests_accounted_def)
  from serve_books_ok [OF this _ request.hyps(3)] request.hyps(2) show ?case
    by (simp add: fresh_request_def)
next
  case (environment s uuids readings faults now)
  have "books_ok (srv_db s)" using environment.IH by (simp add: server_books_ok_def)
  with history_books_ok [OF history.environment [OF history.start]]
  have "books_ok ((srv_db s)\<lparr>clock := now, script := faults\<rparr>)" by blast
  with environment.IH show ?case
    by (simp add: server_books_ok_def requests_accounted_def server_ok_def settled_ledger_def)
qed

end

end
