(* ===== verification/Http_Samples.thy ===== *)
theory Http_Samples
  imports Http_System Samples
begin

text \<open>
  A concrete server for the witnesses of the request layer: the sample database behind a codec that
  knows three bodies and a router that knows the three public and the three admin routes.
\<close>

definition sample_codec :: "refdec json_codec" where
  "sample_codec =
     \<lparr>BindCreateAccount = (\<lambda>body. if body = ''open 3''
        then Some \<lparr>car_AccountID = 3, car_InitialBalance = (25, - 1)\<rparr> else None),
      BindTransfer = (\<lambda>body. if body = ''pay 1 2 30.5''
        then Some \<lparr>trq_SourceAccountID = 1, trq_DestinationAccountID = 2, trq_Amount = (305, - 1)\<rparr> else None)\<rparr>"

definition sample_lookup :: route_finder where
  "sample_lookup routes meth path =
     (if meth = ''GET'' \<and> take 10 path = ''/accounts/'' then Some (1, \<lambda>k. if k = ''account_id'' then drop 10 path else [])
      else
        (case filter (\<lambda>n. routes ! n = (meth, path)) [0..<length routes] of
           [] \<Rightarrow> None | n # _ \<Rightarrow> Some (n, \<lambda>_. [])))"

definition sample_request :: "string \<Rightarrow> string \<Rightarrow> string \<Rightarrow> string \<Rightarrow> refdec RequestContext" where
  "sample_request meth path key body =
     \<lparr>rc_Method = meth, rc_Path = path, rc_FullPath = [],
      rc_headers = (\<lambda>h. if h = idempotencyHeader then key else []), rc_params = (\<lambda>_. []), rc_body = body,
      rc_keys = (\<lambda>_. []), rc_response_headers = (\<lambda>_. []), rc_StatusCode = 200, rc_response = None,
      rc_aborted = False\<rparr>"

definition sample_server :: "refdec RequestContext \<Rightarrow> (refdec, nat list world) server" where
  "sample_server c =
     \<lparr>srv_db = sample_world, srv_metrics = fresh_metrics, srv_log = [], srv_clock = (\<lambda>n. 1000000 * int n),
      srv_reads = 0, srv_uuids = (\<lambda>n. ''request-'' @ nat_digits n), srv_fresh = 0, srv_shuttingDown = False,
      srv_ping = (\<lambda>_. True), srv_pings = 0, srv_ctx = c\<rparr>"

definition pay_request :: "refdec RequestContext" where
  "pay_request = sample_request ''POST'' ''/transactions'' sample_key ''pay 1 2 30.5''"

lemma sample_server_ok [simp]: "server_ok (sample_server c)"
  by (simp add: sample_server_def server_ok_def)

lemma sample_server_sel [simp]:
  "srv_db (sample_server c) = sample_world" "srv_ctx (sample_server c) = c"
  "srv_shuttingDown (sample_server c) = False" "srv_log (sample_server c) = []"
  "srv_metrics (sample_server c) = fresh_metrics"
  by (simp_all add: sample_server_def)

lemma sample_request_sel [simp]:
  "rc_StatusCode (sample_request meth path key body) = 200"
  "rc_response (sample_request meth path key body) = None"
  "rc_body (sample_request meth path key body) = body"
  "rc_headers (sample_request meth path key body) idempotencyHeader = key"
  by (simp_all add: sample_request_def)

end
