(* ===== verification/Http_Properties.thy ===== *)
theory Http_Properties
  imports Http_Samples
begin

text \<open>
  The properties of the request layer, over the servers as \<open>main\<close> wires them and, where the database
  does not matter, over any database.
\<close>



text \<open>C24: Responses tell the truth. A response that shows a transfer has status 200 and is the record
  with which the transfer service succeeded in this request, one that shows an account has status 200
  and is the account that the account service read, and a 201 means that the account service opened an
  account; the database is as that call left it.\<close>

theorem responses_tell_the_truth:
  assumes "server_ok s" and "fresh_request (srv_ctx s)"
    and "serve lookup (RegisterPublicRoutes D U J h hs new_hertz) s = (r, s')"
  shows "truthful D U h hs (srv_db s) (srv_ctx s') (srv_db s')"
  by (rule serve_truthful [OF assms(1) _ _ _ assms(3)]) (use assms(2) in \<open>simp_all add: fresh_request_def\<close>)

theorem responses_tell_the_truth_witness:
  "\<exists>s' b. serve sample_lookup (public_server ref_decimal ref_uuid sample_codec) (sample_server pay_request) =
      (Value (), s') \<and> rc_response (srv_ctx s') = Some (BodyTransaction b) \<and> trs_TransactionID b = 1 \<and>
    (\<exists>cmd t. b = transaction_response t \<and> ref_run (ref_transfer cmd) sample_world = (Inr t, srv_db s'))"
proof -
  let ?p = "serve sample_lookup (public_server ref_decimal ref_uuid sample_codec) (sample_server pay_request)"
  obtain r s' where run: "?p = (r, s')" by fastforce
  have "(case ?p of (r, s') \<Rightarrow> r = Value () \<and>
      (case rc_response (srv_ctx s') of Some (BodyTransaction b) \<Rightarrow> trs_TransactionID b = 1 | _ \<Rightarrow> False))"
    by code_simp
  with run obtain b where b: "r = Value ()" "rc_response (srv_ctx s') = Some (BodyTransaction b)"
    "trs_TransactionID b = 1" by (auto split: option.splits body.splits)
  have "truthful ref_decimal ref_uuid (pg ref_decimal ref_uuid) (public_handlers ref_decimal) sample_world
      (srv_ctx s') (srv_db s')"
    using responses_tell_the_truth [OF sample_server_ok _ run [unfolded public_server_def]]
    by (simp add: fresh_request_def pay_request_def sample_request_def)
  with run b show ?thesis
    by (auto simp: truthful_def public_handlers_def NewTransactionHandler_def)
qed

text \<open>C25: The transfer endpoint implements \<open>transfer_spec\<close>. When the request is understood, its command is
  valid, nothing outside the program fails and the destination can hold the sum, the response shows
  the specification's outcome: 200 with the payment that was posted or replayed, 404 for an unknown
  account, 409 for insufficient funds, 422 for a key of another request, each with the error's text;
  and the ledger becomes the specification's.\<close>

theorem transfer_response_follows_spec:
  assumes "decimal_laws D" and "uuid_laws U" and "server_ok s"
    and "BindTransfer J (rc_body (srv_ctx s)) = Some req"
    and "cmd = transfer_cmd req (rc_headers (srv_ctx s) idempotencyHeader)"
    and "TransferService_validate D U cmd = None" and "pg_calm_idle 5 (srv_db s)"
    and "requested_key U cmd = Some key"
    and "\<And>b. balance_of (settled_ledger (srv_db s)) (cmd_DestinationID cmd) = Some b \<Longrightarrow>
      b + cmd_units D cmd < numeric_limit"
  shows "\<exists>i s'. TransactionHandler_Transfer D U J (pg D U) (hs_Transaction (public_handlers D)) s = (Value (), s') \<and>
    (case transfer_spec i key (cmd_SourceID cmd) (cmd_DestinationID cmd) (cmd_units D cmd)
        (settled_ledger (srv_db s)) of
       (out, L') \<Rightarrow> settled_ledger (srv_db s') = L' \<and> response_shows D (srv_ctx s') out)"
proof -
  have "\<exists>i r w. run (pg D U) (TransferService_Transfer D U (transferSvc D) cmd) (srv_db s) = (r, w) \<and>
      (case transfer_spec i key (cmd_SourceID cmd) (cmd_DestinationID cmd) (cmd_units D cmd)
        (settled_ledger (srv_db s)) of (out, L') \<Rightarrow> outcome_denotes D r out \<and> settled_ledger w = L')"
    by (rule postgres.transfer_refinement [OF postgresI [OF assms(1,2)] assms(6-8)]) (rule assms(9))
  then obtain i r w where
    run: "run (pg D U) (TransferService_Transfer D U (transferSvc D) cmd) (srv_db s) = (r, w)"
    and refines: "case transfer_spec i key (cmd_SourceID cmd) (cmd_DestinationID cmd) (cmd_units D cmd)
        (settled_ledger (srv_db s)) of (out, L') \<Rightarrow> outcome_denotes D r out \<and> settled_ledger w = L'"
    by (elim exE conjE)
  obtain out L' where spec: "transfer_spec i key (cmd_SourceID cmd) (cmd_DestinationID cmd) (cmd_units D cmd)
        (settled_ledger (srv_db s)) = (out, L')" by fastforce
  with refines have out: "outcome_denotes D r out" "settled_ledger w = L'" by simp_all
  let ?H = "TransactionHandler_Transfer D U J (pg D U) (hs_Transaction (public_handlers D)) s"
  let ?key = "rc_headers (srv_ctx s) idempotencyHeader"
  have h: "?H = (case r of
       Inl err \<Rightarrow> Responder_Error ''service'' err (transfer_served ?key w ''failed'' s)
     | Inr t \<Rightarrow> (Value (), (transfer_served ?key w ''completed'' s)\<lparr>srv_ctx := (srv_ctx s)\<lparr>
         rc_StatusCode := 200, rc_response := Some (BodyTransaction (transaction_response t))\<rparr>\<rparr>))"
    by (rule Transfer_run [OF assms(3,4) refl]) (use run assms(5) in simp)
  have "\<exists>s'. ?H = (Value (), s') \<and> srv_db s' = w \<and> response_shows D (srv_ctx s') out"
  proof (cases r)
    case (Inl e)
    with out have e: "out = Refused e" by (cases out) simp_all
    have "server_ok (transfer_served ?key w ''failed'' s)" using assms(3) by simp
    from Responder_Error_shows [OF this spec_refusals [OF spec [unfolded e]]] Inl h e
    show ?thesis by simp
  next
    case (Inr t)
    with out have "shows_payment D c p" if "out = Posted p \<or> out = Replayed p"
      "rc_StatusCode c = 200" "rc_response c = Some (BodyTransaction (transaction_response t))"
      for c p using that by (auto intro: shows_payment_response)
    with Inr out h show ?thesis by (cases out) simp_all
  qed
  with spec out(2) show ?thesis by (intro exI [of _ i]) auto
qed

text \<open>Account 2 sends what it does not have: the response is a 409.\<close>

theorem transfer_response_follows_spec_witness:
  "\<exists>s'. TransactionHandler_Transfer ref_decimal ref_uuid (sample_codec\<lparr>BindTransfer := (\<lambda>_. Some
        \<lparr>trq_SourceAccountID = 2, trq_DestinationAccountID = 1, trq_Amount = (305, - 1)\<rparr>)\<rparr>)
      (pg ref_decimal ref_uuid) (hs_Transaction (public_handlers ref_decimal))
      (sample_server (sample_request ''POST'' ''/transactions'' [] [])) = (Value (), s') \<and>
    rc_StatusCode (srv_ctx s') = 409 \<and> settled_ledger (srv_db s') = settled_ledger sample_world"
proof -
  let ?J = "sample_codec\<lparr>BindTransfer := (\<lambda>_. Some
        \<lparr>trq_SourceAccountID = 2, trq_DestinationAccountID = 1, trq_Amount = (305, - 1)\<rparr>)\<rparr>"
  let ?s = "sample_server (sample_request ''POST'' ''/transactions'' [] [])"
  have v: "TransferService_validate ref_decimal ref_uuid back_cmd = None" by code_simp
  have k: "requested_key ref_uuid back_cmd = Some None" by code_simp
  have cmd: "cmd_SourceID back_cmd = 2 \<and> cmd_DestinationID back_cmd = 1 \<and>
      cmd_units ref_decimal back_cmd = 30500000000000000000" by code_simp
  have b: "balance_of (settled_ledger sample_world) 1 = Some 100000000000000000000 \<and>
    balance_of (settled_ledger sample_world) 2 = Some 0" by code_simp
  have "\<exists>i s'. TransactionHandler_Transfer ref_decimal ref_uuid ?J (pg ref_decimal ref_uuid)
      (hs_Transaction (public_handlers ref_decimal)) ?s = (Value (), s') \<and>
    (case transfer_spec i None (cmd_SourceID back_cmd) (cmd_DestinationID back_cmd)
        (cmd_units ref_decimal back_cmd) (settled_ledger (srv_db ?s)) of
       (out, L') \<Rightarrow> settled_ledger (srv_db s') = L' \<and> response_shows ref_decimal (srv_ctx s') out)"
    by (rule transfer_response_follows_spec [OF ref_laws sample_server_ok _ _ v _ k,
          where req = "\<lparr>trq_SourceAccountID = 2, trq_DestinationAccountID = 1, trq_Amount = (305, - 1)\<rparr>"])
      (use b cmd sample_calm in \<open>simp_all add: back_cmd_def transfer_cmd_def numeric_limit_def\<close>)
  then show ?thesis
    using b cmd by (auto simp: transfer_spec_def pay_new_def shows_refusal_def refusal_status_def)
qed

text \<open>C26: The books and the business metrics stay in order while the server runs. After any sequence of
  requests, from the empty database and the metrics of \<open>NewMetrics\<close>, whatever fails in between: the
  metrics have the labels their call sites use, the ledger's invariant holds, and the counters agree:
  completed plus failed transfers, observed latencies, and requests with a key plus requests without
  one are the same number, which is at least the number of payments.\<close>

theorem books_and_metrics_stay_in_order:
  assumes "decimal_laws D" and "uuid_laws U" and "serving D U J lookup s"
  shows "server_books_ok s"
  by (rule postgres.serving_books_ok [OF postgresI [OF assms(1,2)] assms(3)])

definition empty_server :: "(refdec, nat list world) server" where
  "empty_server = (sample_server pay_request)\<lparr>srv_db := no_rows_world\<rparr>"

theorem books_and_metrics_stay_in_order_witness:
  "server_books_ok (snd (serve sample_lookup (public_server ref_decimal ref_uuid sample_codec)
     (empty_server\<lparr>srv_ctx := pay_request\<rparr>)))"
proof -
  have "serving ref_decimal ref_uuid sample_codec sample_lookup empty_server"
    by (rule serving.start) (simp_all add: empty_server_def initial_world_def no_rows_world_def)
  from serving.request [OF this, of pay_request, OF _ surjective_pairing]
  show ?thesis
    by (intro books_and_metrics_stay_in_order [OF ref_laws])
      (simp add: fresh_request_def pay_request_def sample_request_def)
qed

text \<open>C27: A panic behind the middlewares becomes a 500. If an endpoint panics, the caller gets the generic
  500, one error is counted under \<open>panic_recovered\<close> and one error line with the request's id is logged;
  but \<open>Observe\<close>, which the panic has left by then, neither counts the request nor logs its access.\<close>

theorem panics_are_contained:
  assumes "ep (prepared s) = (Panic r, s2)" and "server_ok s2"
  shows "\<exists>s'. chain [Recover, RequestID, Observe] ep s = (Value (), s') \<and>
    rc_StatusCode (srv_ctx s') = 500 \<and> rc_aborted (srv_ctx s') \<and>
    rc_response (srv_ctx s') = Some (BodyError \<lparr>er_Error = ''internal server error''\<rparr>) \<and>
    srv_log s' = srv_log s2 @ [panic_line r (srv_ctx s2)] \<and>
    Errors (srv_metrics s') = cv_inc [''panic_recovered'', ''middleware''] (Errors (srv_metrics s2)) \<and>
    HTTPRequests (srv_metrics s') = HTTPRequests (srv_metrics s2) \<and>
    HTTPDuration (srv_metrics s') = HTTPDuration (srv_metrics s2) \<and> srv_db s' = srv_db s2"
  using chain_Panic [of ep s r s2, OF assms] by (simp add: recovered_def)

theorem panics_are_contained_witness:
  "\<exists>s'. chain [Recover, RequestID, Observe] (\<lambda>s. (Panic ''boom'', s)) (sample_server pay_request) =
      (Value (), s') \<and> rc_StatusCode (srv_ctx s') = 500 \<and> length (srv_log s') = 1"
proof -
  have "server_ok (prepared (sample_server pay_request))" by simp
  from panics_are_contained [of "\<lambda>s. (Panic ''boom'', s)", OF refl this] show ?thesis by auto
qed

text \<open>C28: Readiness. A probe answers 200 exactly when the service is not draining and the database
  answers the ping; while draining it does not ask the database. And draining is final: once
  \<open>SetNotReady\<close> ran, every later probe answers 503, whatever requests to both servers came in between
  (the metrics page, which is the client library's, only writes its response).\<close>

theorem draining_is_final:
  assumes "server_ok s" and "SetNotReady s = (r, s0)" and "\<And>x. \<exists>c. page x = (Value (), x\<lparr>srv_ctx := c\<rparr>)"
    and "requests D U J h hs page lookup s0 s1"
  shows "(\<exists>s2. Readyz s1 = (Value (), s2) \<and> rc_StatusCode (srv_ctx s2) = 503 \<and>
      rc_response (srv_ctx s2) = Some (BodyReady \<lparr>rr_Status = ''draining'', rr_Checks = []\<rparr>) \<and>
      srv_pings s2 = srv_pings s1) \<and>
    (\<exists>s2. Readyz s = (Value (), s2) \<and> rc_StatusCode (srv_ctx s2) =
      (if \<not> srv_shuttingDown s \<and> srv_ping s (srv_pings s) then 200 else 503))"
proof -
  have "server_kept True s0"
    using assms(1,2) by (auto simp: SetNotReady_def io_simps server_kept_def server_ok_def)
  then have "srv_shuttingDown s1"
    using requests_keep [OF assms(4) _ keeps_page, of True] assms(3) by (simp add: server_kept_def)
  then show ?thesis by (simp add: Readyz_run)
qed

theorem draining_is_final_witness:
  "\<exists>s1 s2. requests ref_decimal ref_uuid sample_codec (pg ref_decimal ref_uuid) (public_handlers ref_decimal)
      (JSON 200 (BodyStrings [])) sample_lookup (snd (SetNotReady (sample_server pay_request))) s1 \<and>
    Readyz s1 = (Value (), s2) \<and> rc_StatusCode (srv_ctx s2) = 503"
proof -
  let ?s = "sample_server pay_request"
  let ?page = "JSON 200 (BodyStrings []) :: (refdec, nat list world, unit) http"
  let ?P = "serve sample_lookup (RegisterPublicRoutes ref_decimal ref_uuid sample_codec (pg ref_decimal ref_uuid)
      (public_handlers ref_decimal) new_hertz)"
  obtain r s0 where s0: "SetNotReady ?s = (r, s0)" by fastforce
  obtain r1 s1 where s1: "?P (s0\<lparr>srv_ctx := pay_request\<rparr>) = (r1, s1)" by fastforce
  have page: "\<exists>c. ?page x = (Value (), x\<lparr>srv_ctx := c\<rparr>)" for x by (auto simp: io_simps)
  note reqs = requests.public [OF requests.start s1, where page = ?page]
  from draining_is_final [OF sample_server_ok s0 page reqs] reqs s0 show ?thesis by auto
qed

text \<open>C29: \<open>GET /accounts/:account_id\<close> shows the ledger. For the decimal text of a positive id, when
  nothing fails, the endpoint answers 200 with that id and the committed balance, or 404 when there is
  no such account, and touches nothing; for a text that is no 64-bit number it answers 400 without
  asking the service.\<close>

theorem account_response_follows_ledger:
  assumes "decimal_laws D" and "uuid_laws U" and "server_ok s" and "pg_calm_idle c (srv_db s)"
  shows "(case ParseInt64 (rc_params (srv_ctx s) ''account_id'') of
      None \<Rightarrow> \<exists>s'. AccountHandler_Get (pg D U) (hs_Account (public_handlers D)) s = (Value (), s') \<and>
        srv_db s' = srv_db s \<and> rc_StatusCode (srv_ctx s') = 400
    | Some i \<Rightarrow> \<exists>s'. AccountHandler_Get (pg D U) (hs_Account (public_handlers D)) s = (Value (), s') \<and>
        srv_db s' = srv_db s \<and>
        (if sint i \<le> 0 then rc_StatusCode (srv_ctx s') = 400
         else case balance_of (settled_ledger (srv_db s)) i of
           None \<Rightarrow> rc_StatusCode (srv_ctx s') = 404
         | Some n \<Rightarrow> rc_StatusCode (srv_ctx s') = 200 \<and>
             (\<exists>b. rc_response (srv_ctx s') = Some (BodyAccount b) \<and> ar_AccountID b = i \<and>
                decimal_value D (ar_Balance b) = numeric_value n)))"
proof (cases "ParseInt64 (rc_params (srv_ctx s) ''account_id'')")
  case None
  then show ?thesis using assms(3) by (simp add: AccountHandler_Get_def io_simps Responder_BadRequest_run)
next
  case (Some i)
  let ?get = "AccountService_Get (accountSvc D) i"
  show ?thesis
  proof (cases "0 < sint i")
    case False
    then have "run (pg D U) ?get (srv_db s) = (Inl ErrInvalidAccountID, srv_db s)"
      by (simp add: AccountService_Get_def validateAccountID_def)
    with Some False assms(3) show ?thesis
      by (simp add: AccountHandler_Get_def io_simps Responder_Error_run err_simps)
  next
    case True
    from postgres.get_refinement [OF postgresI [OF assms(1,2)] True assms(4)] obtain ra where
      ra: "run (pg D U) ?get (srv_db s) = (ra, srv_db s)"
      "case balance_of (settled_ledger (srv_db s)) i of None \<Rightarrow> ra = Inl (AccountNotFound i)
       | Some n \<Rightarrow> \<exists>a. ra = Inr a \<and> acc_ID a = i \<and> decimal_value D (acc_Balance a) = numeric_value n"
      by blast
    with Some True assms(3) show ?thesis
      by (auto simp: AccountHandler_Get_def io_simps Responder_Error_run err_simps split: option.splits)
  qed
qed

theorem account_response_follows_ledger_witness:
  "\<exists>s' b. AccountHandler_Get (pg ref_decimal ref_uuid) (hs_Account (public_handlers ref_decimal))
      (sample_server (pay_request\<lparr>rc_params := (\<lambda>_. ''1'')\<rparr>)) = (Value (), s') \<and>
    rc_StatusCode (srv_ctx s') = 200 \<and> rc_response (srv_ctx s') = Some (BodyAccount b) \<and>
    decimal_value ref_decimal (ar_Balance b) = 100"
proof -
  let ?s = "sample_server (pay_request\<lparr>rc_params := (\<lambda>_. ''1'')\<rparr>)"
  have "ParseInt64 ''1'' = Some 1" by code_simp
  moreover have "balance_of (settled_ledger sample_world) 1 = Some 100000000000000000000" by code_simp
  moreover have "pg_calm_idle 5 (srv_db ?s)" using sample_calm by simp
  ultimately show ?thesis
    using account_response_follows_ledger [OF ref_laws sample_server_ok, of 5 "pay_request\<lparr>rc_params := (\<lambda>_. ''1'')\<rparr>"]
    by (auto simp: numeric_value_def)
qed

text \<open>C30: \<open>POST /accounts\<close> implements \<open>open_spec\<close>: for an understood request with a valid id and balance,
  when nothing fails, a free id is opened with 201, a taken one is refused with 409 and changes
  nothing, and the attempt is counted under its result.\<close>

theorem account_creation_follows_spec:
  assumes "decimal_laws D" and "uuid_laws U" and "server_ok s" and "pg_calm_idle (Suc c) (srv_db s)"
    and "BindCreateAccount J (rc_body (srv_ctx s)) = Some req"
    and "0 < sint (car_AccountID req)" and "validateInitialBalance D (car_InitialBalance req) = None"
  shows "\<exists>s'. AccountHandler_Create D J (pg D U) (hs_Account (public_handlers D)) s = (Value (), s') \<and>
    (case open_spec (car_AccountID req) (units D (car_InitialBalance req)) (settled_ledger (srv_db s)) of
       (out, L') \<Rightarrow> settled_ledger (srv_db s') = L' \<and>
         (case out of
            Inr _ \<Rightarrow> rc_StatusCode (srv_ctx s') = 201 \<and>
              AccountsCreated (srv_metrics s') = cv_inc [''ok''] (AccountsCreated (srv_metrics s))
          | Inl e \<Rightarrow> e = ErrAccountAlreadyExists \<and> rc_StatusCode (srv_ctx s') = 409 \<and>
              AccountsCreated (srv_metrics s') = cv_inc [''error''] (AccountsCreated (srv_metrics s))))"
proof -
  let ?run = "run (pg D U) (AccountService_Create D (accountSvc D) (car_AccountID req) (car_InitialBalance req))"
  from postgres.create_refinement [OF postgresI [OF assms(1,2)] assms(6,7,4)] obtain r w where
    r: "?run (srv_db s) = (r, w)"
      "open_spec (car_AccountID req) (units D (car_InitialBalance req)) (settled_ledger (srv_db s)) =
         (r, settled_ledger w)" by metis
  have "r = Inl e \<Longrightarrow> e = ErrAccountAlreadyExists" for e
    using r(2) by (auto simp: open_spec_def split: if_splits)
  with r assms(3,5) show ?thesis
    by (cases r) (auto simp: AccountHandler_Create_def io_simps Responder_Error_run err_simps)
qed

theorem account_creation_follows_spec_witness:
  "\<exists>s'. AccountHandler_Create ref_decimal sample_codec (pg ref_decimal ref_uuid)
      (hs_Account (public_handlers ref_decimal))
      (sample_server (sample_request ''POST'' ''/accounts'' [] ''open 3'')) = (Value (), s') \<and>
    rc_StatusCode (srv_ctx s') = 201 \<and>
    settled_ledger (srv_db s') = open_account 3 2500000000000000000 (settled_ledger sample_world)"
proof -
  let ?s = "sample_server (sample_request ''POST'' ''/accounts'' [] ''open 3'')"
  let ?req = "\<lparr>car_AccountID = 3, car_InitialBalance = (25, - 1)\<rparr> :: refdec CreateAccountRequest"
  have v: "validateInitialBalance ref_decimal (car_InitialBalance ?req) = None" by code_simp
  have "units ref_decimal (25, - 1) = 2500000000000000000" by code_simp
  moreover have "balance_of (settled_ledger sample_world) 3 = None" by code_simp
  moreover have "pg_calm_idle (Suc 4) (srv_db ?s)" using sample_calm by simp
  moreover have "BindCreateAccount sample_codec (rc_body (srv_ctx ?s)) = Some ?req"
    by (simp add: sample_codec_def)
  ultimately show ?thesis
    using account_creation_follows_spec [OF ref_laws sample_server_ok _ _ _ v, of 4
        "sample_request ''POST'' ''/accounts'' [] ''open 3''" sample_codec]
    by (auto simp: open_spec_def)
qed

end
