(* ===== verification/Url.thy ===== *)
theory Url
  imports Prelude
begin

text \<open>
  The parts of Go's \<open>net\<close> and \<open>net/url\<close> that \<open>DBConfig.DSN\<close> uses: \<open>JoinHostPort\<close>, percent-encoding
  in its modes, \<open>Values.Encode\<close> for one key, and \<open>URL.String\<close> for a URL without an opaque part and
  fragment. Strings are byte sequences. \<open>unescape\<close> is the inverse that the server side applies, and
  the lemmas show that escaping can be undone and that an escaped user name or password contains none
  of the bytes that delimit it.
\<close>

subsection \<open>Bytes\<close>

definition is_alnum :: "char \<Rightarrow> bool" where
  "is_alnum c = (let n = of_char c :: nat in 97 \<le> n \<and> n \<le> 122 \<or> 65 \<le> n \<and> n \<le> 90 \<or> 48 \<le> n \<and> n \<le> 57)"

definition upperhex :: "nat \<Rightarrow> char" where
  "upperhex d = (if d < 10 then char_of (48 + d) else char_of (55 + d))"

definition unhex :: "char \<Rightarrow> nat option" where
  "unhex c = (let n = of_char c :: nat in
     if 48 \<le> n \<and> n \<le> 57 then Some (n - 48)
     else if 97 \<le> n \<and> n \<le> 102 then Some (n - 87)
     else if 65 \<le> n \<and> n \<le> 70 then Some (n - 55)
     else None)"

subsection \<open>Escaping\<close>

datatype encoding = EncodePath | EncodeHost | EncodeUserPassword | EncodeQueryComponent

definition shouldEscape :: "char \<Rightarrow> encoding \<Rightarrow> bool" where
  "shouldEscape c mode =
     (if is_alnum c then False
      else if mode = EncodeHost \<and> c \<in> set ''!$&()*+,;=:[]<>'' \<union> {CHR 0x27, CHR 0x22} then False
      else if c \<in> set ''-_.~'' then False
      else if c \<in> set ''$&+,/:;=?@'' then
        (case mode of
           EncodePath \<Rightarrow> c = CHR ''?''
         | EncodeUserPassword \<Rightarrow> c \<in> set ''@/?:''
         | EncodeQueryComponent \<Rightarrow> True
         | EncodeHost \<Rightarrow> True)
      else True)"

definition escape_char :: "encoding \<Rightarrow> char \<Rightarrow> string" where
  "escape_char mode c =
     (if shouldEscape c mode then
        (if c = CHR '' '' \<and> mode = EncodeQueryComponent then ''+''
         else [CHR ''%'', upperhex (of_char c div 16), upperhex (of_char c mod 16)])
      else [c])"

definition escape :: "encoding \<Rightarrow> string \<Rightarrow> string" where
  "escape mode s = concat (map (escape_char mode) s)"

fun unescape :: "encoding \<Rightarrow> string \<Rightarrow> string option" where
  "unescape mode [] = Some []"
| "unescape mode (c # cs) =
     (if c = CHR ''%'' then
        (case cs of
           h # l # rest \<Rightarrow>
             (case (unhex h, unhex l) of
                (Some a, Some b) \<Rightarrow> map_option (Cons (char_of (16 * a + b))) (unescape mode rest)
              | _ \<Rightarrow> None)
         | _ \<Rightarrow> None)
      else if c = CHR ''+'' \<and> mode = EncodeQueryComponent
        then map_option (Cons (CHR '' '')) (unescape mode cs)
      else map_option (Cons c) (unescape mode cs))"

subsection \<open>URLs\<close>

definition JoinHostPort :: "string \<Rightarrow> string \<Rightarrow> string" where
  "JoinHostPort host port =
     (if CHR '':'' \<in> set host then ''['' @ host @ '']:'' @ port else host @ '':'' @ port)"

datatype userinfo = User string | UserPassword string string

definition userinfo_String :: "userinfo \<Rightarrow> string" where
  "userinfo_String u =
     (case u of
        User name \<Rightarrow> escape EncodeUserPassword name
      | UserPassword name pw \<Rightarrow> escape EncodeUserPassword name @ '':'' @ escape EncodeUserPassword pw)"

record url =
  url_Scheme :: string
  url_Host :: string
  url_Path :: string
  url_RawQuery :: string
  url_User :: userinfo

definition EscapedPath :: "string \<Rightarrow> string" where
  "EscapedPath path = (if path = ''*'' then ''*'' else escape EncodePath path)"

text \<open>\<open>URL.String\<close> for a URL with a scheme and a user.\<close>

definition url_String :: "url \<Rightarrow> string" where
  "url_String u =
     (let path = EscapedPath (url_Path u) in
      url_Scheme u @ ''://'' @ userinfo_String (url_User u) @ ''@'' @
      (if url_Host u = [] then [] else escape EncodeHost (url_Host u)) @
      (if path \<noteq> [] \<and> hd path \<noteq> CHR ''/'' \<and> url_Host u \<noteq> [] then ''/'' else []) @ path @
      (if url_RawQuery u = [] then [] else ''?'' @ url_RawQuery u))"

text \<open>\<open>Values.Encode\<close> for a single key and value.\<close>

definition Encode1 :: "string \<Rightarrow> string \<Rightarrow> string" where
  "Encode1 k v = escape EncodeQueryComponent k @ ''='' @ escape EncodeQueryComponent v"

subsection \<open>Unescaping inverts escaping\<close>

lemma unhex_upperhex [simp]: "d < 16 \<Longrightarrow> unhex (upperhex d) = Some d"
  by (simp add: unhex_def upperhex_def Let_def)

lemma byte_split: "char_of (16 * (of_char c div 16) + of_char c mod 16 :: nat) = (c :: char)"
  by simp

lemma of_char_nibbles: "(of_char (c :: char) :: nat) div 16 < 16" "(of_char (c :: char) :: nat) mod 16 < 16"
proof -
  have "(of_char c :: nat) < 256" by simp
  then show "(of_char c :: nat) div 16 < 16" by (intro less_mult_imp_div_less) simp
qed simp

lemma escaped_percent: "shouldEscape (CHR ''%'') mode"
  by (cases mode) (simp_all add: shouldEscape_def is_alnum_def)

lemma unescape_escape_char:
  "unescape mode (escape_char mode c @ s) = map_option (Cons c) (unescape mode s)"
proof (cases "shouldEscape c mode")
  case True
  then show ?thesis
    using byte_split [of c] of_char_nibbles [of c]
    by (cases "c = CHR '' '' \<and> mode = EncodeQueryComponent") (auto simp: escape_char_def)
next
  case False
  then have "c \<noteq> CHR ''%''" using escaped_percent by auto
  moreover have "\<not> (c = CHR ''+'' \<and> mode = EncodeQueryComponent)"
    using False by (auto simp: shouldEscape_def is_alnum_def)
  ultimately show ?thesis using False by (auto simp: escape_char_def)
qed

lemma unescape_escape: "unescape mode (escape mode s) = Some s"
  by (induction s) (simp_all add: escape_def unescape_escape_char)

subsection \<open>No delimiter in an escaped user name or password\<close>

lemma upperhex_alnum: "d < 16 \<Longrightarrow> is_alnum (upperhex d)"
  by (simp add: is_alnum_def upperhex_def Let_def)

lemma escape_bytes:
  assumes "shouldEscape c mode" and "\<not> is_alnum c" and "c \<notin> set ''%+''"
  shows "c \<notin> set (escape mode s)"
proof
  assume "c \<in> set (escape mode s)"
  then obtain b where b: "c \<in> set (escape_char mode b)" by (auto simp: escape_def)
  have hex: "upperhex d \<noteq> c" if "d < 16" for d
    using upperhex_alnum [OF that] assms(2) by auto
  show False
  proof (cases "shouldEscape b mode")
    case True
    with b hex [OF of_char_nibbles(1)] hex [OF of_char_nibbles(2)] assms(3) show ?thesis
      by (auto simp: escape_char_def split: if_splits)
  next
    case False
    with b assms(1) show ?thesis by (auto simp: escape_char_def)
  qed
qed

lemma delimiters_escaped:
  "c \<in> set ''@/?:'' \<Longrightarrow> shouldEscape c EncodeUserPassword \<and> \<not> is_alnum c \<and> c \<notin> set ''%+''"
  "c \<in> set ''@/?'' \<Longrightarrow> shouldEscape c EncodeHost"
  "shouldEscape (CHR ''?'') EncodePath"
  by (auto simp: shouldEscape_def is_alnum_def)

lemma escape_userpassword_bytes: "c \<in> set (escape EncodeUserPassword s) \<Longrightarrow> c \<notin> set ''@/?:''"
  using escape_bytes delimiters_escaped(1) by blast

lemma escape_host_bytes: "c \<in> set (escape EncodeHost s) \<Longrightarrow> c \<notin> set ''@/?''"
  using escape_bytes [of c EncodeHost s] delimiters_escaped(1,2) [of c] by auto

lemma escape_path_bytes: "CHR ''?'' \<notin> set (escape EncodePath s)"
  by (rule escape_bytes) (simp_all add: shouldEscape_def is_alnum_def)

end
