(* ===== verification/Config.thy ===== *)
theory Config
  imports Url Domain
begin

text \<open>
  \<open>internal/config/config.go\<close>: the configuration, its loading, and the database URL.

  \<open>viper\<close> is not part of the repository. What \<open>Load\<close> tells it before it reads anything (defaults,
  bound environment variables, the configuration file, \<open>AutomaticEnv\<close>) is the record
  \<open>viper_settings\<close>; what it answers then is the argument \<open>viper_ops\<close>.
\<close>

subsection \<open>Types\<close>

record DBConfig =
  db_Host :: string
  db_Port :: int64
  db_User :: string
  db_Password :: string
  db_DBName :: string
  db_SSLMode :: string
  db_MaxConns :: "32 word"

text \<open>A \<open>time.Duration\<close> is an \<open>int64\<close> of nanoseconds, whose multiplication wraps.\<close>

record Config =
  cfg_Addr :: string
  cfg_MetricsAddr :: string
  cfg_Database :: DBConfig
  cfg_ShutdownTimeout :: int64
  cfg_RunMigrations :: bool
  cfg_LogLevel :: string
  cfg_LogFile :: string

definition DSN :: "DBConfig \<Rightarrow> string" where
  "DSN d =
     url_String
       \<lparr>url_Scheme = ''postgres'', url_Host = JoinHostPort (db_Host d) (fmt_d (sint (db_Port d))),
        url_Path = db_DBName d, url_RawQuery = Encode1 ''sslmode'' (db_SSLMode d),
        url_User = (if db_Password d \<noteq> '''' then UserPassword (db_User d) (db_Password d)
                    else User (db_User d))\<rparr>"

subsection \<open>Load\<close>

datatype setting = SettingString string | SettingInt int | SettingBool bool

record viper_settings =
  vs_defaults :: "(string \<times> setting) list"
  vs_env :: "(string \<times> string) list"
  vs_file :: "string option"
  vs_automatic :: bool

record viper_ops =
  v_ReadInConfig :: "viper_settings \<Rightarrow> go_error option"
  v_Unmarshal :: "viper_settings \<Rightarrow> go_error + Config"
  v_GetInt :: "viper_settings \<Rightarrow> string \<Rightarrow> int"

definition load_defaults :: "(string \<times> setting) list" where
  "load_defaults =
     [(''addr'', SettingString '':8080''),
      (''metrics_addr'', SettingString '':9090''),
      (''database.host'', SettingString ''localhost''),
      (''database.port'', SettingInt 5432),
      (''database.user'', SettingString ''postgres''),
      (''database.password'', SettingString ''''),
      (''database.dbname'', SettingString ''transfers''),
      (''database.sslmode'', SettingString ''disable''),
      (''database.max_conns'', SettingInt 10),
      (''shutdown_timeout_seconds'', SettingInt 15),
      (''run_migrations'', SettingBool True),
      (''log_level'', SettingString ''info''),
      (''log_file'', SettingString '''')]"

definition load_env :: "(string \<times> string) list" where
  "load_env =
     [(''addr'', ''APP_ADDR''),
      (''metrics_addr'', ''METRICS_ADDR''),
      (''database.host'', ''DB_HOST''),
      (''database.port'', ''DB_PORT''),
      (''database.user'', ''DB_USER''),
      (''database.password'', ''DB_PASSWORD''),
      (''database.dbname'', ''DB_NAME''),
      (''database.sslmode'', ''DB_SSLMODE''),
      (''database.max_conns'', ''DB_MAX_CONNS''),
      (''shutdown_timeout_seconds'', ''SHUTDOWN_TIMEOUT_SECONDS''),
      (''run_migrations'', ''RUN_MIGRATIONS''),
      (''log_level'', ''LOG_LEVEL''),
      (''log_file'', ''LOG_FILE'')]"

text \<open>The settings for the value of the environment variable \<open>CONFIG_FILE\<close>.\<close>

definition load_settings :: "string \<Rightarrow> viper_settings" where
  "load_settings configFile =
     \<lparr>vs_defaults = load_defaults, vs_env = load_env,
      vs_file = (if configFile \<noteq> '''' then Some configFile else None),
      vs_automatic = (configFile = '''')\<rparr>"

definition timeout_seconds :: "viper_ops \<Rightarrow> viper_settings \<Rightarrow> int" where
  "timeout_seconds V st =
     (let timeoutSec = v_GetInt V st ''shutdown_timeout_seconds'' in
      if timeoutSec = 15 \<and> v_GetInt V st ''shutdown_timeout'' \<noteq> 0 then v_GetInt V st ''shutdown_timeout''
      else timeoutSec)"

definition Load :: "viper_ops \<Rightarrow> (string \<Rightarrow> string) \<Rightarrow> go_error + Config" where
  "Load V getenv =
     (let configFile = getenv ''CONFIG_FILE''; st = load_settings configFile in
      case (if configFile \<noteq> '''' then v_ReadInConfig V st else None) of
        Some err \<Rightarrow> Inl (Wrapf ''failed to read config file'' err)
      | None \<Rightarrow>
     (case v_Unmarshal V st of
        Inl err \<Rightarrow> Inl (Wrapf ''failed to unmarshal config'' err)
      | Inr cfg \<Rightarrow>
          let cfg = cfg\<lparr>cfg_ShutdownTimeout := word_of_int (timeout_seconds V st) * 1000000000\<rparr> in
          if db_Host (cfg_Database cfg) = '''' \<or> db_DBName (cfg_Database cfg) = ''''
          then Inl (ExternalError ''database host and dbname are required'')
          else if sint (db_MaxConns (cfg_Database cfg)) \<le> 0
          then Inl (ExternalError ''database max_conns must be positive'')
          else Inr cfg))"

subsection \<open>What a loaded configuration satisfies\<close>

lemma Load_Inr_iff:
  "Load V getenv = Inr cfg \<longleftrightarrow>
     (let st = load_settings (getenv ''CONFIG_FILE'') in
      (getenv ''CONFIG_FILE'' \<noteq> [] \<longrightarrow> v_ReadInConfig V st = None) \<and>
      (\<exists>cfg0. v_Unmarshal V st = Inr cfg0 \<and>
         cfg = cfg0\<lparr>cfg_ShutdownTimeout := word_of_int (timeout_seconds V st) * 1000000000\<rparr> \<and>
         db_Host (cfg_Database cfg0) \<noteq> [] \<and> db_DBName (cfg_Database cfg0) \<noteq> [] \<and>
         0 < sint (db_MaxConns (cfg_Database cfg0))))"
  by (auto simp: Load_def Let_def split: option.splits sum.splits if_splits)

lemma sint_small: "\<bar>i\<bar> < 2 ^ 63 \<Longrightarrow> sint (word_of_int i :: int64) = i"
  by (subst sint_sbintrunc') (simp add: signed_take_bit_int_eq_self_iff abs_less_iff)

lemma seconds_in_range:
  assumes "\<bar>n\<bar> \<le> 9223372036"
  shows "sint (word_of_int n * 1000000000 :: int64) = n * 1000000000"
proof -
  have "word_of_int n * 1000000000 = (word_of_int (n * 1000000000) :: int64)" by simp
  with assms show ?thesis by (simp only:) (rule sint_small, simp add: abs_mult)
qed

text \<open>The documented order of precedence, where a configuration file is read: a bound environment
  variable that is set wins over the file, which wins over the default; \<open>GetInt\<close> of a key that is
  known nowhere is 0. \<open>file\<close> is what the file says.\<close>

definition viper_precedence :: "viper_ops \<Rightarrow> (string \<Rightarrow> string) \<Rightarrow> (string \<Rightarrow> int option) \<Rightarrow> bool" where
  "viper_precedence V getenv file \<longleftrightarrow>
     (\<forall>configFile. configFile \<noteq> [] \<longrightarrow>
        (\<forall>key var i. map_of load_env key = Some var \<and> getenv var = fmt_d i \<and> \<bar>i\<bar> < 2 ^ 63 \<longrightarrow>
           v_GetInt V (load_settings configFile) key = i) \<and>
        (\<forall>key. map_of load_env key = None \<and> map_of load_defaults key = None \<longrightarrow>
           v_GetInt V (load_settings configFile) key = (case file key of Some i \<Rightarrow> i | None \<Rightarrow> 0)))"

lemma timeout_of_environment:
  assumes V: "viper_precedence V getenv file" and f: "configFile \<noteq> []"
    and e: "getenv ''SHUTDOWN_TIMEOUT_SECONDS'' = fmt_d n" "\<bar>n\<bar> < 2 ^ 63"
  shows "timeout_seconds V (load_settings configFile) =
    (case file ''shutdown_timeout'' of Some t \<Rightarrow> if n = 15 \<and> t \<noteq> 0 then t else n | None \<Rightarrow> n)"
proof -
  have "map_of load_env ''shutdown_timeout_seconds'' = Some ''SHUTDOWN_TIMEOUT_SECONDS''"
    "map_of load_env ''shutdown_timeout'' = None" "map_of load_defaults ''shutdown_timeout'' = None"
    by (simp_all add: load_env_def load_defaults_def)
  with V f e have "v_GetInt V (load_settings configFile) ''shutdown_timeout_seconds'' = n"
    "v_GetInt V (load_settings configFile) ''shutdown_timeout'' =
       (case file ''shutdown_timeout'' of Some t \<Rightarrow> t | None \<Rightarrow> 0)"
    unfolding viper_precedence_def by blast+
  then show ?thesis by (simp add: timeout_seconds_def Let_def split: option.split)
qed

subsection \<open>The database URL\<close>

text \<open>What a reader of the URL does with its authority: everything up to the first \<open>@\<close> is the user
  information, split at its first \<open>:\<close>.\<close>

definition split_at :: "char \<Rightarrow> string \<Rightarrow> string \<times> string" where
  "split_at c s = (takeWhile (\<lambda>x. x \<noteq> c) s, drop 1 (dropWhile (\<lambda>x. x \<noteq> c) s))"

definition read_userinfo :: "string \<Rightarrow> (string \<times> string option) option" where
  "read_userinfo s =
     (let (name, pw) = split_at (CHR '':'') s in
      case unescape EncodeUserPassword name of
        None \<Rightarrow> None
      | Some name' \<Rightarrow>
          if CHR '':'' \<in> set s then map_option (\<lambda>p. (name', Some p)) (unescape EncodeUserPassword pw)
          else Some (name', None))"

lemma split_at_append: "c \<notin> set s \<Longrightarrow> split_at c (s @ c # t) = (s, t)"
  by (induction s) (auto simp: split_at_def)

lemma split_at_absent: "c \<notin> set s \<Longrightarrow> split_at c s = (s, [])"
  by (induction s) (auto simp: split_at_def)

lemma userinfo_bytes: "c \<in> set (userinfo_String u) \<Longrightarrow> c \<notin> set ''@/?''"
  using escape_userpassword_bytes [of c]
  by (auto simp: userinfo_String_def split: userinfo.splits)

lemma JoinHostPort_nonempty [simp]: "JoinHostPort host port \<noteq> []"
  by (simp add: JoinHostPort_def)

lemma escape_Nil_iff: "escape mode p = [] \<longleftrightarrow> p = []"
  by (cases p) (simp_all add: escape_def escape_char_def)

lemma EscapedPath_decodes:
  "unescape EncodePath (EscapedPath p) = Some p" "CHR ''?'' \<notin> set (EscapedPath p)"
  "EscapedPath p = [] \<longleftrightarrow> p = []"
  using escape_path_bytes [of p] unescape_escape [of EncodePath p]
  by (auto simp: EscapedPath_def escape_Nil_iff)

lemma EscapedPath_slash: "p \<noteq> [] \<Longrightarrow> hd (EscapedPath p) = CHR ''/'' \<longleftrightarrow> hd p = CHR ''/''"
  by (cases p) (auto simp: EscapedPath_def escape_def escape_char_def shouldEscape_def is_alnum_def)

lemma path_decodes:
  fixes name
  defines "path \<equiv> (if EscapedPath name \<noteq> [] \<and> hd (EscapedPath name) \<noteq> CHR ''/''
      then CHR ''/'' # EscapedPath name else EscapedPath name)"
  shows "unescape EncodePath path =
      Some (if name = [] \<or> take 1 name = ''/'' then name else CHR ''/'' # name)"
    and "CHR ''?'' \<notin> set path"
proof -
  have "take 1 name = ''/'' \<longleftrightarrow> name \<noteq> [] \<and> hd name = CHR ''/''" by (cases name) auto
  then show "unescape EncodePath path =
      Some (if name = [] \<or> take 1 name = ''/'' then name else CHR ''/'' # name)"
    using EscapedPath_decodes [of name] EscapedPath_slash [of name] by (auto simp: path_def)
  show "CHR ''?'' \<notin> set path" using EscapedPath_decodes(2) [of name] by (auto simp: path_def)
qed

lemma read_userinfo_String:
  "read_userinfo (userinfo_String u) =
     (case u of User n \<Rightarrow> Some (n, None) | UserPassword n p \<Rightarrow> Some (n, Some p))"
proof -
  have colon: "CHR '':'' \<notin> set (escape EncodeUserPassword s)" for s
    using escape_userpassword_bytes [of "CHR '':''" s] by auto
  show ?thesis
    using split_at_append [OF colon] split_at_absent [OF colon] colon
    by (cases u) (auto simp: read_userinfo_def userinfo_String_def unescape_escape)
qed

end
