(* ===== verification/Migrate.thy ===== *)
theory Migrate
  imports Effects Domain "HOL-Library.List_Lexorder" "HOL-Library.Char_ord" "HOL-Library.Sublist"
begin

text \<open>
  \<open>internal/platform/postgres/migrate.go\<close>: applying the embedded migration files under an advisory
  lock. The connection records what it was asked to do; what it answers, and the embedded file system
  (\<open>migrations.FS\<close>), are arguments. The second part runs any number of replicas that migrate at the
  same time, with PostgreSQL's advisory lock between them.
\<close>

definition migrationLockID :: int64 where
  "migrationLockID = 4242"

subsection \<open>The connection and the files\<close>

datatype conn_event =
    Acquire
  | AdvisoryLock int64
  | ExecScript string
  | AdvisoryUnlock int64
  | Release

record connection =
  cn_events :: "conn_event list"
  cn_answers :: "nat \<Rightarrow> go_error option"

record embed_fs =
  fs_ReadDir :: "go_error + string list"
  fs_ReadFile :: "string \<Rightarrow> go_error + string"

text \<open>The answer to the next call is a function of the number of calls so far.\<close>

definition conn_call :: "conn_event \<Rightarrow> (connection, go_error option) io" where
  "conn_call ev c = (Value (cn_answers c (length (cn_events c))), c\<lparr>cn_events := cn_events c @ [ev]\<rparr>)"

definition best_effort :: "conn_event \<Rightarrow> (connection, unit) io" where
  "best_effort ev = next_io (conn_call ev) (ret ())"

definition HasSuffix :: "string \<Rightarrow> string \<Rightarrow> bool" where
  "HasSuffix s suf \<longleftrightarrow> length suf \<le> length s \<and> drop (length s - length suf) s = suf"

definition upFiles :: "embed_fs \<Rightarrow> go_error + string list" where
  "upFiles fs =
     (case fs_ReadDir fs of
        Inl err \<Rightarrow> Inl (Wrapf ''read migrations dir'' err)
      | Inr entries \<Rightarrow> Inr (sort (filter (\<lambda>name. HasSuffix name ''.up.sql'') entries)))"

fun apply_files :: "embed_fs \<Rightarrow> string list \<Rightarrow> (connection, go_error option) io" where
  "apply_files fs [] = ret None"
| "apply_files fs (name # names) =
     (case fs_ReadFile fs name of
        Inl err \<Rightarrow> ret (Some (Wrapf (''read '' @ name) err))
      | Inr sql \<Rightarrow>
          bind_io (conn_call (ExecScript sql)) (\<lambda>r. case r of
            Some err \<Rightarrow> ret (Some (Wrapf (''apply '' @ name) err))
          | None \<Rightarrow> apply_files fs names))"

definition Migrate :: "embed_fs \<Rightarrow> (connection, go_error option) io" where
  "Migrate fs =
     bind_io (conn_call Acquire) (\<lambda>r. case r of
       Some err \<Rightarrow> ret (Some (Wrapf ''acquire conn'' err))
     | None \<Rightarrow>
         deferring (best_effort Release)
          (bind_io (conn_call (AdvisoryLock migrationLockID)) (\<lambda>r. case r of
             Some err \<Rightarrow> ret (Some (Wrapf ''acquire advisory lock'' err))
           | None \<Rightarrow>
               deferring (best_effort (AdvisoryUnlock migrationLockID))
                 (case upFiles fs of
                    Inl err \<Rightarrow> ret (Some err)
                  | Inr files \<Rightarrow> apply_files fs files))))"

subsection \<open>One run\<close>

lemma upFiles_sorted:
  "upFiles fs = Inr files \<Longrightarrow> fs_ReadDir fs = Inr entries \<Longrightarrow>
     sorted files \<and> set files = {name \<in> set entries. HasSuffix name ''.up.sql''} \<and>
     (distinct entries \<longrightarrow> distinct files)"
  by (auto simp: upFiles_def)

text \<open>The script of a file, empty when it cannot be read.\<close>

definition script_of :: "embed_fs \<Rightarrow> string \<Rightarrow> string" where
  "script_of fs name = (case fs_ReadFile fs name of Inl _ \<Rightarrow> [] | Inr sql \<Rightarrow> sql)"

lemma apply_files_trace:
  "\<exists>k r. k \<le> length files \<and> apply_files fs files c =
     (Value r, c\<lparr>cn_events := cn_events c @ map (\<lambda>f. ExecScript (script_of fs f)) (take k files)\<rparr>) \<and>
     (r = None \<longrightarrow> k = length files)"
proof (induction files arbitrary: c)
  case Nil
  then show ?case by (simp add: io_simps)
next
  case (Cons name names)
  show ?case
  proof (cases "fs_ReadFile fs name")
    case (Inl err)
    then show ?thesis by (intro exI [of _ 0]) (auto simp: io_simps)
  next
    case (Inr sql)
    let ?c = "c\<lparr>cn_events := cn_events c @ [ExecScript sql]\<rparr>"
    have s: "script_of fs name = sql" using Inr by (simp add: script_of_def)
    show ?thesis
    proof (cases "cn_answers c (length (cn_events c))")
      case None
      from Cons.IH [of ?c] obtain k r where k: "k \<le> length names"
        "apply_files fs names ?c = (Value r, ?c\<lparr>cn_events := cn_events ?c @
           map (\<lambda>f. ExecScript (script_of fs f)) (take k names)\<rparr>)" "r = None \<longrightarrow> k = length names" by blast
      with Inr None s show ?thesis
        by (intro exI [of _ "Suc k"] exI [of _ r]) (simp add: io_simps conn_call_def)
    next
      case (Some err)
      with Inr s show ?thesis
        by (intro exI [of _ 1] exI [of _ "Some (Wrapf (''apply '' @ name) err)"])
          (simp add: io_simps conn_call_def)
    qed
  qed
qed

text \<open>Every run of \<open>Migrate\<close> that gets the lock applies a prefix of the files in order, gives the lock
  back and releases the connection; it reports success only for the whole list.\<close>

definition locked_run :: "embed_fs \<Rightarrow> string list \<Rightarrow> nat \<Rightarrow> conn_event list" where
  "locked_run fs files k =
     [Acquire, AdvisoryLock migrationLockID] @ map (\<lambda>f. ExecScript (script_of fs f)) (take k files) @
     [AdvisoryUnlock migrationLockID, Release]"

lemma Migrate_trace:
  assumes "cn_events c = []"
  shows "\<exists>r c'. Migrate fs c = (Value r, c') \<and>
    (cn_events c' = [Acquire] \<and> r \<noteq> None \<or>
     cn_events c' = [Acquire, AdvisoryLock migrationLockID, Release] \<and> r \<noteq> None \<or>
     (\<exists>files k. (upFiles fs = Inr files \<or> (\<exists>err. upFiles fs = Inl err) \<and> files = []) \<and> k \<le> length files \<and>
        cn_events c' = locked_run fs files k \<and> (r = None \<longrightarrow> k = length files \<and> upFiles fs = Inr files)))"
proof (cases "cn_answers c 0")
  case (Some err)
  with assms show ?thesis by (simp add: Migrate_def io_simps conn_call_def)
next
  case acquired: None
  show ?thesis
  proof (cases "cn_answers c 1")
    case (Some err)
    with assms acquired show ?thesis
      by (simp add: Migrate_def io_simps conn_call_def best_effort_def)
  next
    case locked: None
    let ?c = "c\<lparr>cn_events := [Acquire, AdvisoryLock migrationLockID]\<rparr>"
    show ?thesis
    proof (cases "upFiles fs")
      case (Inl err)
      with assms acquired locked show ?thesis
        by (simp add: Migrate_def io_simps conn_call_def best_effort_def locked_run_def)
    next
      case (Inr files)
      from apply_files_trace [of files fs ?c] obtain k r where k: "k \<le> length files"
        "apply_files fs files ?c = (Value r, ?c\<lparr>cn_events := cn_events ?c @
           map (\<lambda>f. ExecScript (script_of fs f)) (take k files)\<rparr>)" "r = None \<longrightarrow> k = length files" by blast
      with assms acquired locked Inr show ?thesis
        by (auto simp: Migrate_def io_simps conn_call_def best_effort_def locked_run_def)
    qed
  qed
qed

subsection \<open>Replicas that migrate together\<close>

text \<open>A replica waits for the lock, holds it and has applied \<open>k\<close> scripts, or has given it back (after
  all of them, or after a failure). \<open>mg_applied\<close> is the sequence of scripts the database has run.\<close>

datatype phase = Waiting | Applying nat | Finished

record migration =
  mg_phase :: "nat \<Rightarrow> phase"
  mg_applied :: "(nat \<times> string) list"

inductive migration_step :: "string list \<Rightarrow> migration \<Rightarrow> migration \<Rightarrow> bool" for scripts where
  lock: "mg_phase m i = Waiting \<Longrightarrow> \<forall>j k. mg_phase m j \<noteq> Applying k \<Longrightarrow>
    migration_step scripts m (m\<lparr>mg_phase := (mg_phase m)(i := Applying 0)\<rparr>)"
| exec: "mg_phase m i = Applying k \<Longrightarrow> k < length scripts \<Longrightarrow>
    migration_step scripts m (m\<lparr>mg_phase := (mg_phase m)(i := Applying (Suc k)),
      mg_applied := mg_applied m @ [(i, scripts ! k)]\<rparr>)"
| unlock: "mg_phase m i = Applying k \<Longrightarrow>
    migration_step scripts m (m\<lparr>mg_phase := (mg_phase m)(i := Finished)\<rparr>)"

inductive_cases migration_stepE: "migration_step scripts m m'"

definition all_waiting :: migration where
  "all_waiting = \<lparr>mg_phase = (\<lambda>_. Waiting), mg_applied = []\<rparr>"

text \<open>The scripts of one replica's run, and a sequence made of whole runs of different replicas.\<close>

definition block_of :: "string list \<Rightarrow> nat \<times> nat \<Rightarrow> (nat \<times> string) list" where
  "block_of scripts b = map (Pair (fst b)) (take (snd b) scripts)"

definition serialised :: "string list \<Rightarrow> migration \<Rightarrow> bool" where
  "serialised scripts m \<longleftrightarrow>
     (\<exists>blocks. mg_applied m = concat (map (block_of scripts) blocks) \<and> distinct (map fst blocks) \<and>
        (\<forall>(i, k) \<in> set blocks. k \<le> length scripts \<and> mg_phase m i \<in> {Applying k, Finished}) \<and>
        (\<forall>i k. mg_phase m i = Applying k \<longrightarrow> blocks \<noteq> [] \<and> last blocks = (i, k)))"

lemma block_of_Suc:
  "k < length scripts \<Longrightarrow> block_of scripts (i, Suc k) = block_of scripts (i, k) @ [(i, scripts ! k)]"
  by (simp add: block_of_def take_Suc_conv_app_nth)

lemma serialised_step:
  assumes "serialised scripts m" and "migration_step scripts m m'"
  shows "serialised scripts m'"
proof -
  obtain blocks where b: "mg_applied m = concat (map (block_of scripts) blocks)" "distinct (map fst blocks)"
    "\<forall>(i, k) \<in> set blocks. k \<le> length scripts \<and> mg_phase m i \<in> {Applying k, Finished}"
    "\<forall>i k. mg_phase m i = Applying k \<longrightarrow> blocks \<noteq> [] \<and> last blocks = (i, k)"
    using assms(1) unfolding serialised_def by blast
  from assms(2) show ?thesis
  proof cases
    case (lock i)
    have old: "j \<noteq> i \<and> n \<le> length scripts \<and> mg_phase m j = Finished" if "(j, n) \<in> set blocks" for j n
      using b(3) lock(2,3) that by fastforce
    have "distinct (map fst (blocks @ [(i, 0)]))" using b(2) old by force
    moreover have "\<forall>(j, n) \<in> set (blocks @ [(i, 0)]). n \<le> length scripts \<and> mg_phase m' j \<in> {Applying n, Finished}"
      using old lock by auto
    moreover have "mg_applied m' = concat (map (block_of scripts) (blocks @ [(i, 0)]))"
      using b(1) lock by (simp add: block_of_def)
    moreover have "\<forall>j n. mg_phase m' j = Applying n \<longrightarrow> blocks @ [(i, 0)] \<noteq> [] \<and> last (blocks @ [(i, 0)]) = (j, n)"
      using lock by auto
    ultimately show ?thesis unfolding serialised_def by blast
  next
    case (exec i k)
    with b(4) have l: "blocks \<noteq> []" "last blocks = (i, k)" by auto
    then obtain bs where bs: "blocks = bs @ [(i, k)]" by (metis append_butlast_last_id)
    have fresh: "i \<notin> fst ` set bs" using b(2) bs by simp
    have others: "mg_phase m j \<noteq> Applying n" if "j \<noteq> i" for j n
      using b(4) l that by fastforce
    have old: "j \<noteq> i \<and> n \<le> length scripts \<and> mg_phase m j \<in> {Applying n, Finished}"
      if "(j, n) \<in> set bs" for j n
      using b(3) bs fresh that by force
    have "mg_applied m' = concat (map (block_of scripts) (bs @ [(i, Suc k)]))"
      using b(1) exec bs by (simp add: block_of_Suc)
    moreover have "distinct (map fst (bs @ [(i, Suc k)]))" using b(2) bs by simp
    moreover have "\<forall>(j, n) \<in> set (bs @ [(i, Suc k)]). n \<le> length scripts \<and> mg_phase m' j \<in> {Applying n, Finished}"
      using exec by (auto dest: old)
    moreover have "\<forall>j n. mg_phase m' j = Applying n \<longrightarrow> bs @ [(i, Suc k)] \<noteq> [] \<and> last (bs @ [(i, Suc k)]) = (j, n)"
      using exec others by auto
    ultimately show ?thesis unfolding serialised_def by blast
  next
    case (unlock i k)
    have others: "mg_phase m j \<noteq> Applying n" if "j \<noteq> i" for j n
      using b(4) unlock(2) that by (metis prod.inject)
    have "n \<le> length scripts \<and> mg_phase m' j \<in> {Applying n, Finished}" if "(j, n) \<in> set blocks" for j n
      using b(3) unlock(1) that by force
    moreover have "mg_phase m' j \<noteq> Applying n" for j n using unlock(1) others by simp
    moreover have "mg_applied m' = mg_applied m" using unlock(1) by simp
    ultimately show ?thesis unfolding serialised_def using b(1,2) by (intro exI [of _ blocks]) auto
  qed
qed

lemma serialised_start: "serialised scripts all_waiting"
  unfolding serialised_def by (intro exI [of _ "[]"]) (simp add: all_waiting_def)

lemma serialised_reachable:
  "(migration_step scripts)\<^sup>*\<^sup>* all_waiting m \<Longrightarrow> serialised scripts m"
  by (induction rule: rtranclp_induct) (auto intro: serialised_start serialised_step)

end
