(* ===== verification/Tracer.thy ===== *)
theory Tracer
  imports Metrics Querier
begin

text \<open>
  \<open>internal/platform/postgres/tracer.go\<close>: the label a SQL statement gets in the query metrics, and the
  two hooks that time a query. The functions of Go's \<open>strings\<close> package are modelled on ASCII text,
  which the program's statements are. \<open>sql_text\<close> gives the text of every statement of the
  repositories, as \<open>account_repo.go\<close> and \<open>transfer_repo.go\<close> write it.
\<close>

subsection \<open>strings\<close>

definition is_space :: "char \<Rightarrow> bool" where
  "is_space c = (c \<in> {CHR '' '', CHR 0x09, CHR 0x0A, CHR 0x0B, CHR 0x0C, CHR 0x0D})"

text \<open>\<open>c += 'a' - 'A'\<close> for an upper-case letter: that sets the bit of weight 32.\<close>

definition lower_char :: "char \<Rightarrow> char" where
  "lower_char c =
     (if c \<in> set ''ABCDEFGHIJKLMNOPQRSTUVWXYZ''
      then (case c of Char b0 b1 b2 b3 b4 b5 b6 b7 \<Rightarrow> Char b0 b1 b2 b3 b4 True b6 b7) else c)"

definition ToLower :: "string \<Rightarrow> string" where
  "ToLower s = map lower_char s"

text \<open>\<open>word\<close> is the field read so far.\<close>

fun fields_from :: "string \<Rightarrow> string \<Rightarrow> string list" where
  "fields_from word [] = (if word = [] then [] else [word])"
| "fields_from word (c # cs) =
     (if is_space c then (if word = [] then fields_from [] cs else word # fields_from [] cs)
      else fields_from (word @ [c]) cs)"

definition Fields :: "string \<Rightarrow> string list" where
  "Fields s = fields_from [] s"

fun HasPrefix :: "string \<Rightarrow> string \<Rightarrow> bool" where
  "HasPrefix s [] = True"
| "HasPrefix [] (p # ps) = False"
| "HasPrefix (c # cs) (p # ps) = (c = p \<and> HasPrefix cs ps)"

fun Contains :: "string \<Rightarrow> string \<Rightarrow> bool" where
  "Contains [] sub = (sub = [])"
| "Contains (c # cs) sub = (HasPrefix (c # cs) sub \<or> Contains cs sub)"

definition Trim :: "string \<Rightarrow> string \<Rightarrow> string" where
  "Trim s cutset =
     rev (dropWhile (\<lambda>c. c \<in> set cutset) (rev (dropWhile (\<lambda>c. c \<in> set cutset) s)))"

subsection \<open>Labels\<close>

definition clean :: "string \<Rightarrow> string" where
  "clean tok = Trim tok ''(),;''"

fun tokenAfter :: "string list \<Rightarrow> string \<Rightarrow> string" where
  "tokenAfter (f # g # rest) keyword = (if f = keyword then clean g else tokenAfter (g # rest) keyword)"
| "tokenAfter _ keyword = []"

text \<open>\<open>fields[1]\<close> panics when there is one field only.\<close>

definition operationName :: "string \<Rightarrow> string outcome" where
  "operationName sql =
     (case Fields (ToLower sql) of
        [] \<Rightarrow> Value ''unknown''
      | verb # rest \<Rightarrow>
          let fields = verb # rest;
              finish = (\<lambda>table.
                let op = (if table \<noteq> [] then verb @ '' '' @ table else verb)
                in Value (if Contains (ToLower sql) ''for update'' then op @ '' (locked)'' else op))
          in if verb = ''select'' \<or> verb = ''delete'' then finish (tokenAfter fields ''from'')
             else if verb = ''insert'' then finish (tokenAfter fields ''into'')
             else if verb = ''update'' then
               (if length fields \<le> 1 then Panic ''index out of range [1] with length 1''
                else finish (clean (fields ! 1)))
             else finish [])"

subsection \<open>The hooks\<close>

text \<open>The value under \<open>traceKey\<close> in the query's context is an option. \<open>observe\<close> is the callback that
  \<open>main\<close> gives to \<open>NewQueryTracer\<close>.\<close>

record traceData =
  td_start :: int
  td_operation :: string

definition TraceQueryStart :: "int \<Rightarrow> string \<Rightarrow> traceData option outcome" where
  "TraceQueryStart now sql =
     (case operationName sql of
        Value op \<Rightarrow> Value (Some \<lparr>td_start = now, td_operation = op\<rparr>)
      | Panic m \<Rightarrow> Panic m)"

definition TraceQueryEnd ::
    "(string \<Rightarrow> int \<Rightarrow> ('s, unit) io) \<Rightarrow> int \<Rightarrow> traceData option \<Rightarrow> ('s, unit) io" where
  "TraceQueryEnd observe_query now td =
     (case td of
        None \<Rightarrow> ret ()
      | Some d \<Rightarrow> observe_query (td_operation d) (now - td_start d))"

definition observe_query_metric :: "string \<Rightarrow> int \<Rightarrow> (Metrics, unit) io" where
  "observe_query_metric op d = with_labels_observe DBQueryDuration DBQueryDuration_update [op] d"

text \<open>A traced query, from its start to its end.\<close>

definition traced :: "int \<Rightarrow> int \<Rightarrow> string \<Rightarrow> (Metrics, unit) io" where
  "traced start stop sql m =
     (case TraceQueryStart start sql of
        Panic r \<Rightarrow> (Panic r, m)
      | Value td \<Rightarrow> TraceQueryEnd observe_query_metric stop td m)"

subsection \<open>The program's statements\<close>

definition indent :: "nat \<Rightarrow> string" where
  "indent n = CHR 0x0A # replicate 3 (CHR 0x09) @ replicate n (CHR 0x20)"

fun sql_text :: "'d sql \<Rightarrow> string" where
  "sql_text (SqlInsertAccount i b) = ''INSERT INTO accounts (id, balance) VALUES ($1, $2)''"
| "sql_text (SqlInsertDeposit i a) = ''INSERT INTO deposits (account_id, amount) VALUES ($1, $2)''"
| "sql_text (SqlSelectAccount i) =
     ''SELECT id, balance, version, created_at, updated_at FROM accounts WHERE id = $1''"
| "sql_text (SqlLockAccounts ids) =
     ''SELECT id, balance, version, created_at, updated_at'' @ indent 3 @ ''FROM accounts'' @
     indent 2 @ ''WHERE id = ANY($1)'' @ indent 2 @ ''ORDER BY id'' @ indent 4 @ ''FOR UPDATE''"
| "sql_text (SqlUpdateBalance i b) =
     ''UPDATE accounts'' @ indent 4 @ ''SET balance = $2, version = version + 1, updated_at = now()'' @
     indent 2 @ ''WHERE id = $1''"
| "sql_text (SqlFindTransfer key) =
     ''SELECT id, idempotency_key::text, source_id, destination_id, amount, status, created_at'' @
     indent 3 @ ''FROM transfers'' @ indent 2 @ ''WHERE idempotency_key = $1::uuid''"
| "sql_text (SqlInsertTransfer key src dst a st) =
     ''INSERT INTO transfers (idempotency_key, source_id, destination_id, amount, status)'' @
     indent 1 @ ''VALUES ($1::uuid, $2, $3, $4, $5)'' @ indent 1 @ ''RETURNING id''"
| "sql_text (SqlInsertLedgerEntry tid i dir a b) =
     ''INSERT INTO ledger_entries (transfer_id, account_id, direction, amount, balance_after)'' @
     indent 1 @ ''VALUES ($1, $2, $3, $4, $5)''"

fun query_label :: "'d sql \<Rightarrow> string" where
  "query_label (SqlInsertAccount i b) = ''insert accounts''"
| "query_label (SqlInsertDeposit i a) = ''insert deposits''"
| "query_label (SqlSelectAccount i) = ''select accounts''"
| "query_label (SqlLockAccounts ids) = ''select accounts (locked)''"
| "query_label (SqlUpdateBalance i b) = ''update accounts''"
| "query_label (SqlFindTransfer key) = ''select transfers''"
| "query_label (SqlInsertTransfer key src dst a st) = ''insert transfers''"
| "query_label (SqlInsertLedgerEntry tid i dir a b) = ''insert ledger_entries''"

lemma operationName_statement: "operationName (sql_text stmt) = Value (query_label stmt)"
  by (induction stmt) (simp only: sql_text.simps query_label.simps, code_simp)+

lemma traced_statement:
  assumes "metrics_ok m"
  shows "traced start stop (sql_text stmt) m =
    (Value (), DBQueryDuration_update (hv_observe [query_label stmt] (stop - start)) m)"
  using assms
  by (simp add: traced_def TraceQueryStart_def TraceQueryEnd_def operationName_statement
      observe_query_metric_def with_labels_observe_def metrics_ok_def)

text \<open>The one way to a panic.\<close>

lemma operationName_panics:
  "(\<exists>m. operationName sql = Panic m) \<longleftrightarrow> Fields (ToLower sql) = [''update'']"
proof (cases "Fields (ToLower sql)")
  case Nil
  then show ?thesis by (simp add: operationName_def)
next
  case (Cons verb rest)
  show ?thesis
  proof (cases "verb = ''update''")
    case True
    with Cons show ?thesis by (cases rest) (simp_all add: operationName_def Let_def)
  next
    case False
    with Cons show ?thesis by (simp add: operationName_def Let_def)
  qed
qed

end
