(* ===== verification/Platform.thy ===== *)
theory Platform
  imports Metrics Domain Tracer
begin

text \<open>
  The remaining platform code: \<open>NewPool\<close> (\<open>internal/platform/postgres/db.go\<close>), \<open>SamplePool\<close>
  (\<open>internal/observability/metrics_db.go\<close>) and \<open>NewLogger\<close> (\<open>internal/observability/logger.go\<close>). What
  pgxpool and the file system answer is an argument.
\<close>

subsection \<open>db.go\<close>

text \<open>Durations in nanoseconds. \<open>'c\<close> is what \<open>pgxpool.ParseConfig\<close> makes of the rest of the URL.\<close>

record 'c pool_config =
  pc_parsed :: 'c
  pc_MaxConns :: "32 word"
  pc_MaxConnLifetime :: int
  pc_MaxConnIdleTime :: int
  pc_traced :: bool
  pc_decimal_codec :: bool

record 'c pgx_ops =
  pgx_ParseConfig :: "string \<Rightarrow> go_error + 'c pool_config"
  pgx_NewWithConfig :: "'c pool_config \<Rightarrow> go_error option"
  pgx_Ping :: "'c pool_config \<Rightarrow> go_error option"

text \<open>The pools that are open are the state: \<open>NewWithConfig\<close> opens one, \<open>Close\<close> closes it.\<close>

definition NewPool ::
    "'c pgx_ops \<Rightarrow> string \<Rightarrow> 32 word \<Rightarrow> bool \<Rightarrow> ('c pool_config list, go_error + 'c pool_config) io" where
  "NewPool X dsn maxConns tracer =
     (case pgx_ParseConfig X dsn of
        Inl err \<Rightarrow> ret (Inl (Wrapf ''parse dsn'' err))
      | Inr cfg0 \<Rightarrow>
          let cfg1 = cfg0\<lparr>pc_MaxConns := maxConns, pc_MaxConnLifetime := 3600000000000,
                          pc_MaxConnIdleTime := 1800000000000\<rparr>;
              cfg2 = (if tracer then cfg1\<lparr>pc_traced := True\<rparr> else cfg1);
              cfg = cfg2\<lparr>pc_decimal_codec := True\<rparr> in
          (case pgx_NewWithConfig X cfg of
             Some err \<Rightarrow> ret (Inl (Wrapf ''create pool'' err))
           | None \<Rightarrow>
               next_io (modify (Cons cfg))
                 (case pgx_Ping X cfg of
                    Some err \<Rightarrow> next_io (modify tl) (ret (Inl (Wrapf ''ping'' err)))
                  | None \<Rightarrow> ret (Inr cfg))))"

lemma NewPool_result:
  "NewPool X dsn maxConns tracer open0 = (r, open1) \<Longrightarrow>
     (\<exists>err. r = Value (Inl err) \<and> open1 = open0) \<or>
     (\<exists>cfg. r = Value (Inr cfg) \<and> open1 = cfg # open0 \<and> pc_MaxConns cfg = maxConns \<and>
        pc_decimal_codec cfg \<and> (tracer \<longrightarrow> pc_traced cfg) \<and> pgx_Ping X cfg = None)"
  by (auto simp: NewPool_def io_simps Let_def split: sum.splits option.splits if_splits)

subsection \<open>metrics_db.go\<close>

record pool_stat =
  ps_TotalConns :: int
  ps_IdleConns :: int
  ps_AcquiredConns :: int

text \<open>What the loop's \<open>select\<close> receives, in order: a tick, with the statistics of the pool then, or the
  end of the context. A loop that has received nothing more is still waiting (\<open>None\<close>).\<close>

datatype sample_event = Tick pool_stat | Done

definition set_gauges :: "pool_stat \<Rightarrow> Metrics \<Rightarrow> Metrics" where
  "set_gauges st m =
     m\<lparr>DBTotalConns := (DBTotalConns m)\<lparr>g_value := ps_TotalConns st\<rparr>,
       DBIdleConns := (DBIdleConns m)\<lparr>g_value := ps_IdleConns st\<rparr>,
       DBAcquiredConns := (DBAcquiredConns m)\<lparr>g_value := ps_AcquiredConns st\<rparr>\<rparr>"

fun SamplePool :: "sample_event list \<Rightarrow> Metrics \<Rightarrow> Metrics option" where
  "SamplePool [] m = None"
| "SamplePool (Done # events) m = Some m"
| "SamplePool (Tick st # events) m = SamplePool events (set_gauges st m)"

lemma set_gauges_again [simp]: "set_gauges st (set_gauges st' m) = set_gauges st m"
  by (simp add: set_gauges_def)

lemma SamplePool_returns_iff: "(\<exists>m'. SamplePool events m = Some m') \<longleftrightarrow> Done \<in> set events"
  by (induction events m rule: SamplePool.induct) auto

lemma SamplePool_ticks:
  "SamplePool (map Tick sts @ Done # rest) m =
     Some (if sts = [] then m else set_gauges (last sts) m)"
  by (induction sts arbitrary: m) simp_all

lemma SamplePool_keeps_ok: "metrics_ok m \<Longrightarrow> SamplePool events m = Some m' \<Longrightarrow> metrics_ok m'"
  by (induction events m rule: SamplePool.induct) (auto simp: set_gauges_def metrics_ok_def)

subsection \<open>logger.go\<close>

text \<open>\<open>slog.Level.UnmarshalText\<close>: a level name in any case, with an optional signed offset. ASCII.\<close>

definition upper_char :: "char \<Rightarrow> char" where
  "upper_char c =
     (let n = of_char c :: nat in
      if 97 \<le> n \<and> n \<le> 122
      then (case c of Char b0 b1 b2 b3 b4 b5 b6 b7 \<Rightarrow> Char b0 b1 b2 b3 b4 False b6 b7) else c)"

definition level_name :: "string \<Rightarrow> int option" where
  "level_name name =
     (let upper = map upper_char name in
      if upper = ''DEBUG'' then Some (- 4) else if upper = ''INFO'' then Some 0
      else if upper = ''WARN'' then Some 4 else if upper = ''ERROR'' then Some 8 else None)"

definition level_UnmarshalText :: "string \<Rightarrow> int option" where
  "level_UnmarshalText s =
     (let name = takeWhile (\<lambda>c. c \<notin> set ''+-'') s; offset = dropWhile (\<lambda>c. c \<notin> set ''+-'') s in
      case (if offset = [] then Some 0 else map_option sint (ParseInt64 offset)) of
        None \<Rightarrow> None
      | Some n \<Rightarrow> map_option (\<lambda>l. l + n) (level_name name))"

datatype log_target = Stdout | LogFile string

record logger =
  lg_level :: int
  lg_targets :: "log_target list"
  lg_closes :: "string option"

text \<open>\<open>lg_closes\<close> is the file that the returned closer releases; \<open>open_file\<close> tells whether opening a
  file for appending fails.\<close>

definition NewLogger :: "(string \<Rightarrow> go_error option) \<Rightarrow> string \<Rightarrow> string \<Rightarrow> go_error + logger" where
  "NewLogger open_file level logFile =
     (let lvl = (case level_UnmarshalText level of None \<Rightarrow> 0 | Some l \<Rightarrow> l) in
      if logFile \<noteq> '''' then
        (case open_file logFile of
           Some err \<Rightarrow> Inl err
         | None \<Rightarrow> Inr \<lparr>lg_level = lvl, lg_targets = [Stdout, LogFile logFile], lg_closes = Some logFile\<rparr>)
      else Inr \<lparr>lg_level = lvl, lg_targets = [Stdout], lg_closes = None\<rparr>)"

lemma level_names:
  "level_UnmarshalText ''debug'' = Some (- 4)" "level_UnmarshalText ''info'' = Some 0"
  "level_UnmarshalText ''warn'' = Some 4" "level_UnmarshalText ''error'' = Some 8"
  by code_simp+

lemma NewLogger_Inr:
  "NewLogger open_file level logFile = Inr lg \<Longrightarrow>
     Stdout \<in> set (lg_targets lg) \<and>
     (lg_closes lg = Some f \<longleftrightarrow> LogFile f \<in> set (lg_targets lg)) \<and>
     (level_UnmarshalText level = None \<longrightarrow> lg_level lg = 0)"
  by (auto simp: NewLogger_def Let_def split: if_splits option.splits)

end
