(* ===== verification/Lifecycle.thy ===== *)
theory Lifecycle
  imports Config Migrate Platform
begin

text \<open>
  \<open>cmd/server/main.go\<close>: the process from its start to its end, as the sequence of what it does. What
  the outside answers (the configuration, the logger's file, the database, the migrations, the two
  graceful shutdowns) is the record \<open>outside\<close>. \<open>os.Exit\<close> ends the process at once; deferred calls run
  only when \<open>main\<close> returns. After the servers were started \<open>main\<close> waits for the signal, which is
  assumed to arrive: without it, the sequence ends at \<open>Waiting\<close>.
\<close>

datatype server_name = Public | Admin

datatype main_event =
    Stderr string go_error
  | LogInfo string
  | LogFailure string go_error
  | Exit int
  | ConnectPool string "32 word"
  | RunMigrations
  | StartSampler
  | Serve server_name string
  | WaitForSignal
  | MarkNotReady
  | Shutdown server_name int64
  | ClosePool
  | StopSignals
  | CloseLog

record outside =
  os_config :: "go_error + Config"
  os_open_file :: "string \<Rightarrow> go_error option"
  os_connect :: "string \<Rightarrow> 32 word \<Rightarrow> go_error option"
  os_migrate :: "go_error option"
  os_signalled :: bool
  os_shutdown :: "server_name \<Rightarrow> go_error option"

definition shutdown_server :: "outside \<Rightarrow> Config \<Rightarrow> server_name \<Rightarrow> string \<Rightarrow> main_event list" where
  "shutdown_server E cfg name msg =
     Shutdown name (cfg_ShutdownTimeout cfg) #
     (case os_shutdown E name of None \<Rightarrow> [] | Some err \<Rightarrow> [LogFailure msg err])"

text \<open>From the servers' start on; the last three events are the deferred calls.\<close>

definition serve_until_signal :: "outside \<Rightarrow> Config \<Rightarrow> main_event list" where
  "serve_until_signal E cfg =
     [StartSampler, Serve Public (cfg_Addr cfg), Serve Admin (cfg_MetricsAddr cfg), LogInfo ''servers started'',
      WaitForSignal] @
     (if os_signalled E then
        [LogInfo ''shutdown signal received, draining'', MarkNotReady] @
        shutdown_server E cfg Public ''public graceful shutdown failed'' @
        shutdown_server E cfg Admin ''admin graceful shutdown failed'' @
        [LogInfo ''servers stopped cleanly'', ClosePool, StopSignals, CloseLog]
      else [])"

definition main :: "outside \<Rightarrow> main_event list" where
  "main E =
     (case os_config E of
        Inl err \<Rightarrow> [Stderr ''load config'' err, Exit 1]
      | Inr cfg \<Rightarrow>
     (case NewLogger (os_open_file E) (cfg_LogLevel cfg) (cfg_LogFile cfg) of
        Inl err \<Rightarrow> [Stderr ''init logger'' err, Exit 1]
      | Inr lg \<Rightarrow>
          let dsn = DSN (cfg_Database cfg); maxConns = db_MaxConns (cfg_Database cfg) in
          ConnectPool dsn maxConns #
          (case os_connect E dsn maxConns of
             Some err \<Rightarrow> [LogFailure ''connect database'' err, Exit 1]
           | None \<Rightarrow>
               if cfg_RunMigrations cfg then
                 RunMigrations #
                 (case os_migrate E of
                    Some err \<Rightarrow> [LogFailure ''run migrations'' err, Exit 1]
                  | None \<Rightarrow> LogInfo ''migrations applied'' # serve_until_signal E cfg)
               else serve_until_signal E cfg)))"

subsection \<open>The order of events\<close>

text \<open>\<open>before x y xs\<close>: every \<open>y\<close> of the sequence has an \<open>x\<close> before it.\<close>

fun before :: "'e \<Rightarrow> 'e \<Rightarrow> 'e list \<Rightarrow> bool" where
  "before x y [] = True"
| "before x y (e # es) = (if e = x then True else e \<noteq> y \<and> before x y es)"

lemma serve_events:
  "Serve n a \<in> set (serve_until_signal E cfg) \<longleftrightarrow>
     n = Public \<and> a = cfg_Addr cfg \<or> n = Admin \<and> a = cfg_MetricsAddr cfg"
  by (auto simp: serve_until_signal_def shutdown_server_def split: option.splits)

lemma serve_no_exit: "Exit c \<notin> set (serve_until_signal E cfg)"
  by (auto simp: serve_until_signal_def shutdown_server_def split: option.splits)

lemma main_serves:
  assumes "Serve n a \<in> set (main E)"
  shows "\<exists>cfg. os_config E = Inr cfg \<and>
    os_connect E (DSN (cfg_Database cfg)) (db_MaxConns (cfg_Database cfg)) = None \<and>
    (cfg_RunMigrations cfg \<longrightarrow> os_migrate E = None) \<and>
    (a = (case n of Public \<Rightarrow> cfg_Addr cfg | Admin \<Rightarrow> cfg_MetricsAddr cfg)) \<and>
    (\<forall>c. Exit c \<notin> set (main E))"
  using assms
  by (auto simp: main_def Let_def serve_events serve_no_exit split: sum.splits option.splits if_splits)

lemma before_append:
  "before x y (xs @ ys) \<longleftrightarrow> before x y xs \<and> (x \<in> set xs \<or> before x y ys)"
  by (induction xs) auto

lemma before_absent: "y \<notin> set xs \<Longrightarrow> before x y xs"
  by (induction xs) auto

lemma serve_order:
  "before MarkNotReady (Shutdown n t) (serve_until_signal E cfg)"
  "before (Shutdown Public (cfg_ShutdownTimeout cfg)) (Shutdown Admin t) (serve_until_signal E cfg)"
  "before (Shutdown Admin (cfg_ShutdownTimeout cfg)) ClosePool (serve_until_signal E cfg)"
  by (auto simp: serve_until_signal_def shutdown_server_def split: option.splits)

lemma main_order:
  assumes "os_config E = Inr cfg"
  shows "before MarkNotReady (Shutdown n t) (main E)"
    "before (Shutdown Public (cfg_ShutdownTimeout cfg)) (Shutdown Admin t) (main E)"
    "before (Shutdown Admin (cfg_ShutdownTimeout cfg)) ClosePool (main E)"
  using assms serve_order
  by (auto simp: main_def Let_def split: sum.splits option.splits)

end
