(* ===== verification/Row_Locks.thy ===== *)
theory Row_Locks
  imports Integrity
begin

text \<open>
  Concurrent transfers and the locks they take. PostgreSQL holds a row lock until its transaction
  ends, and a session that asks for a lock another one holds waits. A transfer locks the rows of its
  two accounts in the order in which \<open>LockForUpdate\<close> returns them (\<open>ORDER BY id FOR UPDATE\<close>), and then
  the entry of its idempotency key in the unique index, when it inserts the transfer. Any number of
  sessions start transfers, take their locks one by one, end, or give up at any moment.
\<close>

datatype 'u resource = AccountRow int64 | KeyEntry 'u

text \<open>What a transfer locks, in order.\<close>

definition transfer_locks :: "'u tables \<Rightarrow> int64 list \<Rightarrow> 'u option \<Rightarrow> 'u resource list" where
  "transfer_locks t ids key =
     map (\<lambda>r. AccountRow (ar_id r)) (lock_rows t ids) @ (case key of None \<Rightarrow> [] | Some k \<Rightarrow> [KeyEntry k])"

fun rank :: "'u resource \<Rightarrow> int" where
  "rank (AccountRow i) = sint i"
| "rank (KeyEntry k) = 2 ^ 63"

definition ascending :: "'u resource list \<Rightarrow> bool" where
  "ascending rs \<longleftrightarrow> sorted_wrt (\<lambda>a b. rank a < rank b) rs"

lemma sint_less_rank: "sint (i :: int64) < 9223372036854775808"
  using sint_range_size [of i] by (simp add: word_size)

lemma transfer_locks_ascending:
  assumes "distinct (map ar_id (accounts t))"
  shows "ascending (transfer_locks t ids key)"
proof -
  let ?rows = "lock_rows t ids"
  have "distinct (map ar_id ?rows)"
  proof -
    have "distinct (map ar_id (filter (\<lambda>r. ar_id r \<in> set ids) (accounts t)))"
      using assms by (rule distinct_map_filter)
    then show ?thesis
      by (simp add: lock_rows_def distinct_map)
  qed
  then have d: "distinct (map (\<lambda>r. sint (ar_id r)) ?rows)"
    by (auto simp: distinct_map inj_on_def dest!: signed_word_eqI)
  have "sorted (map (\<lambda>r. sint (ar_id r)) ?rows)" by (simp add: lock_rows_def)
  with d have "sorted_wrt (<) (map (\<lambda>r. sint (ar_id r)) ?rows)"
    using strict_sorted_iff by blast
  then show ?thesis
    by (auto simp: ascending_def transfer_locks_def sorted_wrt_append sorted_wrt_map sint_less_rank
        split: option.split)
qed

subsection \<open>Sessions\<close>

record 'u locking =
  lk_wanted :: "nat \<Rightarrow> 'u resource list"
  lk_held :: "nat \<Rightarrow> 'u resource set"

definition no_locks :: "'u locking" where
  "no_locks = \<lparr>lk_wanted = (\<lambda>_. []), lk_held = (\<lambda>_. {})\<rparr>"

definition idle_session :: "'u locking \<Rightarrow> nat \<Rightarrow> bool" where
  "idle_session l s \<longleftrightarrow> lk_wanted l s = [] \<and> lk_held l s = {}"

text \<open>A step that makes progress: take the next lock, or end a transaction that has all its locks.\<close>

inductive lock_step :: "'u locking \<Rightarrow> 'u locking \<Rightarrow> bool" where
  acquire: "lk_wanted l s = r # rs \<Longrightarrow> \<forall>s'. s' \<noteq> s \<longrightarrow> r \<notin> lk_held l s' \<Longrightarrow>
    lock_step l (l\<lparr>lk_wanted := (lk_wanted l)(s := rs), lk_held := (lk_held l)(s := insert r (lk_held l s))\<rparr>)"
| finish: "lk_wanted l s = [] \<Longrightarrow> lk_held l s \<noteq> {} \<Longrightarrow> lock_step l (l\<lparr>lk_held := (lk_held l)(s := {})\<rparr>)"

text \<open>Any step: also a session that starts a transaction with locks in \<open>allowed\<close>, or gives up.\<close>

inductive session_step :: "('u resource list \<Rightarrow> bool) \<Rightarrow> 'u locking \<Rightarrow> 'u locking \<Rightarrow> bool" for allowed where
  progress: "lock_step l l' \<Longrightarrow> session_step allowed l l'"
| begin_tx: "idle_session l s \<Longrightarrow> allowed rs \<Longrightarrow>
    session_step allowed l (l\<lparr>lk_wanted := (lk_wanted l)(s := rs)\<rparr>)"
| give_up: "session_step allowed l
    (l\<lparr>lk_wanted := (lk_wanted l)(s := []), lk_held := (lk_held l)(s := {})\<rparr>)"

definition session_ok :: "'u locking \<Rightarrow> nat \<Rightarrow> bool" where
  "session_ok l s \<longleftrightarrow>
     ascending (lk_wanted l s) \<and> (\<forall>h \<in> lk_held l s. \<forall>r \<in> set (lk_wanted l s). rank h < rank r)"

definition locking_ok :: "'u locking \<Rightarrow> bool" where
  "locking_ok l \<longleftrightarrow>
     finite {s. \<not> idle_session l s} \<and> (\<forall>s. session_ok l s) \<and>
     (\<forall>s s'. s \<noteq> s' \<longrightarrow> lk_held l s \<inter> lk_held l s' = {})"

text \<open>A step of one session \<open>s\<close> leaves the others alone.\<close>

lemma locking_okI:
  assumes ok: "locking_ok l"
    and others: "\<And>s'. s' \<noteq> s \<Longrightarrow> lk_wanted l' s' = lk_wanted l s' \<and> lk_held l' s' = lk_held l s'"
    and mine: "session_ok l' s" and apart: "\<And>s'. s' \<noteq> s \<Longrightarrow> lk_held l' s \<inter> lk_held l s' = {}"
  shows "locking_ok l'"
proof -
  have "finite {x. \<not> idle_session l' x}"
    by (rule finite_subset [of _ "insert s {x. \<not> idle_session l x}"])
      (use ok others in \<open>auto simp: locking_ok_def idle_session_def\<close>)
  moreover have "session_ok l' x" for x
  proof (cases "x = s")
    case False
    with ok others [OF False] show ?thesis by (simp add: locking_ok_def session_ok_def)
  qed (use mine in simp)
  moreover have "lk_held l' x \<inter> lk_held l' y = {}" if "x \<noteq> y" for x y
  proof (cases "x = s \<or> y = s")
    case True
    with that apart others show ?thesis by (metis Int_commute)
  next
    case False
    with that ok others [of x] others [of y] show ?thesis by (simp add: locking_ok_def)
  qed
  ultimately show ?thesis by (simp add: locking_ok_def)
qed

lemma locking_ok_start [simp]: "locking_ok no_locks"
  by (simp add: locking_ok_def session_ok_def no_locks_def idle_session_def ascending_def)

lemma locking_ok_step:
  assumes ok: "locking_ok l" and st: "session_step ascending l l'"
  shows "locking_ok l'"
  using st
proof cases
  case progress
  then show ?thesis
  proof cases
    case (acquire s r rs)
    have "session_ok l s" using ok by (simp add: locking_ok_def)
    then have "session_ok l' s" using acquire by (auto simp: session_ok_def ascending_def)
    moreover have "lk_held l s \<inter> lk_held l s' = {}" if "s' \<noteq> s" for s'
      using ok that by (metis locking_ok_def)
    ultimately show ?thesis using ok acquire by (intro locking_okI [of l s l']) auto
  next
    case (finish s)
    then show ?thesis
      using ok by (intro locking_okI [of l s l']) (auto simp: session_ok_def ascending_def)
  qed
next
  case (begin_tx s rs)
  then show ?thesis
    using ok by (intro locking_okI [of l s l']) (auto simp: session_ok_def idle_session_def)
next
  case (give_up s)
  then show ?thesis
    using ok by (intro locking_okI [of l s l']) (auto simp: session_ok_def ascending_def)
qed

lemma locking_ok_reachable: "(session_step ascending)\<^sup>*\<^sup>* no_locks l \<Longrightarrow> locking_ok l"
  by (induction rule: rtranclp_induct) (auto intro: locking_ok_step)

text \<open>The session whose next lock has the greatest rank can always go on.\<close>

lemma some_session_proceeds:
  assumes ok: "locking_ok l" and busy: "\<not> idle_session l s0"
  shows "\<exists>l'. lock_step l l'"
proof (cases "\<exists>s. lk_wanted l s = [] \<and> lk_held l s \<noteq> {}")
  case True
  then show ?thesis using lock_step.finish by blast
next
  case False
  let ?B = "{s. \<not> idle_session l s}"
  have waiting: "lk_wanted l s \<noteq> []" if "s \<in> ?B" for s
    using False that by (auto simp: idle_session_def)
  define top where "top = (\<lambda>s. rank (hd (lk_wanted l s)))"
  have fin: "finite (top ` ?B)" using ok by (simp add: locking_ok_def)
  moreover have "top ` ?B \<noteq> {}" using busy by blast
  ultimately have "Max (top ` ?B) \<in> top ` ?B" by (rule Max_in)
  then obtain s where s: "s \<in> ?B" "top s = Max (top ` ?B)" by auto
  have max: "top s' \<le> top s" if "s' \<in> ?B" for s' using fin that s(2) by simp
  obtain r rs where r: "lk_wanted l s = r # rs" using waiting [OF s(1)] by (cases "lk_wanted l s") auto
  have "r \<notin> lk_held l s'" if "s' \<noteq> s" for s'
  proof
    assume held: "r \<in> lk_held l s'"
    then have b: "s' \<in> ?B" by (auto simp: idle_session_def)
    have "hd (lk_wanted l s') \<in> set (lk_wanted l s')" using waiting [OF b] by simp
    moreover have "session_ok l s'" using ok by (simp add: locking_ok_def)
    ultimately have "rank r < top s'" using held by (simp add: session_ok_def top_def)
    with max [OF b] r show False by (simp add: top_def)
  qed
  with r show ?thesis using lock_step.acquire by blast
qed

text \<open>Without the order, two transfers between the same accounts can block each other for ever.\<close>

definition crossed :: "unit locking" where
  "crossed = \<lparr>lk_wanted = (\<lambda>s. if s = 0 then [AccountRow 2] else if s = 1 then [AccountRow 1] else []),
     lk_held = (\<lambda>s. if s = 0 then {AccountRow 1} else if s = 1 then {AccountRow 2} else {})\<rparr>"

lemma crossed_stuck: "\<not> lock_step crossed l'"
  by (auto simp: crossed_def elim!: lock_step.cases split: if_splits)

end
