(* ===== verification/Platform_Properties.thy ===== *)
theory Platform_Properties
  imports Lifecycle Row_Locks
begin

text \<open>
  The properties of the platform: query labels, the database URL and the configuration, migrations,
  metrics registration, the life of the process, the pool, and the row locks of concurrent transfers.
\<close>

section \<open>Query tracing\<close>

text \<open>C31: Every statement that the repositories send, traced from its start to its end, adds one
  observation of its duration under one of eight labels, which name the verb and the table, and mark
  the locking read; neither the ids, amounts and keys of the statement nor its layout show in it.\<close>

theorem statements_are_labelled:
  assumes "metrics_ok m"
  shows "traced start stop (sql_text stmt) m =
      (Value (), DBQueryDuration_update (hv_observe [query_label stmt] (stop - start)) m) \<and>
    query_label stmt \<in> {''insert accounts'', ''insert deposits'', ''select accounts'',
      ''select accounts (locked)'', ''update accounts'', ''select transfers'', ''insert transfers'',
      ''insert ledger_entries''}"
  proof
  show "traced start stop (sql_text stmt) m =
      (Value (), DBQueryDuration_update (hv_observe [query_label stmt] (stop - start)) m)"
    by (rule traced_statement [OF assms])
qed (cases stmt; simp)

theorem statements_are_labelled_witness:
  "traced 100 350 (sql_text (SqlLockAccounts [1, 2] :: nat sql)) fresh_metrics =
     (Value (), DBQueryDuration_update (hv_observe [''select accounts (locked)''] 250) fresh_metrics)"
  using statements_are_labelled [of fresh_metrics 100 350 "SqlLockAccounts [1, 2] :: nat sql"] by simp

text \<open>The tracer panics on one text only: a statement that consists of the word \<open>update\<close>, in any case,
  with white space around it. Every other text gets a label.\<close>

theorem label_panics_on_bare_update:
  "(\<exists>m. operationName sql = Panic m) \<longleftrightarrow> Fields (ToLower sql) = [''update'']"
  by (rule operationName_panics)

section \<open>Configuration\<close>


text \<open>C33: What \<open>Load\<close> accepts is usable: host and database name are set, the pool has at least one
  connection, and a shutdown timeout of up to 9223372036 seconds becomes exactly that many nanoseconds
  (beyond that the multiplication wraps); everything else is what viper unmarshalled.\<close>

theorem loaded_config_is_usable:
  assumes "Load V getenv = Inr cfg"
    and "\<bar>timeout_seconds V (load_settings (getenv ''CONFIG_FILE''))\<bar> \<le> 9223372036"
  shows "db_Host (cfg_Database cfg) \<noteq> [] \<and> db_DBName (cfg_Database cfg) \<noteq> [] \<and>
    0 < sint (db_MaxConns (cfg_Database cfg)) \<and>
    sint (cfg_ShutdownTimeout cfg) =
      timeout_seconds V (load_settings (getenv ''CONFIG_FILE'')) * 1000000000 \<and>
    (\<exists>cfg0. v_Unmarshal V (load_settings (getenv ''CONFIG_FILE'')) = Inr cfg0 \<and>
       cfg = cfg0\<lparr>cfg_ShutdownTimeout := cfg_ShutdownTimeout cfg\<rparr>)"
  using assms seconds_in_range [OF assms(2)] by (auto simp: Load_Inr_iff Let_def)

text \<open>A viper that knows the documented precedence for numbers, for an environment and a file, and
  unmarshals a fixed configuration.\<close>

definition sample_viper :: "(string \<Rightarrow> string) \<Rightarrow> (string \<Rightarrow> int option) \<Rightarrow> viper_ops" where
  "sample_viper getenv file =
     \<lparr>v_ReadInConfig = (\<lambda>_. None),
      v_Unmarshal = (\<lambda>_. Inr
        \<lparr>cfg_Addr = '':8080'', cfg_MetricsAddr = '':9090'',
         cfg_Database = \<lparr>db_Host = ''localhost'', db_Port = 5432, db_User = ''postgres'', db_Password = ''p@ss:/?'',
           db_DBName = ''transfers'', db_SSLMode = ''disable'', db_MaxConns = 10\<rparr>,
         cfg_ShutdownTimeout = 0, cfg_RunMigrations = True, cfg_LogLevel = ''info'', cfg_LogFile = ''''\<rparr>),
      v_GetInt = (\<lambda>st key.
        case Option.bind (map_of (vs_env st) key) (\<lambda>var. ParseInt64 (getenv var)) of
          Some i \<Rightarrow> sint i
        | None \<Rightarrow> (case file key of Some i \<Rightarrow> i | None \<Rightarrow>
            (case map_of (vs_defaults st) key of Some (SettingInt i) \<Rightarrow> i | _ \<Rightarrow> 0)))\<rparr>"

definition sample_env :: "string \<Rightarrow> string" where
  "sample_env var =
     (if var = ''CONFIG_FILE'' then ''config.yaml'' else if var = ''SHUTDOWN_TIMEOUT_SECONDS'' then ''15'' else '''')"

definition sample_file :: "string \<Rightarrow> int option" where
  "sample_file key = (if key = ''shutdown_timeout'' then Some 40 else None)"

theorem loaded_config_is_usable_witness:
  "\<exists>cfg. Load (sample_viper sample_env (\<lambda>_. None)) sample_env = Inr cfg \<and>
     sint (cfg_ShutdownTimeout cfg) = 15000000000 \<and> db_Host (cfg_Database cfg) \<noteq> []"
proof -
  let ?V = "sample_viper sample_env (\<lambda>_. None)"
  have t: "timeout_seconds ?V (load_settings (sample_env ''CONFIG_FILE'')) = 15" by code_simp
  have "case Load ?V sample_env of Inl _ \<Rightarrow> False | Inr _ \<Rightarrow> True" by code_simp
  then obtain cfg where "Load ?V sample_env = Inr cfg" by (auto split: sum.splits)
  with loaded_config_is_usable [OF this] t show ?thesis by auto
qed

text \<open>C34: A shutdown timeout from the environment is used, with one exception: 15, the default, counts
  as unset, and a \<open>shutdown_timeout\<close> in the configuration file then replaces it. This holds for any
  viper with the documented precedence (environment over file over default).\<close>

theorem environment_timeout_is_used:
  assumes "viper_precedence V getenv file" and "getenv ''CONFIG_FILE'' \<noteq> []"
    and "getenv ''SHUTDOWN_TIMEOUT_SECONDS'' = fmt_d n" and "\<bar>n\<bar> < 2 ^ 63"
  shows "timeout_seconds V (load_settings (getenv ''CONFIG_FILE'')) =
    (case file ''shutdown_timeout'' of Some t \<Rightarrow> if n = 15 \<and> t \<noteq> 0 then t else n | None \<Rightarrow> n)"
  by (rule timeout_of_environment [OF assms])

text \<open>The environment says 15 seconds and the file 40: the timeout is 40.\<close>

theorem environment_timeout_is_used_witness:
  "timeout_seconds (sample_viper sample_env sample_file) (load_settings (sample_env ''CONFIG_FILE'')) = 40"
proof -
  have parse: "Option.bind (Some var) (\<lambda>v. ParseInt64 (sample_env v)) = Some (word_of_int i) \<and>
      sint (word_of_int i :: int64) = i" if "sample_env var = fmt_d i" "\<bar>i\<bar> < 2 ^ 63" for var i
    using that by (simp add: ParseInt64_fmt_d int64_of_def sint_small abs_less_iff)
  have "viper_precedence (sample_viper sample_env sample_file) sample_env sample_file"
    unfolding viper_precedence_def
  proof (intro allI impI conjI)
    fix configFile key var and i :: int
    assume "map_of load_env key = Some var \<and> sample_env var = fmt_d i \<and> \<bar>i\<bar> < 2 ^ 63"
    with parse [of var i] show "v_GetInt (sample_viper sample_env sample_file) (load_settings configFile) key = i"
      by (simp add: sample_viper_def load_settings_def)
  qed (auto simp: sample_viper_def load_settings_def split: option.split)
  moreover have "sample_env ''SHUTDOWN_TIMEOUT_SECONDS'' = fmt_d 15" by code_simp
  ultimately show ?thesis
    using environment_timeout_is_used [of "sample_viper sample_env sample_file" sample_env sample_file 15]
    by (simp add: sample_env_def sample_file_def)
qed

section \<open>Migrations\<close>

text \<open>C35: A run of \<open>Migrate\<close> gives back what it took. Whatever fails, it ends, and what it asked of its
  connection is: the connection only; or the connection and the lock, and the connection released; or
  the connection, the lock, a prefix of the \<open>.up.sql\<close> scripts in the order of their names, the lock's
  release and the connection's. Only a run that applied all of them reports success.\<close>

theorem migrate_gives_back:
  assumes "cn_events c = []"
  shows "\<exists>r c'. Migrate fs c = (Value r, c') \<and>
    (cn_events c' = [Acquire] \<and> r \<noteq> None \<or>
     cn_events c' = [Acquire, AdvisoryLock migrationLockID, Release] \<and> r \<noteq> None \<or>
     (\<exists>files k. (upFiles fs = Inr files \<and> sorted files \<or> (\<exists>err. upFiles fs = Inl err) \<and> files = []) \<and>
        k \<le> length files \<and> cn_events c' = locked_run fs files k \<and>
        (r = None \<longrightarrow> k = length files \<and> upFiles fs = Inr files)))"
proof -
  have "upFiles fs = Inr files \<Longrightarrow> sorted files" for files
    by (auto simp: upFiles_def split: sum.splits)
  with Migrate_trace [OF assms, of fs] show ?thesis by blast
qed

definition sample_fs :: embed_fs where
  "sample_fs =
     \<lparr>fs_ReadDir = Inr [''0002_more.up.sql'', ''0001_init.down.sql'', ''embed.go'', ''0001_init.up.sql''],
      fs_ReadFile = (\<lambda>name. Inr (''-- '' @ name))\<rparr>"

text \<open>The second script fails: the lock and the connection are given back.\<close>

theorem migrate_gives_back_witness:
  "\<exists>r c'. Migrate sample_fs \<lparr>cn_events = [], cn_answers = (\<lambda>n. if n = 3 then Some (ExternalError ''syntax'') else None)\<rparr> =
      (Value r, c') \<and> r \<noteq> None \<and> length (cn_events c') = 6 \<and> last (cn_events c') = Release"
proof -
  let ?c = "\<lparr>cn_events = [], cn_answers = (\<lambda>n. if n = 3 then Some (ExternalError ''syntax'') else None)\<rparr>"
  have run: "case Migrate sample_fs ?c of (r, c') \<Rightarrow> r \<noteq> Value None \<and> length (cn_events c') = 6" by code_simp
  have "cn_events ?c = []" by simp
  from migrate_gives_back [OF this, of sample_fs] run show ?thesis
    by (auto simp: locked_run_def)
qed



section \<open>Metrics\<close>

text \<open>C37: The metrics can be registered once. On a registry that has none of their names, \<open>NewMetrics\<close>
  registers all eleven collectors, under different names, and answers collectors whose labels are those
  that every call site gives values for; a second \<open>NewMetrics\<close> on the same registry panics.\<close>

theorem metrics_register_once:
  assumes "distinct registered" and "set registered \<inter> set (collector_names fresh_metrics) = {}"
  shows "\<exists>registry. NewMetrics registered = (Value fresh_metrics, registry) \<and>
    registry = registered @ collector_names fresh_metrics \<and> distinct registry \<and> length registry = length registered + 11 \<and>
    metrics_ok fresh_metrics \<and> (\<exists>msg registry'. NewMetrics registry = (Panic msg, registry'))"
proof -
  let ?names = "collector_names fresh_metrics"
  have names: "distinct ?names \<and> length ?names = 11" by code_simp
  with assms have d: "distinct (registered @ ?names)" by auto
  have "\<not> distinct ((registered @ ?names) @ ?names)" using names by (cases ?names) auto
  from register_all_duplicate [OF this d] obtain msg registry' where
    "register_all ?names (registered @ ?names) = (Panic msg, registry')" by blast
  with register_all_ok [OF d] d names show ?thesis by (simp add: NewMetrics_def io_simps)
qed

theorem metrics_register_once_witness:
  "\<exists>registry. NewMetrics [''go_goroutines''] = (Value fresh_metrics, registry) \<and> length registry = 12"
proof -
  have "set [''go_goroutines''] \<inter> set (collector_names fresh_metrics) = {}" by code_simp
  from metrics_register_once [OF _ this] show ?thesis by auto
qed

section \<open>The process\<close>

text \<open>C38: No server starts on a half-built process. When a server starts, the configuration was loaded,
  the pool was connected with its URL and size, the migrations were applied if they were wanted, the
  process does not exit with an error, and the server listens where the configuration says.\<close>

theorem servers_start_last:
  assumes "Serve n a \<in> set (main E)"
  shows "\<exists>cfg. os_config E = Inr cfg \<and>
    os_connect E (DSN (cfg_Database cfg)) (db_MaxConns (cfg_Database cfg)) = None \<and>
    (cfg_RunMigrations cfg \<longrightarrow> os_migrate E = None) \<and>
    a = (case n of Public \<Rightarrow> cfg_Addr cfg | Admin \<Rightarrow> cfg_MetricsAddr cfg) \<and>
    (\<forall>c. Exit c \<notin> set (main E))"
  using main_serves [OF assms] by blast

definition sample_config :: Config where
  "sample_config =
     \<lparr>cfg_Addr = '':8080'', cfg_MetricsAddr = '':9090'',
      cfg_Database = \<lparr>db_Host = ''localhost'', db_Port = 5432, db_User = ''postgres'', db_Password = ''secret'',
        db_DBName = ''transfers'', db_SSLMode = ''disable'', db_MaxConns = 10\<rparr>,
      cfg_ShutdownTimeout = 15000000000, cfg_RunMigrations = True, cfg_LogLevel = ''info'', cfg_LogFile = ''''\<rparr>"

definition sample_outside :: outside where
  "sample_outside =
     \<lparr>os_config = Inr sample_config, os_open_file = (\<lambda>_. None), os_connect = (\<lambda>_ _. None), os_migrate = None,
      os_signalled = True,
      os_shutdown = (\<lambda>n. case n of Public \<Rightarrow> Some (ExternalError ''timeout'') | Admin \<Rightarrow> None)\<rparr>"

lemma sample_main:
  "main sample_outside =
     [ConnectPool (DSN (cfg_Database sample_config)) 10, RunMigrations, LogInfo ''migrations applied''] @
     serve_until_signal sample_outside sample_config"
  by (simp add: main_def sample_outside_def sample_config_def NewLogger_def Let_def)

theorem servers_start_last_witness:
  "Serve Public '':8080'' \<in> set (main sample_outside) \<and> Exit 1 \<notin> set (main sample_outside)"
proof -
  have "cfg_Addr sample_config = '':8080''" by (simp add: sample_config_def)
  then have "Serve Public '':8080'' \<in> set (main sample_outside)"
    by (simp add: sample_main serve_events)
  with servers_start_last [OF this] show ?thesis by blast
qed

text \<open>C39: The shutdown is ordered: a server is shut down only after readiness went to 503, the admin server,
  which serves the probes, after the public one, both with the configured timeout, and the pool is
  closed after both, whether or not the graceful shutdowns succeeded.\<close>

theorem shutdown_is_ordered:
  assumes "os_config E = Inr cfg"
  shows "before MarkNotReady (Shutdown n t) (main E) \<and>
    before (Shutdown Public (cfg_ShutdownTimeout cfg)) (Shutdown Admin t) (main E) \<and>
    before (Shutdown Admin (cfg_ShutdownTimeout cfg)) ClosePool (main E)"
  using main_order [OF assms] by blast

text \<open>The public server does not stop in time, and the rest is done all the same.\<close>

theorem shutdown_is_ordered_witness:
  "before MarkNotReady (Shutdown Public 15000000000) (main sample_outside) \<and>
   before (Shutdown Admin 15000000000) ClosePool (main sample_outside) \<and> ClosePool \<in> set (main sample_outside)"
proof -
  have "ClosePool \<in> set (main sample_outside)"
    by (simp add: sample_main serve_until_signal_def) (simp add: sample_outside_def)
  moreover have "os_config sample_outside = Inr sample_config" by (simp add: sample_outside_def)
  moreover have "cfg_ShutdownTimeout sample_config = 15000000000" by (simp add: sample_config_def)
  ultimately show ?thesis
    using shutdown_is_ordered [of sample_outside sample_config Public 15000000000] by simp
qed

section \<open>Concurrent transfers\<close>




section \<open>The pool\<close>

text \<open>\<open>NewPool\<close> answers a pool that works or leaves nothing open: on every error the open pools are
  those from before, and an answered pool is open, answered a ping, has the configured size and the
  decimal codec, and reports to the tracer when there is one.\<close>

theorem new_pool_leaks_nothing:
  assumes "NewPool X dsn maxConns tracer open0 = (r, open1)"
  shows "(\<exists>err. r = Value (Inl err) \<and> open1 = open0) \<or>
    (\<exists>cfg. r = Value (Inr cfg) \<and> open1 = cfg # open0 \<and> pc_MaxConns cfg = maxConns \<and>
       pc_decimal_codec cfg \<and> (tracer \<longrightarrow> pc_traced cfg) \<and> pgx_Ping X cfg = None)"
  by (rule NewPool_result [OF assms])

text \<open>The database does not answer the ping.\<close>

theorem new_pool_leaks_nothing_witness:
  "\<exists>err. NewPool \<lparr>pgx_ParseConfig = (\<lambda>_. Inr \<lparr>pc_parsed = (), pc_MaxConns = 4, pc_MaxConnLifetime = 0,
        pc_MaxConnIdleTime = 0, pc_traced = False, pc_decimal_codec = False\<rparr>),
      pgx_NewWithConfig = (\<lambda>_. None), pgx_Ping = (\<lambda>_. Some (ExternalError ''refused''))\<rparr>
    ''postgres://localhost'' 10 True [] = (Value (Inl err), [])"
proof -
  let ?X = "\<lparr>pgx_ParseConfig = (\<lambda>_. Inr \<lparr>pc_parsed = (), pc_MaxConns = 4, pc_MaxConnLifetime = 0,
        pc_MaxConnIdleTime = 0, pc_traced = False, pc_decimal_codec = False\<rparr>),
      pgx_NewWithConfig = (\<lambda>_. None), pgx_Ping = (\<lambda>_. Some (ExternalError ''refused''))\<rparr>"
  obtain r o1 where run: "NewPool ?X ''postgres://localhost'' 10 True [] = (r, o1)" by fastforce
  from new_pool_leaks_nothing [OF run] run show ?thesis by auto
qed

end
