(* ===== verification/Interference.thy ===== *)
theory Interference
  imports Querier
begin

text \<open>
  Programs whose database changes between their interactions, because other sessions run too. A
  program makes one interaction at a time (\<open>prog_step\<close>), and before each of them the world may have
  moved as the rely \<open>R\<close> allows. \<open>safe\<close> says that every interaction of a program then stays within
  the guarantee \<open>G\<close> and that an answer comes with \<open>Q\<close>; \<open>rg\<close> is the triple over it, with a rule per
  way in which the code composes its calls.
\<close>

subsection \<open>One interaction at a time\<close>

fun returned :: "('d, 'a) prog \<Rightarrow> bool" where
  "returned (Return a) = True"
| "returned _ = False"

fun prog_step :: "('d, 'w) handler \<Rightarrow> ('d, 'a) prog \<Rightarrow> 'w \<Rightarrow> ('d, 'a) prog \<times> 'w" where
  "prog_step h (Return a) w = (Return a, w)"
| "prog_step h (DoExec q s k) w = (case h_Exec h q s w of (r, w') \<Rightarrow> (k r, w'))"
| "prog_step h (DoQuery q s k) w = (case h_Query h q s w of (r, w') \<Rightarrow> (k r, w'))"
| "prog_step h (DoQueryRow q s k) w = (case h_QueryRow h q s w of (r, w') \<Rightarrow> (k r, w'))"
| "prog_step h (DoBegin k) w = (case h_Begin h w of (r, w') \<Rightarrow> (k r, w'))"
| "prog_step h (DoCommit k) w = (case h_Commit h w of (r, w') \<Rightarrow> (k r, w'))"
| "prog_step h (DoRollback k) w = (case h_Rollback h w of (r, w') \<Rightarrow> (k r, w'))"

text \<open>A run is its first interaction followed by the run of the rest.\<close>

lemma run_prog_step: "run h p w = (case prog_step h p w of (p', w') \<Rightarrow> run h p' w')"
  by (cases p) (simp_all split: prod.split)

lemma returned_iff: "returned p \<longleftrightarrow> (\<exists>a. p = Return a)"
  by (cases p) simp_all

lemma prog_step_bind:
  "\<not> returned p \<Longrightarrow> prog_step h (bind_prog p f) w = (case prog_step h p w of (p', w') \<Rightarrow> (bind_prog p' f, w'))"
  by (cases p) (simp_all split: prod.split)

lemma returned_bind: "\<not> returned p \<Longrightarrow> \<not> returned (bind_prog p f)"
  by (cases p) simp_all

text \<open>A program that makes one interaction and returns.\<close>

fun one_call :: "('d, 'a) prog \<Rightarrow> bool" where
  "one_call (Return a) = False"
| "one_call (DoExec q s k) = (\<forall>r. returned (k r))"
| "one_call (DoQuery q s k) = (\<forall>r. returned (k r))"
| "one_call (DoQueryRow q s k) = (\<forall>r. returned (k r))"
| "one_call (DoBegin k) = (\<forall>r. returned (k r))"
| "one_call (DoCommit k) = (\<forall>r. returned (k r))"
| "one_call (DoRollback k) = (\<forall>r. returned (k r))"

lemma one_call_step:
  assumes "one_call p" and "prog_step h p w = (p', w')"
  shows "\<exists>a. p' = Return a \<and> run h p w = (a, w')"
  using assms by (cases p) (auto simp: returned_iff split: prod.splits, (metis run.simps(1))+)

lemma one_call_bind: "one_call p \<Longrightarrow> (\<And>a. returned (f a)) \<Longrightarrow> one_call (bind_prog p f)"
  by (cases p) (auto simp: returned_iff, (metis bind_prog.simps(1))+)

subsection \<open>Safe programs\<close>

inductive safe ::
    "('d, 'w) handler \<Rightarrow> ('w \<Rightarrow> 'w \<Rightarrow> bool) \<Rightarrow> ('w \<Rightarrow> 'w \<Rightarrow> bool) \<Rightarrow> ('a \<Rightarrow> 'w \<Rightarrow> bool) \<Rightarrow>
     ('d, 'a) prog \<Rightarrow> 'w \<Rightarrow> bool" for h R G Q where
  answers: "Q a w \<Longrightarrow> safe h R G Q (Return a) w"
| interacts: "\<not> returned p \<Longrightarrow>
    (\<And>w1 p' w'. R w w1 \<Longrightarrow> prog_step h p w1 = (p', w') \<Longrightarrow> G w1 w') \<Longrightarrow>
    (\<And>w1 p' w'. R w w1 \<Longrightarrow> prog_step h p w1 = (p', w') \<Longrightarrow> safe h R G Q p' w') \<Longrightarrow>
    safe h R G Q p w"

inductive_cases safe_ReturnE: "safe h R G Q (Return a) w"

lemma safe_Return [simp]: "safe h R G Q (Return a) w \<longleftrightarrow> Q a w"
  by (auto intro: safe.answers elim: safe_ReturnE)

lemma safe_step:
  assumes "safe h R G Q p w" and "\<not> returned p" and "R w w1" and "prog_step h p w1 = (p', w')"
  shows "G w1 w' \<and> safe h R G Q p' w'"
  using assms by (cases rule: safe.cases) auto

definition stable :: "('w \<Rightarrow> 'w \<Rightarrow> bool) \<Rightarrow> ('w \<Rightarrow> bool) \<Rightarrow> bool" where
  "stable R P \<longleftrightarrow> (\<forall>w w1. P w \<longrightarrow> R w w1 \<longrightarrow> P w1)"

definition rg ::
    "('d, 'w) handler \<Rightarrow> ('w \<Rightarrow> 'w \<Rightarrow> bool) \<Rightarrow> ('w \<Rightarrow> 'w \<Rightarrow> bool) \<Rightarrow> ('w \<Rightarrow> bool) \<Rightarrow> ('d, 'a) prog \<Rightarrow>
     ('a \<Rightarrow> 'w \<Rightarrow> bool) \<Rightarrow> bool" where
  "rg h R G P p Q \<longleftrightarrow> (\<forall>w. P w \<longrightarrow> safe h R G Q p w)"

lemma stableD: "stable R P \<Longrightarrow> P w \<Longrightarrow> R w w1 \<Longrightarrow> P w1"
  by (auto simp: stable_def)

lemma stableI: "(\<And>w w1. P w \<Longrightarrow> R w w1 \<Longrightarrow> P w1) \<Longrightarrow> stable R P"
  by (auto simp: stable_def)

lemma stable_conj: "stable R P \<Longrightarrow> stable R Q \<Longrightarrow> stable R (\<lambda>w. P w \<and> Q w)"
  by (auto simp: stable_def)

lemma stable_disj: "stable R P \<Longrightarrow> stable R Q \<Longrightarrow> stable R (\<lambda>w. P w \<or> Q w)"
  by (auto simp: stable_def)

lemma stable_ex: "(\<And>x. stable R (P x)) \<Longrightarrow> stable R (\<lambda>w. \<exists>x. P x w)"
  by (fastforce simp: stable_def)

lemma stable_const [simp]: "stable R (\<lambda>_. b)"
  by (simp add: stable_def)

subsection \<open>The rules\<close>

lemma safe_bind:
  "safe h R G Q' p w \<Longrightarrow> (\<And>a w. Q' a w \<Longrightarrow> safe h R G Q (f a) w) \<Longrightarrow> safe h R G Q (bind_prog p f) w"
proof (induction rule: safe.induct)
  case (interacts p w)
  show ?case
  proof (rule safe.interacts)
    show "\<not> returned (bind_prog p f)" by (rule returned_bind) fact
    fix w1 p1 w'
    assume R: "R w w1" and "prog_step h (bind_prog p f) w1 = (p1, w')"
    then obtain p' where p': "prog_step h p w1 = (p', w')" "p1 = bind_prog p' f"
      using interacts(1) by (auto simp: prog_step_bind split: prod.splits)
    show "G w1 w'" by (rule interacts(2) [OF R p'(1)])
    show "safe h R G Q p1 w'" using interacts(4) [OF R p'(1)] interacts(5) p'(2) by blast
  qed
qed simp

lemma rgD: "rg h R G P p Q \<Longrightarrow> P w \<Longrightarrow> safe h R G Q p w"
  by (simp add: rg_def)

lemma rg_Return: "(\<And>w. P w \<Longrightarrow> Q a w) \<Longrightarrow> rg h R G P (Return a) Q"
  by (simp add: rg_def)

lemma rg_bind:
  "rg h R G P p Q' \<Longrightarrow> (\<And>a. rg h R G (Q' a) (f a) Q) \<Longrightarrow> rg h R G P (bind_prog p f) Q"
  unfolding rg_def by (blast intro: safe_bind)

lemma rg_andThen:
  assumes "rg h R G P p (\<lambda>r w. case r of Inl e \<Rightarrow> Q (Inl e) w | Inr x \<Rightarrow> Q' x w)"
    and "\<And>x. rg h R G (Q' x) (f x) Q"
  shows "rg h R G P (andThen p f) Q"
  unfolding andThen_def
proof (rule rg_bind [OF assms(1)])
  show "rg h R G (\<lambda>w. case r of Inl e \<Rightarrow> Q (Inl e) w | Inr x \<Rightarrow> Q' x w)
      (case r of Inl err \<Rightarrow> Return (Inl err) | Inr x \<Rightarrow> f x) Q" for r
    using assms(2) by (cases r) (auto intro: rg_Return)
qed

lemma safe_conseq: "safe h R G Q' p w \<Longrightarrow> (\<And>a w. Q' a w \<Longrightarrow> Q a w) \<Longrightarrow> safe h R G Q p w"
  using safe_bind [of h R G Q' p w Q Return] by simp

lemma rg_conseq:
  "rg h R G P' p Q' \<Longrightarrow> (\<And>w. P w \<Longrightarrow> P' w) \<Longrightarrow> (\<And>a w. Q' a w \<Longrightarrow> Q a w) \<Longrightarrow> rg h R G P p Q"
  unfolding rg_def by (blast intro: safe_conseq)

lemma rg_ex: "(\<And>x. rg h R G (P x) p Q) \<Longrightarrow> rg h R G (\<lambda>w. \<exists>x. P x w) p Q"
  by (auto simp: rg_def)

lemma rg_pure: "(b \<Longrightarrow> rg h R G P p Q) \<Longrightarrow> rg h R G (\<lambda>w. b \<and> P w) p Q"
  by (auto simp: rg_def)

lemma rg_one_call:
  assumes p: "one_call p" and P: "stable R P"
    and run: "\<And>w a w'. P w \<Longrightarrow> run h p w = (a, w') \<Longrightarrow> G w w' \<and> Q a w'"
  shows "rg h R G P p Q"
  unfolding rg_def
proof (intro allI impI)
  fix w
  assume w: "P w"
  show "safe h R G Q p w"
  proof (rule safe.interacts)
    show "\<not> returned p" using p by (cases p) simp_all
    fix w1 p' w'
    assume R: "R w w1" and st: "prog_step h p w1 = (p', w')"
    obtain a where "p' = Return a" "run h p w1 = (a, w')"
      using one_call_step [OF p st] by blast
    then show "G w1 w'" "safe h R G Q p' w'" using run stableD [OF P w R] by auto
  qed
qed

lemma rg_interaction:
  assumes "stable R P"
  shows "(\<And>w r w'. P w \<Longrightarrow> h_Begin h w = (r, w') \<Longrightarrow> G w w' \<and> Q' r w') \<Longrightarrow>
      (\<And>r. rg h R G (Q' r) (k r) Q) \<Longrightarrow> rg h R G P (DoBegin k) Q"
    and "(\<And>w r w'. P w \<Longrightarrow> h_Commit h w = (r, w') \<Longrightarrow> G w w' \<and> Q' r w') \<Longrightarrow>
      (\<And>r. rg h R G (Q' r) (k r) Q) \<Longrightarrow> rg h R G P (DoCommit k) Q"
    and "(\<And>w r w'. P w \<Longrightarrow> h_Rollback h w = (r, w') \<Longrightarrow> G w w' \<and> Q' r w') \<Longrightarrow>
      (\<And>r. rg h R G (Q' r) (k r) Q) \<Longrightarrow> rg h R G P (DoRollback k) Q"
  using rg_bind [OF rg_one_call [of "DoBegin Return", OF _ assms, of h G Q'], of k Q]
    rg_bind [OF rg_one_call [of "DoCommit Return", OF _ assms, of h G Q'], of k Q]
    rg_bind [OF rg_one_call [of "DoRollback Return", OF _ assms, of h G Q'], of k Q]
  by (auto split: prod.splits)

text \<open>A program waiting for its next interaction stays safe while the others move, when the rely is
  transitive and the answers' condition is stable.\<close>

lemma safe_stable:
  assumes "safe h R G Q p w" and "R w w1" and trans: "\<And>x y z. R x y \<Longrightarrow> R y z \<Longrightarrow> R x z"
    and Q: "\<And>a. stable R (Q a)"
  shows "safe h R G Q p w1"
  using assms(1)
proof cases
  case (answers a)
  then show ?thesis using stableD [OF Q _ assms(2)] by simp
next
  case interacts
  show ?thesis
  proof (rule safe.interacts)
    show "\<not> returned p" by fact
    fix w2 p' w'
    assume "R w1 w2" and st: "prog_step h p w2 = (p', w')"
    then have "R w w2" using trans [OF assms(2)] by blast
    with interacts(2,3) st show "G w2 w'" "safe h R G Q p' w'" by blast+
  qed
qed

end
