(* ===== verification/Claims.thy ===== *)
theory Claims
  imports Postgres
begin

text \<open>
  What an open transaction keeps other transactions away from, and what it can rely on. A transaction
  holds a lock on every row that it has locked or updated, and on the entry of every unique index
  that a row it has inserted takes (\<open>claim\<close>); a statement that needs a claim of another open
  transaction waits for that transaction's end. So, while the others go on, the committed tables grow
  only outside the transaction's claims (\<open>grows\<close>), and the integrity of the tables with its own
  writes on top stays.
\<close>

datatype 'u claim =
    AccountClaim int64
  | DepositClaim int64
  | TransferClaim int64
  | KeyClaim 'u
  | EntryClaim int64

fun write_claims :: "'u db_write \<Rightarrow> 'u claim list" where
  "write_claims (WAccount r) = [AccountClaim (ar_id r)]"
| "write_claims (WDeposit d) = [DepositClaim (dr_id d)]"
| "write_claims (WBalance i n now) = [AccountClaim i]"
| "write_claims (WTransfer r) =
     TransferClaim (xr_id r) # (case xr_idempotency_key r of None \<Rightarrow> [] | Some k \<Rightarrow> [KeyClaim k])"
| "write_claims (WLedgerEntry e) = [EntryClaim (lr_id e)]"

definition log_claims :: "'u db_write list \<Rightarrow> 'u claim list" where
  "log_claims ws = concat (map write_claims ws)"

lemma log_claims_simps [simp]:
  "log_claims [] = []" "log_claims (x # ws) = write_claims x @ log_claims ws"
  "log_claims (ws @ ws') = log_claims ws @ log_claims ws'"
  by (simp_all add: log_claims_def)

subsection \<open>The rows a log adds\<close>

fun new_accounts :: "'u db_write list \<Rightarrow> account_row list" where
  "new_accounts [] = []"
| "new_accounts (x # ws) = (case x of WAccount r \<Rightarrow> r # new_accounts ws | _ \<Rightarrow> new_accounts ws)"

fun new_deposits :: "'u db_write list \<Rightarrow> deposit_row list" where
  "new_deposits [] = []"
| "new_deposits (x # ws) = (case x of WDeposit r \<Rightarrow> r # new_deposits ws | _ \<Rightarrow> new_deposits ws)"

fun new_transfers :: "'u db_write list \<Rightarrow> 'u transfer_row list" where
  "new_transfers [] = []"
| "new_transfers (x # ws) = (case x of WTransfer r \<Rightarrow> r # new_transfers ws | _ \<Rightarrow> new_transfers ws)"

fun new_entries :: "'u db_write list \<Rightarrow> ledger_row list" where
  "new_entries [] = []"
| "new_entries (x # ws) = (case x of WLedgerEntry r \<Rightarrow> r # new_entries ws | _ \<Rightarrow> new_entries ws)"

lemma apply_writes_rows:
  "map ar_id (accounts (apply_writes ws t)) = map ar_id (accounts t) @ map ar_id (new_accounts ws)"
  "deposits (apply_writes ws t) = deposits t @ new_deposits ws"
  "transfers (apply_writes ws t) = transfers t @ new_transfers ws"
  "ledger_entries (apply_writes ws t) = ledger_entries t @ new_entries ws"
  by (induction ws arbitrary: t) (auto split: db_write.split)

lemma new_rows_claimed:
  "r \<in> set (new_accounts ws) \<Longrightarrow> AccountClaim (ar_id r) \<in> set (log_claims ws)"
  "d \<in> set (new_deposits ws) \<Longrightarrow> DepositClaim (dr_id d) \<in> set (log_claims ws)"
  "x \<in> set (new_transfers ws) \<Longrightarrow> TransferClaim (xr_id x) \<in> set (log_claims ws)"
  "x \<in> set (new_transfers ws) \<Longrightarrow> xr_idempotency_key x = Some k \<Longrightarrow> KeyClaim k \<in> set (log_claims ws)"
  "e \<in> set (new_entries ws) \<Longrightarrow> EntryClaim (lr_id e) \<in> set (log_claims ws)"
  by (induction ws) (auto split: db_write.splits option.split)

lemma account_row_of_unclaimed:
  "AccountClaim i \<notin> set (log_claims ws) \<Longrightarrow> account_row_of (apply_writes ws t) i = account_row_of t i"
proof (induction ws arbitrary: t)
  case (Cons x ws)
  then have "account_row_of (apply_writes ws (apply_write x t)) i = account_row_of (apply_write x t) i"
    by simp
  also have "\<dots> = account_row_of t i"
    using Cons.prems by (cases x) (auto simp: account_row_of_def lookup_by_append lookup_by_update_by split: option.split)
  finally show ?case by simp
qed simp

lemma account_row_of_cong:
  "account_row_of t1 i = account_row_of t i \<Longrightarrow>
     account_row_of (apply_writes ws t1) i = account_row_of (apply_writes ws t) i"
proof (induction ws arbitrary: t1 t)
  case (Cons x ws)
  then have "account_row_of (apply_write x t1) i = account_row_of (apply_write x t) i"
    by (cases x) (simp_all only: account_row_of_apply_write)
  from Cons.IH [OF this] show ?case by simp
qed simp

lemma ids_accounts: "ar_id ` set (accounts (apply_writes ws t)) =
    ar_id ` set (accounts t) \<union> ar_id ` set (new_accounts ws)"
  using arg_cong [OF apply_writes_rows(1) [of ws t], of set] by simp

lemma has_account_apply_writes: "has_account t i \<Longrightarrow> has_account (apply_writes ws t) i"
  by (simp add: has_account_iff ids_accounts)

lemma accounts_ok_lookup:
  "accounts_ok (accounts t) \<longleftrightarrow> distinct (map ar_id (accounts t)) \<and>
     (\<forall>i r. account_row_of t i = Some r \<longrightarrow> 0 \<le> ar_balance r \<and> ar_balance r < numeric_limit)"
  by (auto simp: accounts_ok_def account_row_of_def lookup_by_eq_Some_iff)

subsection \<open>Growth outside the claims\<close>

definition grows :: "'u claim set \<Rightarrow> 'u tables \<Rightarrow> 'u tables \<Rightarrow> bool" where
  "grows C t t1 \<longleftrightarrow>
     (\<forall>i. has_account t i \<longrightarrow> has_account t1 i) \<and>
     (\<forall>i. AccountClaim i \<in> C \<longrightarrow> account_row_of t1 i = account_row_of t i) \<and>
     (\<exists>ds. deposits t1 = deposits t @ ds \<and> (\<forall>d \<in> set ds. DepositClaim (dr_id d) \<notin> C)) \<and>
     (\<exists>xs. transfers t1 = transfers t @ xs \<and> (\<forall>x \<in> set xs. TransferClaim (xr_id x) \<notin> C \<and>
        (\<forall>k. xr_idempotency_key x = Some k \<longrightarrow> KeyClaim k \<notin> C))) \<and>
     (\<exists>es. ledger_entries t1 = ledger_entries t @ es \<and> (\<forall>e \<in> set es. EntryClaim (lr_id e) \<notin> C))"

lemma grows_refl [simp]: "grows C t t"
  by (simp add: grows_def)

lemma grows_trans: "grows C t t1 \<Longrightarrow> grows C t1 t2 \<Longrightarrow> grows C t t2"
  unfolding grows_def by (elim conjE exE, intro conjI) (auto 0 3 simp: ball_Un)

lemma grows_apply_writes:
  assumes "set (log_claims ws) \<inter> C = {}"
  shows "grows C t (apply_writes ws t)"
proof -
  have "account_row_of (apply_writes ws t) i = account_row_of t i" if "AccountClaim i \<in> C" for i
    using assms that by (intro account_row_of_unclaimed) blast
  moreover have "\<forall>d \<in> set (new_deposits ws). DepositClaim (dr_id d) \<notin> C"
    "\<forall>x \<in> set (new_transfers ws). TransferClaim (xr_id x) \<notin> C \<and>
        (\<forall>k. xr_idempotency_key x = Some k \<longrightarrow> KeyClaim k \<notin> C)"
    "\<forall>e \<in> set (new_entries ws). EntryClaim (lr_id e) \<notin> C"
    using assms new_rows_claimed [where ws = ws] by blast+
  ultimately show ?thesis
    by (auto simp: grows_def apply_writes_rows has_account_apply_writes)
qed

lemma serial_ids_append:
  "serial_ids s (xs @ ys) \<longleftrightarrow> serial_ids s xs \<and> serial_ids s ys \<and> set xs \<inter> set ys = {}"
  by (auto simp: serial_ids_def)

lemma serial_ids_mono: "serial_ids s xs \<Longrightarrow> s \<le> s' \<Longrightarrow> serial_ids s' xs"
  by (fastforce simp: serial_ids_def)

lemma stored_keys_append [simp]: "stored_keys (xs @ ys) = stored_keys xs @ stored_keys ys"
  by (simp add: stored_keys_def)

lemma stored_keys_iff: "Some k \<in> set (stored_keys xs) \<longleftrightarrow> (\<exists>x \<in> set xs. xr_idempotency_key x = Some k)"
  by (force simp: stored_keys_def)

lemma stored_keys_Some: "None \<notin> set (stored_keys xs)"
  by (simp add: stored_keys_def)

lemma apart_append:
  assumes "set (map f xs) \<inter> set (map f ns) = {}" and "\<forall>y \<in> set ys. c (f y) \<notin> C"
    and "\<And>n. n \<in> set ns \<Longrightarrow> c (f n) \<in> C"
  shows "set (map f (xs @ ys)) \<inter> set (map f ns) = {}"
proof -
  have "f y \<noteq> f n" if "y \<in> set ys" "n \<in> set ns" for y n
    using assms(2,3) that by metis
  then have "f ` set ys \<inter> f ` set ns = {}" by blast
  with assms(1) show ?thesis by (simp add: Int_Un_distrib2)
qed

text \<open>The tables of a transaction that began on \<open>t\<close> and wrote \<open>ws\<close>, when others have moved on to \<open>t1\<close>.\<close>

definition interfered ::
    "'u claim set \<Rightarrow> 'u db_write list \<Rightarrow> 'u tables \<Rightarrow> sequences \<Rightarrow> 'u tables \<Rightarrow> sequences \<Rightarrow> bool" where
  "interfered C ws t sq t1 sq1 \<longleftrightarrow>
     tables_ok (apply_writes ws t) sq \<and> tables_ok t1 sq1 \<and> seqs_le sq sq1 \<and> grows C t t1 \<and> set (log_claims ws) \<subseteq> C"

lemma interfered_claimed:
  assumes "interfered C ws t sq t1 sq1"
  shows "r \<in> set (new_accounts ws) \<Longrightarrow> AccountClaim (ar_id r) \<in> C"
    "d \<in> set (new_deposits ws) \<Longrightarrow> DepositClaim (dr_id d) \<in> C"
    "x \<in> set (new_transfers ws) \<Longrightarrow> TransferClaim (xr_id x) \<in> C"
    "x \<in> set (new_transfers ws) \<Longrightarrow> xr_idempotency_key x = Some k \<Longrightarrow> KeyClaim k \<in> C"
    "e \<in> set (new_entries ws) \<Longrightarrow> EntryClaim (lr_id e) \<in> C"
  using assms new_rows_claimed [where ws = ws] unfolding interfered_def by blast+

lemma interfered_growth:
  assumes "interfered C ws t sq t1 sq1"
  obtains ds xs es where "deposits t1 = deposits t @ ds" "\<forall>d \<in> set ds. DepositClaim (dr_id d) \<notin> C"
    "transfers t1 = transfers t @ xs" "\<forall>x \<in> set xs. TransferClaim (xr_id x) \<notin> C"
    "\<forall>x \<in> set xs. \<forall>k. xr_idempotency_key x = Some k \<longrightarrow> KeyClaim k \<notin> C"
    "ledger_entries t1 = ledger_entries t @ es" "\<forall>e \<in> set es. EntryClaim (lr_id e) \<notin> C"
  using assms unfolding interfered_def grows_def by blast

lemma interfered_ids:
  assumes "interfered C ws t sq t1 sq1"
  shows "ar_id ` set (accounts (apply_writes ws t)) \<subseteq> ar_id ` set (accounts (apply_writes ws t1))"
    and "ar_id ` set (accounts t1) \<subseteq> ar_id ` set (accounts (apply_writes ws t1))"
    and "xr_id ` set (transfers (apply_writes ws t)) \<subseteq> xr_id ` set (transfers (apply_writes ws t1))"
    and "xr_id ` set (transfers t1) \<subseteq> xr_id ` set (transfers (apply_writes ws t1))"
proof -
  show "ar_id ` set (accounts (apply_writes ws t)) \<subseteq> ar_id ` set (accounts (apply_writes ws t1))"
    using assms by (auto simp: interfered_def ids_accounts grows_def has_account_iff)
  show "ar_id ` set (accounts t1) \<subseteq> ar_id ` set (accounts (apply_writes ws t1))" by (auto simp: ids_accounts)
  show "xr_id ` set (transfers (apply_writes ws t)) \<subseteq> xr_id ` set (transfers (apply_writes ws t1))"
    by (rule interfered_growth [OF assms]) (auto simp: apply_writes_rows)
  show "xr_id ` set (transfers t1) \<subseteq> xr_id ` set (transfers (apply_writes ws t1))" by (auto simp: apply_writes_rows)
qed

lemma interfered_account_ids:
  assumes "interfered C ws t sq t1 sq1"
  shows "distinct (map ar_id (accounts (apply_writes ws t1)))"
proof -
  have view: "accounts_ok (accounts (apply_writes ws t))" and t1: "accounts_ok (accounts t1)" and g: "grows C t t1"
    using assms by (simp_all add: interfered_def tables_ok_def)
  have "\<not> has_account t1 (ar_id r)" if "r \<in> set (new_accounts ws)" for r
  proof -
    have "\<not> has_account t (ar_id r)"
      using view that by (auto simp: accounts_ok_def apply_writes_rows has_account_iff)
    with g interfered_claimed(1) [OF assms that] show ?thesis by (simp add: grows_def has_account_def)
  qed
  then have "ar_id ` set (new_accounts ws) \<inter> ar_id ` set (accounts t1) = {}"
    unfolding has_account_iff by blast
  with view t1 show ?thesis by (simp add: accounts_ok_def apply_writes_rows Int_commute)
qed

lemma interfered_accounts:
  assumes "interfered C ws t sq t1 sq1"
  shows "accounts_ok (accounts (apply_writes ws t1))"
  unfolding accounts_ok_lookup
proof (intro conjI allI impI)
  fix i r
  assume r: "account_row_of (apply_writes ws t1) i = Some r"
  have g: "grows C t t1" "set (log_claims ws) \<subseteq> C" and tables: "tables_ok (apply_writes ws t) sq" "tables_ok t1 sq1"
    using assms by (simp_all add: interfered_def)
  have "account_row_of (apply_writes ws t) i = Some r \<or> account_row_of t1 i = Some r"
  proof (cases "AccountClaim i \<in> set (log_claims ws)")
    case True
    with g have "account_row_of t1 i = account_row_of t i" by (auto simp: grows_def)
    with r account_row_of_cong [of t1 i t ws] show ?thesis by simp
  next
    case False
    with r account_row_of_unclaimed [OF False, of t1] show ?thesis by simp
  qed
  with tables have "0 \<le> ar_balance r \<and> ar_balance r < numeric_limit"
    unfolding tables_ok_def accounts_ok_lookup by blast
  then show "0 \<le> ar_balance r" "ar_balance r < numeric_limit" by simp_all
qed (rule interfered_account_ids [OF assms])

text \<open>The rows of the other tables are those that others committed and those that the transaction adds.\<close>

lemma interfered_rows:
  assumes "interfered C ws t sq t1 sq1"
  shows "deposits_ok (ar_id ` set (accounts (apply_writes ws t1))) (deposits (apply_writes ws t1))"
    and "entries_ok (ar_id ` set (accounts (apply_writes ws t1))) (xr_id ` set (transfers (apply_writes ws t1)))
      (ledger_entries (apply_writes ws t1))"
    and "transfers_ok (ar_id ` set (accounts (apply_writes ws t1))) (transfers t1)"
    and "transfers_ok (ar_id ` set (accounts (apply_writes ws t1))) (transfers (apply_writes ws t))"
proof -
  let ?A = "ar_id ` set (accounts (apply_writes ws t1))" and ?X = "xr_id ` set (transfers (apply_writes ws t1))"
  note ids = interfered_ids [OF assms]
  have tables: "tables_ok (apply_writes ws t) sq" "tables_ok t1 sq1" using assms by (simp_all add: interfered_def)
  have "deposits_ok ?A (deposits (apply_writes ws t))" "deposits_ok ?A (deposits t1)"
    using tables by (auto simp: tables_ok_def intro: rows_ok_mono(1) [OF _ ids(1)] rows_ok_mono(1) [OF _ ids(2)])
  then show "deposits_ok ?A (deposits (apply_writes ws t1))" by (auto simp: deposits_ok_def apply_writes_rows)
  have "entries_ok ?A ?X (ledger_entries (apply_writes ws t))" "entries_ok ?A ?X (ledger_entries t1)"
    using tables by (auto simp: tables_ok_def intro: rows_ok_mono(3) [OF _ ids(1,3)] rows_ok_mono(3) [OF _ ids(2,4)])
  then show "entries_ok ?A ?X (ledger_entries (apply_writes ws t1))" by (auto simp: entries_ok_def apply_writes_rows)
  show "transfers_ok ?A (transfers t1)" "transfers_ok ?A (transfers (apply_writes ws t))"
    using tables by (auto simp: tables_ok_def intro: rows_ok_mono(2) [OF _ ids(1)] rows_ok_mono(2) [OF _ ids(2)])
qed

lemma interfered_transfers:
  assumes "interfered C ws t sq t1 sq1"
  shows "transfers_ok (ar_id ` set (accounts (apply_writes ws t1))) (transfers (apply_writes ws t1))"
proof -
  note old = interfered_rows(3) [OF assms] and new = interfered_rows(4) [OF assms]
  obtain xs where xs: "transfers t1 = transfers t @ xs"
    "\<forall>x \<in> set xs. \<forall>k. xr_idempotency_key x = Some k \<longrightarrow> KeyClaim k \<notin> C"
    by (rule interfered_growth [OF assms])
  have "Some k \<notin> set (stored_keys (transfers t1))" if k: "Some k \<in> set (stored_keys (new_transfers ws))" for k
  proof -
    have "Some k \<notin> set (stored_keys (transfers t))" using new k by (auto simp: transfers_ok_def apply_writes_rows)
    moreover have "KeyClaim k \<in> C" using k interfered_claimed(4) [OF assms] by (auto simp: stored_keys_iff)
    ultimately show ?thesis using xs by (auto simp: stored_keys_iff)
  qed
  then have "set (stored_keys (transfers t1)) \<inter> set (stored_keys (new_transfers ws)) = {}"
    using stored_keys_Some by (metis disjoint_iff not_Some_eq)
  with old new show ?thesis by (auto simp: transfers_ok_def apply_writes_rows)
qed

lemma interfered_serials:
  assumes "interfered C ws t sq t1 sq1"
  shows "serial_ids (deposits_id_seq sq1) (map dr_id (deposits (apply_writes ws t1)))"
    "serial_ids (transfers_id_seq sq1) (map xr_id (transfers (apply_writes ws t1)))"
    "serial_ids (ledger_entries_id_seq sq1) (map lr_id (ledger_entries (apply_writes ws t1)))"
proof -
  note rows = apply_writes_rows and claimed = interfered_claimed [OF assms]
  have view: "tables_ok (apply_writes ws t) sq" and t1: "tables_ok t1 sq1" and sq: "seqs_le sq sq1"
    using assms by (simp_all add: interfered_def)
  have new: "serial_ids (deposits_id_seq sq1) (map dr_id (new_deposits ws))"
    "serial_ids (transfers_id_seq sq1) (map xr_id (new_transfers ws))"
    "serial_ids (ledger_entries_id_seq sq1) (map lr_id (new_entries ws))"
    using view sq by (auto simp: tables_ok_def rows serial_ids_append seqs_le_def intro: serial_ids_mono)
  have old: "set (map dr_id (deposits t)) \<inter> set (map dr_id (new_deposits ws)) = {}"
    "set (map xr_id (transfers t)) \<inter> set (map xr_id (new_transfers ws)) = {}"
    "set (map lr_id (ledger_entries t)) \<inter> set (map lr_id (new_entries ws)) = {}"
    using view unfolding tables_ok_def rows map_append serial_ids_append by blast+
  obtain ds xs es where ext: "deposits t1 = deposits t @ ds" "\<forall>d \<in> set ds. DepositClaim (dr_id d) \<notin> C"
    "transfers t1 = transfers t @ xs" "\<forall>x \<in> set xs. TransferClaim (xr_id x) \<notin> C"
    "ledger_entries t1 = ledger_entries t @ es" "\<forall>e \<in> set es. EntryClaim (lr_id e) \<notin> C"
    by (rule interfered_growth [OF assms])
  have "set (map dr_id (deposits t1)) \<inter> set (map dr_id (new_deposits ws)) = {}"
    unfolding ext(1) by (rule apart_append [where c = DepositClaim and C = C, OF old(1) ext(2) claimed(2)])
  moreover have "set (map xr_id (transfers t1)) \<inter> set (map xr_id (new_transfers ws)) = {}"
    unfolding ext(3) by (rule apart_append [where c = TransferClaim and C = C, OF old(2) ext(4) claimed(3)])
  moreover have "set (map lr_id (ledger_entries t1)) \<inter> set (map lr_id (new_entries ws)) = {}"
    unfolding ext(5) by (rule apart_append [where c = EntryClaim and C = C, OF old(3) ext(6) claimed(5)])
  ultimately
  show "serial_ids (deposits_id_seq sq1) (map dr_id (deposits (apply_writes ws t1)))"
    "serial_ids (transfers_id_seq sq1) (map xr_id (transfers (apply_writes ws t1)))"
    "serial_ids (ledger_entries_id_seq sq1) (map lr_id (ledger_entries (apply_writes ws t1)))"
    using t1 new by (simp_all add: tables_ok_def rows serial_ids_append)
qed

text \<open>The integrity of the tables with a transaction's writes on top survives what the others do.\<close>

lemma tables_ok_interfered:
  assumes "tables_ok (apply_writes ws t) sq" and "tables_ok t1 sq1" and "seqs_le sq sq1"
    and "grows C t t1" and "set (log_claims ws) \<subseteq> C"
  shows "tables_ok (apply_writes ws t1) sq1"
proof -
  have "interfered C ws t sq t1 sq1" using assms by (simp add: interfered_def)
  from interfered_accounts [OF this] interfered_rows(1,2) [OF this] interfered_transfers [OF this]
    interfered_serials [OF this] show ?thesis
    unfolding tables_ok_def by (intro conjI)
qed

end
