(* ===== verification/Sessions.thy ===== *)
theory Sessions
  imports Interference Claims Service_System
begin

text \<open>
  A session among others: what it has locked, what it has committed for the request it serves, and
  how it and the others leave each other's transactions intact. \<open>session\<close> is the handler \<open>pg\<close> with
  this bookkeeping; \<open>rely\<close> is what the other sessions may do between two interactions, \<open>guar\<close> what
  an interaction of this session does. The transaction manager is verified once, for every function
  it runs (\<open>rg_withTxLoop\<close>).
\<close>

subsection \<open>What a request does to the ledger\<close>

datatype 'k effect = Paid "'k payment" | Opened int64 int

fun effect_step :: "'k effect \<Rightarrow> 'k ledger \<Rightarrow> 'k ledger \<Rightarrow> bool" where
  "effect_step (Paid p) L L' =
     payment_posted (pay_key p) (pay_source p) (pay_destination p) (pay_amount p) p L L'"
| "effect_step (Opened i n) L L' = (balance_of L i = None \<and> 0 \<le> n \<and> L' = open_account i n L)"

fun moves :: "'k effect list \<Rightarrow> 'k ledger \<Rightarrow> 'k ledger \<Rightarrow> bool" where
  "moves [] L L' = (L' = L)"
| "moves (e # es) L L' = (\<exists>L1. effect_step e L L1 \<and> moves es L1 L')"

lemma moves_append: "moves (es @ es') L L' \<longleftrightarrow> (\<exists>L1. moves es L L1 \<and> moves es' L1 L')"
  by (induction es arbitrary: L) auto

lemma effect_step_ok: "effect_step e L L' \<Longrightarrow> ledger_ok L \<Longrightarrow> ledger_ok L' \<and> ledger_extends L L'"
  by (cases e) (auto intro: ledger_ok_posted ledger_ok_open ledger_extends_posted ledger_extends_open)

lemma moves_ok: "moves es L L' \<Longrightarrow> ledger_ok L \<Longrightarrow> ledger_ok L' \<and> ledger_extends L L'"
  by (induction es arbitrary: L) (auto dest: effect_step_ok intro: ledger_extends_trans)

text \<open>The accounts and payments that the tables have gained.\<close>

definition effects_between :: "'u tables \<Rightarrow> 'u tables \<Rightarrow> 'u effect list" where
  "effects_between t t' =
     map (\<lambda>r. Opened (ar_id r) (ar_balance r)) (drop (length (accounts t)) (accounts t')) @
     map (\<lambda>r. Paid (payment_of_row r)) (drop (length (transfers t)) (transfers t'))"

lemma effects_between_same [simp]: "effects_between t t = []"
  by (simp add: effects_between_def)

subsection \<open>Sessions\<close>

record 'u conn =
  cn_world :: "'u world"
  cn_locked :: "int64 list"
  cn_done :: "'u effect list"

definition locked_rows :: "'d sql \<Rightarrow> 'u tables \<Rightarrow> int64 list" where
  "locked_rows stmt t = (case stmt of SqlLockAccounts ids \<Rightarrow> map ar_id (lock_rows t ids) | _ \<Rightarrow> [])"

definition on_statement ::
    "querier \<Rightarrow> 'd sql \<Rightarrow> ('u world \<Rightarrow> 'r \<times> 'u world) \<Rightarrow> 'u conn \<Rightarrow> 'r \<times> 'u conn" where
  "on_statement q stmt f c =
     (case f (cn_world c) of
        (r, w') \<Rightarrow> (r, c\<lparr>cn_world := w',
          cn_locked := cn_locked c @ (if q = Tx then locked_rows stmt (view (cn_world c)) else [])\<rparr>))"

definition on_transaction :: "('u world \<Rightarrow> 'r \<times> 'u world) \<Rightarrow> 'u conn \<Rightarrow> 'r \<times> 'u conn" where
  "on_transaction f c =
     (case f (cn_world c) of
        (r, w') \<Rightarrow> (r, \<lparr>cn_world = w', cn_locked = [],
          cn_done = cn_done c @ effects_between (committed (cn_world c)) (committed w')\<rparr>))"

definition session :: "'d decimal_ops \<Rightarrow> 'u uuid_ops \<Rightarrow> ('d, 'u conn) handler" where
  "session D U =
     \<lparr>h_Exec = \<lambda>q s. on_statement q s (pg_exec D U q s),
      h_Query = \<lambda>q s. on_statement q s (pg_query D U q s),
      h_QueryRow = \<lambda>q s. on_statement q s (pg_query_row D U q s),
      h_Begin = on_transaction pg_begin, h_Commit = on_transaction pg_commit,
      h_Rollback = on_transaction pg_rollback\<rparr>"

lemma session_sel [run_simps]:
  "h_Exec (session D U) q s = on_statement q s (pg_exec D U q s)"
  "h_Query (session D U) q s = on_statement q s (pg_query D U q s)"
  "h_QueryRow (session D U) q s = on_statement q s (pg_query_row D U q s)"
  "h_Begin (session D U) = on_transaction pg_begin" "h_Commit (session D U) = on_transaction pg_commit"
  "h_Rollback (session D U) = on_transaction pg_rollback"
  by (simp_all add: session_def)

text \<open>A session alone runs a program as \<open>pg\<close> does.\<close>

lemma run_session_world: "run (session D U) p c = (r, c') \<Longrightarrow> run (pg D U) p (cn_world c) = (r, cn_world c')"
  by (induction p arbitrary: c)
    (fastforce simp: run_simps on_statement_def on_transaction_def split: prod.splits)+

text \<open>A transaction in which a statement has failed has given up its claims.\<close>

definition txn_claims :: "int64 list \<Rightarrow> 'u txn option \<Rightarrow> 'u claim list" where
  "txn_claims locked t =
     (case t of
        None \<Rightarrow> []
      | Some t \<Rightarrow> if tx_failed t then [] else map AccountClaim locked @ log_claims (tx_writes t))"

definition conn_claims :: "'u conn \<Rightarrow> 'u claim list" where
  "conn_claims c = txn_claims (cn_locked c) (txn (cn_world c))"

definition conn_ok :: "'u conn \<Rightarrow> bool" where
  "conn_ok c \<longleftrightarrow> tables_ok (committed (cn_world c)) (seqs (cn_world c)) \<and>
     (\<forall>t. txn (cn_world c) = Some t \<longrightarrow> \<not> tx_failed t \<longrightarrow> tables_ok (view (cn_world c)) (seqs (cn_world c)))"

definition rely :: "'u conn \<Rightarrow> 'u conn \<Rightarrow> bool" where
  "rely c c1 \<longleftrightarrow>
     txn (cn_world c1) = txn (cn_world c) \<and> cn_locked c1 = cn_locked c \<and> cn_done c1 = cn_done c \<and>
     tables_ok (committed (cn_world c1)) (seqs (cn_world c1)) \<and>
     seqs_le (seqs (cn_world c)) (seqs (cn_world c1)) \<and>
     grows (set (conn_claims c)) (committed (cn_world c)) (committed (cn_world c1))"

text \<open>A request has at most one effect, one of those in \<open>A\<close>.\<close>

definition done_ok :: "('u effect \<Rightarrow> bool) \<Rightarrow> 'u effect list \<Rightarrow> bool" where
  "done_ok A es \<longleftrightarrow> length es \<le> 1 \<and> (\<forall>e \<in> set es. A e)"

lemma done_ok_Nil [simp]: "done_ok A []"
  by (simp add: done_ok_def)

definition guar :: "('u effect \<Rightarrow> bool) \<Rightarrow> 'u conn \<Rightarrow> 'u conn \<Rightarrow> bool" where
  "guar A c c' \<longleftrightarrow>
     tables_ok (committed (cn_world c')) (seqs (cn_world c')) \<and>
     seqs_le (seqs (cn_world c)) (seqs (cn_world c')) \<and>
     (\<exists>ws. set (log_claims ws) \<subseteq> set (conn_claims c) \<and>
        committed (cn_world c') = apply_writes ws (committed (cn_world c))) \<and>
     done_ok A (cn_done c') \<and>
     (\<exists>es. cn_done c' = cn_done c @ es \<and>
        moves es (settled_ledger (cn_world c)) (settled_ledger (cn_world c')))"

lemma conn_claims_cong:
  "txn (cn_world c1) = txn (cn_world c) \<Longrightarrow> cn_locked c1 = cn_locked c \<Longrightarrow> conn_claims c1 = conn_claims c"
  by (simp add: conn_claims_def)

lemma seqs_le_trans: "seqs_le s s1 \<Longrightarrow> seqs_le s1 s2 \<Longrightarrow> seqs_le s s2"
  by (simp add: seqs_le_def)

lemma rely_trans: "rely c c1 \<Longrightarrow> rely c1 c2 \<Longrightarrow> rely c c2"
  using conn_claims_cong [of c1 c] unfolding rely_def by (auto intro: seqs_le_trans grows_trans)

lemma grows_extends: "grows C t t1 \<Longrightarrow> ledger_extends (abs_ledger t) (abs_ledger t1)"
proof -
  assume g: "grows C t t1"
  then obtain ds xs es where "deposits t1 = deposits t @ ds" "transfers t1 = transfers t @ xs"
    "ledger_entries t1 = ledger_entries t @ es" unfolding grows_def by blast
  moreover have "dom (balance_of (abs_ledger t)) \<subseteq> dom (balance_of (abs_ledger t1))"
    using g by (auto simp: grows_def has_account_def)
  ultimately show ?thesis by (simp add: ledger_extends_def extends_iff abs_ledger_def)
qed

lemma rely_extends: "rely c c1 \<Longrightarrow> ledger_extends (settled_ledger (cn_world c)) (settled_ledger (cn_world c1))"
  by (auto simp: rely_def settled_ledger_def intro: grows_extends)

lemma rely_balance:
  "rely c c1 \<Longrightarrow> AccountClaim i \<in> set (conn_claims c) \<Longrightarrow>
     balance_of (settled_ledger (cn_world c1)) i = balance_of (settled_ledger (cn_world c)) i"
  by (simp add: rely_def grows_def settled_ledger_def)

lemma stable_conn_ok: "stable rely conn_ok"
proof (rule stableI)
  fix c c1 :: "'u conn"
  assume c: "conn_ok c" and R: "rely c c1"
  have "tables_ok (view (cn_world c1)) (seqs (cn_world c1))"
    if t: "txn (cn_world c1) = Some t" "\<not> tx_failed t" for t
  proof -
    have t': "txn (cn_world c) = Some t" using R t by (simp add: rely_def)
    have "tables_ok (apply_writes (tx_writes t) (committed (cn_world c))) (seqs (cn_world c))"
      using c t' t(2) by (simp add: conn_ok_def view_def)
    moreover have "set (log_claims (tx_writes t)) \<subseteq> set (conn_claims c)"
      using t' t(2) by (simp add: conn_claims_def txn_claims_def)
    moreover have "tables_ok (committed (cn_world c1)) (seqs (cn_world c1))"
      "seqs_le (seqs (cn_world c)) (seqs (cn_world c1))"
      "grows (set (conn_claims c)) (committed (cn_world c)) (committed (cn_world c1))"
      using R unfolding rely_def by blast+
    ultimately have "tables_ok (apply_writes (tx_writes t) (committed (cn_world c1))) (seqs (cn_world c1))"
      by (blast intro: tables_ok_interfered)
    then show ?thesis using t by (simp add: view_def)
  qed
  then show "conn_ok c1" using R by (simp add: conn_ok_def rely_def)
qed

end
