(* ===== verification/Interleaved_Tx.thy ===== *)
theory Interleaved_Tx
  imports Sessions
begin

text \<open>
  Transactions of a session among others. Between its interactions the transaction's log stays as it
  is, and the tables it sees keep their integrity (\<open>logged\<close>); the transaction manager commits what
  the function has written, on the tables as they are by then, or nothing, and repeats only attempts
  that left nothing (\<open>rg_withTxLoop\<close>).
\<close>

definition logged :: "'u db_write list \<Rightarrow> 'u conn \<Rightarrow> bool" where
  "logged ws c \<longleftrightarrow>
     conn_ok c \<and> txn (cn_world c) = Some \<lparr>tx_writes = ws, tx_failed = False\<rparr> \<and> cn_done c = []"

definition opened :: "'u conn \<Rightarrow> bool" where
  "opened c \<longleftrightarrow> conn_ok c \<and> txn (cn_world c) \<noteq> None \<and> cn_done c = []"

definition fresh :: "'u conn \<Rightarrow> bool" where
  "fresh c \<longleftrightarrow> conn_ok c \<and> txn (cn_world c) = None \<and> cn_done c = []"

lemma rely_frame:
  "rely c c1 \<Longrightarrow> conn_ok c \<Longrightarrow> conn_ok c1"
  "rely c c1 \<Longrightarrow> txn (cn_world c1) = txn (cn_world c)" "rely c c1 \<Longrightarrow> cn_locked c1 = cn_locked c"
  "rely c c1 \<Longrightarrow> cn_done c1 = cn_done c" "rely c c1 \<Longrightarrow> conn_claims c1 = conn_claims c"
  using stableD [OF stable_conn_ok, of c c1] by (auto simp: rely_def intro: conn_claims_cong)

lemma stable_transaction:
  "stable rely (logged ws)" "stable rely opened" "stable rely fresh"
  unfolding stable_def logged_def opened_def fresh_def by (metis rely_frame(1,2,4))+

lemma logged_opened: "logged ws c \<Longrightarrow> opened c"
  by (simp add: logged_def opened_def)

lemma logged_view:
  assumes "logged ws c"
  shows "view (cn_world c) = apply_writes ws (committed (cn_world c))"
    and "tables_ok (apply_writes ws (committed (cn_world c))) (seqs (cn_world c))"
    and "set (conn_claims c) = AccountClaim ` set (cn_locked c) \<union> set (log_claims ws)"
  using assms by (auto simp: logged_def conn_ok_def view_def conn_claims_def txn_claims_def)

text \<open>An interaction that leaves the committed tables as they are is within the guarantee.\<close>

lemma guar_frame:
  assumes "conn_ok c" and "committed (cn_world c') = committed (cn_world c)"
    and "seqs_le (seqs (cn_world c)) (seqs (cn_world c'))" and "cn_done c' = cn_done c"
    and "done_ok A (cn_done c)"
  shows "guar A c c'"
proof -
  have "tables_ok (committed (cn_world c')) (seqs (cn_world c'))"
    using assms tables_ok_seqs_mono by (auto simp: conn_ok_def)
  moreover have "\<exists>ws. set (log_claims ws) \<subseteq> set (conn_claims c) \<and>
      committed (cn_world c') = apply_writes ws (committed (cn_world c))"
    by (rule exI [of _ "[]"]) (simp add: assms(2))
  moreover have "\<exists>es. cn_done c' = cn_done c @ es \<and>
      moves es (settled_ledger (cn_world c)) (settled_ledger (cn_world c'))"
    by (rule exI [of _ "[]"]) (simp add: assms settled_ledger_def)
  ultimately show ?thesis using assms(3-5) by (simp add: guar_def)
qed

subsection \<open>Statements\<close>

lemma logged_statement:
  assumes c: "logged ws c" and ok: "stmt_ok stmt" and st: "statement D U Tx stmt (cn_world c) = (r, w')"
    and c': "c' = c\<lparr>cn_world := w', cn_locked := cn_locked c @ lk\<rparr>"
  shows "guar A c c' \<and> opened c' \<and> committed w' = committed (cn_world c) \<and> (\<forall>rows. r = Inr rows \<longrightarrow>
    (\<exists>ws' now sq sq'. logged (ws @ ws') c' \<and> tables_ok (apply_writes ws (committed w')) sq \<and>
       sql_step D U now (apply_writes ws (committed w')) sq stmt = (Inr (rows, ws'), sq')))"
proof -
  let ?w = "cn_world c"
  let ?t = "\<lparr>tx_writes = ws, tx_failed = False\<rparr>"
  obtain f w0 where f: "next_fault ?w = (f, w0)" by fastforce
  note same = next_fault_sel [OF f]
  have t: "txn ?w = Some ?t" "txn w0 = Some ?t" using c same by (simp_all add: logged_def)
  have view: "view ?w = apply_writes ws (committed ?w)" "tables_ok (view ?w) (seqs ?w)"
    using logged_view [OF c] by simp_all
  obtain res sq where step: "sql_step D U (clock ?w) (view ?w) (seqs ?w) stmt = (res, sq)" by fastforce
  have sq: "seqs_le (seqs ?w) sq" using sql_step_seqs [of "seqs ?w" D U "clock ?w" "view ?w" stmt] step by simp
  have ok': "step_ok (view ?w) (res, sq)"
    using sql_step_ok [OF view(2) ok, of D U "clock ?w"] step by simp
  have com: "tables_ok (committed ?w) (seqs ?w)" "tables_ok (committed ?w) sq"
    using c sq by (auto simp: logged_def conn_ok_def intro: tables_ok_seqs_mono)
  have "committed w' = committed ?w \<and> seqs_le (seqs ?w) (seqs w') \<and> conn_ok c' \<and> txn w' \<noteq> None \<and>
    (\<forall>rows. r = Inr rows \<longrightarrow> (\<exists>ws'. logged (ws @ ws') c' \<and> res = Inr (rows, ws')))"
  proof (cases "f = NoFault \<and> (\<exists>p. res = Inr p)")
    case False
    then have "(\<exists>e. r = Inl e) \<and> (w' = mark_failed w0 \<or> w' = mark_failed (w0\<lparr>seqs := sq\<rparr>))"
      using st f t step same
      by (cases res) (auto simp: statement_def tx_statement_def fault_error_def split: fault.splits)
    then show ?thesis
      using c com sq same t by (auto simp: c' conn_ok_def mark_failed_def)
  next
    case True
    then obtain rows ws' where res: "res = Inr (rows, ws')" by fastforce
    have w': "r = Inr rows" "w' = w0\<lparr>seqs := sq, txn := Some \<lparr>tx_writes = ws @ ws', tx_failed = False\<rparr>\<rparr>"
      using True st f t step same res by (auto simp: statement_def tx_statement_def)
    have v: "view w' = apply_writes ws' (view ?w)" by (simp add: w' view_def same t)
    have "conn_ok c'" using com ok' v by (simp add: c' conn_ok_def step_ok_def res w' same)
    then show ?thesis using c sq by (simp add: c' w' res logged_def same)
  qed
  then have w': "committed w' = committed ?w" "seqs_le (seqs ?w) (seqs w')" "conn_ok c'" "txn w' \<noteq> None"
    "\<And>rows. r = Inr rows \<Longrightarrow> \<exists>ws'. logged (ws @ ws') c' \<and> res = Inr (rows, ws')" by blast+
  have "guar A c c'"
    by (rule guar_frame) (use c w' in \<open>simp_all add: c' logged_def\<close>)
  moreover have "opened c'" using c w' by (simp add: opened_def logged_def c')
  moreover have "\<exists>ws' now sq sq'. logged (ws @ ws') c' \<and> tables_ok (apply_writes ws (committed w')) sq \<and>
       sql_step D U now (apply_writes ws (committed w')) sq stmt = (Inr (rows, ws'), sq')" if "r = Inr rows" for rows
    using w'(5) [OF that] step view unfolding w'(1) by metis
  ultimately show ?thesis using w'(1) by blast
qed

subsection \<open>The transaction manager\<close>

text \<open>
  \<open>Post x es L\<close> is what the function's answer \<open>x\<close> claims about the effects \<open>es\<close> of the request and
  the committed ledger \<open>L\<close> of the moment. After an attempt: \<open>Post\<close> holds of an answer; after an error
  the request has had no effect, or its commit took effect without an acknowledgement, and then the
  error is that of the commit, which nobody retries.
\<close>

definition lost_ack :: "go_error \<Rightarrow> bool" where
  "lost_ack e \<longleftrightarrow> (\<exists>msg. e = Wrapf ''commit'' (ExternalError msg))"

lemma lost_ack_kind:
  "lost_ack e \<Longrightarrow> \<not> isRetryable e" "lost_ack e \<Longrightarrow> \<not> errors_Is e ErrDuplicateIdempotencyKey"
  by (auto simp: lost_ack_def isRetryable_def)

definition attempted ::
    "('a \<Rightarrow> 'u effect list \<Rightarrow> 'u ledger \<Rightarrow> bool) \<Rightarrow> go_error + 'a \<Rightarrow> 'u conn \<Rightarrow> bool" where
  "attempted Post r c \<longleftrightarrow> conn_ok c \<and> txn (cn_world c) = None \<and>
     (case r of
        Inr x \<Rightarrow> Post x (cn_done c) (settled_ledger (cn_world c))
      | Inl e \<Rightarrow> cn_done c = [] \<or> lost_ack e \<and> (\<exists>x. Post x (cn_done c) (settled_ledger (cn_world c))))"

text \<open>A log is ready to be committed with the answer \<open>x\<close>.\<close>

definition ready ::
    "('a \<Rightarrow> 'u effect list \<Rightarrow> 'u ledger \<Rightarrow> bool) \<Rightarrow> 'u db_write list \<Rightarrow> 'a \<Rightarrow> 'u conn \<Rightarrow> bool" where
  "ready Post ws x c \<longleftrightarrow> logged ws c \<and>
     (let t = committed (cn_world c); t' = apply_writes ws t; es = effects_between t t'
      in moves es (abs_ledger t) (abs_ledger t') \<and> Post x es (abs_ledger t'))"

definition monotone_post :: "('a \<Rightarrow> 'u effect list \<Rightarrow> 'u ledger \<Rightarrow> bool) \<Rightarrow> bool" where
  "monotone_post Post \<longleftrightarrow> (\<forall>x es L L'. Post x es L \<longrightarrow> ledger_extends L L' \<longrightarrow> Post x es L')"

definition effects_in :: "('u effect \<Rightarrow> bool) \<Rightarrow> ('a \<Rightarrow> 'u effect list \<Rightarrow> 'u ledger \<Rightarrow> bool) \<Rightarrow> bool" where
  "effects_in A Post \<longleftrightarrow> (\<forall>x es L. Post x es L \<longrightarrow> done_ok A es)"

lemma attempted_done: "effects_in A Post \<Longrightarrow> attempted Post r c \<Longrightarrow> done_ok A (cn_done c)"
  by (auto simp: effects_in_def attempted_def split: sum.splits)

lemma stable_attempted:
  assumes "monotone_post Post"
  shows "stable rely (attempted Post r)"
proof (rule stableI)
  fix c c1
  assume c: "attempted Post r c" and R: "rely c c1"
  have "Post x (cn_done c1) (settled_ledger (cn_world c1))"
    if "Post x (cn_done c) (settled_ledger (cn_world c))" for x
    using that assms R rely_extends [OF R] unfolding monotone_post_def rely_def by metis
  moreover have "conn_ok c1" using stableD [OF stable_conn_ok _ R] c by (simp add: attempted_def)
  ultimately show "attempted Post r c1"
    using c R by (auto simp: attempted_def rely_def split: sum.splits)
qed

lemma begin_session:
  assumes c: "fresh c" and b: "on_transaction pg_begin c = (r, c')"
  shows "guar A c c' \<and> (case r of Inl e \<Rightarrow> fresh c' | Inr _ \<Rightarrow> logged [] c')"
proof -
  obtain f w0 where f: "next_fault (cn_world c) = (f, w0)" by fastforce
  note same = next_fault_sel [OF f]
  have "committed (cn_world c') = committed (cn_world c)" "seqs (cn_world c') = seqs (cn_world c)"
    "cn_done c' = []" "case r of Inl e \<Rightarrow> txn (cn_world c') = None
      | Inr _ \<Rightarrow> txn (cn_world c') = Some \<lparr>tx_writes = [], tx_failed = False\<rparr>"
    using c b f same
    by (auto simp: on_transaction_def pg_begin_def fresh_def split: option.splits)
  then show ?thesis
    using c by (auto simp: fresh_def logged_def conn_ok_def view_def intro!: guar_frame split: sum.splits)
qed

lemma rollback_session:
  assumes b: "on_transaction pg_rollback c = (r, c')"
  shows "opened c \<Longrightarrow> guar A c c' \<and> fresh c'"
    and "effects_in A Post \<Longrightarrow> attempted Post x c \<Longrightarrow> guar A c c' \<and> attempted Post x c'"
proof -
  have same: "committed (cn_world c') = committed (cn_world c)" "seqs (cn_world c') = seqs (cn_world c)"
    "cn_done c' = cn_done c" "txn (cn_world c') = None"
    using b by (auto simp: on_transaction_def pg_rollback_def split: if_splits)
  then show "opened c \<Longrightarrow> guar A c c' \<and> fresh c'"
    by (auto simp: opened_def fresh_def conn_ok_def intro!: guar_frame)
  assume A: "effects_in A Post" and c: "attempted Post x c"
  have "guar A c c'"
    by (rule guar_frame) (use same c attempted_done [OF A c] in \<open>simp_all add: attempted_def\<close>)
  moreover have "attempted Post x c'"
    using same c by (simp add: attempted_def conn_ok_def settled_ledger_def split: sum.splits)
  ultimately show "guar A c c' \<and> attempted Post x c'" by blast
qed

lemma commit_session:
  assumes A: "effects_in A Post" and c: "ready Post ws x c" and b: "on_transaction pg_commit c = (r, c')"
  shows "guar A c c' \<and>
    attempted Post (case r of Inl e \<Rightarrow> Inl (Wrapf ''commit'' e) | Inr _ \<Rightarrow> Inr x) c'"
proof -
  obtain f w0 where f: "next_fault (cn_world c) = (f, w0)" by fastforce
  note same = next_fault_sel [OF f]
  let ?t = "committed (cn_world c)"
  let ?t' = "apply_writes ws ?t"
  have t: "txn (cn_world c) = Some \<lparr>tx_writes = ws, tx_failed = False\<rparr>" "cn_done c = []" "conn_ok c"
    using c by (simp_all add: ready_def logged_def)
  have m: "moves (effects_between ?t ?t') (abs_ledger ?t) (abs_ledger ?t')"
    "Post x (effects_between ?t ?t') (abs_ledger ?t')"
    using c by (simp_all add: ready_def Let_def)
  have log: "logged ws c" using c by (simp add: ready_def)
  consider (ended) "cn_world c' = w0\<lparr>txn := None\<rparr>" "cn_done c' = []" "\<exists>e. r = Inl e"
    | (final) "cn_world c' = w0\<lparr>txn := None, committed := ?t'\<rparr>" "cn_done c' = effects_between ?t ?t'"
      "r = Inr () \<or> (\<exists>msg. r = Inl (ExternalError msg))"
    using b f t same by (cases f) (auto simp: on_transaction_def pg_commit_def Let_def)
  then show ?thesis
  proof cases
    case ended
    have "guar A c c'" by (rule guar_frame) (use ended t same in simp_all)
    then show ?thesis using ended t same by (auto simp: attempted_def conn_ok_def)
  next
    case final
    have "set (log_claims ws) \<subseteq> set (conn_claims c)" using logged_view(3) [OF log] by simp
    moreover have "tables_ok ?t' (seqs (cn_world c))" using logged_view(2) [OF log] .
    moreover have "done_ok A (effects_between ?t ?t')" using A m(2) unfolding effects_in_def by blast
    ultimately have "guar A c c'"
      using final(1,2) t m(1) same unfolding guar_def by (auto simp: settled_ledger_def)
    moreover have "attempted Post (case r of Inl e \<Rightarrow> Inl (Wrapf ''commit'' e) | Inr _ \<Rightarrow> Inr x) c'"
      using final m(2) \<open>tables_ok ?t' (seqs (cn_world c))\<close> same
      by (auto simp: attempted_def conn_ok_def settled_ledger_def lost_ack_def)
    ultimately show ?thesis by blast
  qed
qed

text \<open>One attempt: the function is run after \<open>Begin\<close>, and its log committed or rolled back.\<close>

definition rg_function ::
    "'d decimal_ops \<Rightarrow> 'u uuid_ops \<Rightarrow> ('u effect \<Rightarrow> bool) \<Rightarrow>
     ('a \<Rightarrow> 'u effect list \<Rightarrow> 'u ledger \<Rightarrow> bool) \<Rightarrow> (querier \<Rightarrow> ('d, go_error + 'a) prog) \<Rightarrow> bool" where
  "rg_function D U A Post fn \<longleftrightarrow> effects_in A Post \<and>
     (\<exists>F. rg (session D U) rely (guar A) (logged []) (fn Tx)
        (\<lambda>r c. case r of Inl e \<Rightarrow> opened c | Inr x \<Rightarrow> F x c) \<and>
      (\<forall>x. stable rely (F x)) \<and> (\<forall>x c. F x c \<longrightarrow> (\<exists>ws. ready Post ws x c)))"

lemma rg_runOnce:
  assumes fn: "rg_function D U A Post fn" and mono: "monotone_post Post"
  shows "rg (session D U) rely (guar A) fresh (runOnce fn) (attempted Post)"
proof -
  from fn obtain F where body: "rg (session D U) rely (guar A) (logged []) (fn Tx)
      (\<lambda>r c. case r of Inl e \<Rightarrow> opened c | Inr x \<Rightarrow> F x c)"
    and F: "\<And>x. stable rely (F x)" "\<And>x c. F x c \<Longrightarrow> \<exists>ws. ready Post ws x c" and A: "effects_in A Post"
    unfolding rg_function_def by blast
  note rules = rg_interaction [where h = "session D U" and R = rely and G = "guar A"]
  let ?M = "\<lambda>r c. attempted Post r c \<or> (\<exists>e. r = Inl e) \<and> opened c"
  have commit: "rg (session D U) rely (guar A) (F x) (DoCommit (\<lambda>r. case r of Inl err \<Rightarrow>
      Return (Inl (Wrapf ''commit'' err)) | Inr _ \<Rightarrow> Return (Inr x))) ?M" for x
  proof (rule rules(2) [OF F(1)])
    fix c r c'
    assume c: "F x c" and b: "h_Commit (session D U) c = (r, c')"
    obtain ws where "ready Post ws x c" using F(2) [OF c] by blast
    then show "guar A c c' \<and> attempted Post (case r of Inl e \<Rightarrow> Inl (Wrapf ''commit'' e) | Inr _ \<Rightarrow> Inr x) c'"
      by (rule commit_session [OF A]) (use b in \<open>simp only: session_sel\<close>)
  next
    fix r :: "go_error + unit"
    show "rg (session D U) rely (guar A)
        (attempted Post (case r of Inl e \<Rightarrow> Inl (Wrapf ''commit'' e) | Inr _ \<Rightarrow> Inr x))
        (case r of Inl err \<Rightarrow> Return (Inl (Wrapf ''commit'' err)) | Inr _ \<Rightarrow> Return (Inr x)) ?M"
      by (cases r) (auto intro!: rg_Return)
  qed
  have work: "rg (session D U) rely (guar A) (logged []) (andThen (fn Tx) (\<lambda>x. DoCommit (\<lambda>r. case r of
      Inl err \<Rightarrow> Return (Inl (Wrapf ''commit'' err)) | Inr _ \<Rightarrow> Return (Inr x)))) ?M"
    by (rule rg_andThen [OF rg_conseq [OF body] commit]) (auto split: sum.splits)
  have roll: "rg (session D U) rely (guar A) (?M r) (DoRollback (\<lambda>_. Return r)) (attempted Post)" for r
  proof (rule rules(3) [where Q' = "\<lambda>_. attempted Post r"])
    show "stable rely (?M r)"
      by (intro stable_disj stable_attempted [OF mono] stable_conj stable_const stable_transaction)
    fix c b c'
    assume M: "?M r c" and "h_Rollback (session D U) c = (b, c')"
    then have b: "on_transaction pg_rollback c = (b, c')" by (simp only: session_sel)
    from M rollback_session [OF b] A show "guar A c c' \<and> attempted Post r c'"
      by (auto simp: attempted_def fresh_def)
  qed (auto intro: rg_Return)
  show ?thesis
    unfolding runOnce_def
  proof (rule rules(1) [OF stable_transaction(3)])
    fix c r c'
    assume "fresh c" and "h_Begin (session D U) c = (r, c')"
    then show "guar A c c' \<and> (case r of Inl e \<Rightarrow> fresh c' | Inr _ \<Rightarrow> logged [] c')"
      using begin_session unfolding session_sel by blast
  next
    fix r :: "go_error + unit"
    show "rg (session D U) rely (guar A) (\<lambda>c. case r of Inl e \<Rightarrow> fresh c | Inr _ \<Rightarrow> logged [] c)
        (case r of Inl err \<Rightarrow> Return (Inl (Wrapf ''begin'' err)) | Inr _ \<Rightarrow>
           bind_prog (andThen (fn Tx) (\<lambda>x. DoCommit (\<lambda>r. case r of
             Inl err \<Rightarrow> Return (Inl (Wrapf ''commit'' err)) | Inr _ \<Rightarrow> Return (Inr x))))
             (\<lambda>result. DoRollback (\<lambda>_. Return result))) (attempted Post)"
      using rg_bind [OF work roll]
      by (cases r) (auto intro!: rg_Return simp: fresh_def attempted_def)
  qed
qed

lemma rg_withTxLoop:
  assumes fn: "rg_function D U A Post fn" and mono: "monotone_post Post"
  shows "rg (session D U) rely (guar A) fresh (withTxLoop n lastErr fn) (attempted Post)"
proof (induction n arbitrary: lastErr)
  case 0
  then show ?case by (auto simp: Let_def attempted_def fresh_def intro!: rg_Return)
next
  case (Suc n)
  have "rg (session D U) rely (guar A) (attempted Post r) (case r of Inr x \<Rightarrow> Return (Inr x)
      | Inl err \<Rightarrow> (if \<not> isRetryable err then Return (Inl err) else withTxLoop n (Some err) fn)) (attempted Post)" for r
  proof (cases "\<exists>e. r = Inl e \<and> isRetryable e")
    case True
    then obtain e where e: "r = Inl e" "isRetryable e" by blast
    have "rg (session D U) rely (guar A) (attempted Post r) (withTxLoop n (Some e) fn) (attempted Post)"
      by (rule rg_conseq [OF Suc.IH]) (use e in \<open>auto simp: attempted_def fresh_def dest: lost_ack_kind\<close>)
    with e show ?thesis by simp
  next
    case False
    then show ?thesis by (cases r) (auto intro!: rg_Return)
  qed
  then show ?case unfolding withTxLoop.simps by (rule rg_bind [OF rg_runOnce [OF assms]])
qed

end
