(* ===== verification/Interleaved_Stores.thy ===== *)
theory Interleaved_Stores
  imports Interleaved_Tx
begin

text \<open>
  The repositories in a session among others. Between \<open>LockForUpdate\<close> and the end of its transaction
  a transfer holds the rows of its two accounts, so their balances stay what it has read (\<open>stage\<close>),
  whatever the other sessions commit; every later call adds its one write to the transaction's log.
\<close>

subsection \<open>Repository calls in a transaction\<close>

definition tx_post :: "('a \<Rightarrow> 'u conn \<Rightarrow> bool) \<Rightarrow> go_error + 'a \<Rightarrow> 'u conn \<Rightarrow> bool" where
  "tx_post F r c = (case r of Inl e \<Rightarrow> opened c | Inr x \<Rightarrow> F x c)"

lemma tx_post_simps [simp]: "tx_post F (Inl e) c = opened c" "tx_post F (Inr x) c = F x c"
  by (simp_all add: tx_post_def)

lemma tx_post_answer [simp]: "tx_post F (Inl e) = opened" "tx_post F (Inr x) = F x"
  by (simp_all add: fun_eq_iff)

lemma one_call_QueryRowScan: "one_call (QueryRowScan q stmt scan)"
  by (simp add: QueryRowScan_def andThen_def split: sum.split)

lemma one_call_repository:
  "one_call (AccountRepository_UpdateBalance q i b)" "one_call (AccountRepository_LockForUpdate q ids)"
  "one_call (AccountRepository_Get q i)" "one_call (TransferRepository_FindByIdempotencyKey q key)"
  "one_call (TransferRepository_Insert q t)" "one_call (TransferRepository_InsertLedgerEntry q e)"
  by (simp_all add: AccountRepository_UpdateBalance_def AccountRepository_LockForUpdate_def
      AccountRepository_Get_def TransferRepository_FindByIdempotencyKey_def TransferRepository_Insert_def
      TransferRepository_InsertLedgerEntry_def one_call_bind one_call_QueryRowScan
      split: sum.split prod.split option.split)

text \<open>The answers of the three kinds of statement calls, in an open transaction.\<close>

lemma call_answer:
  assumes "statement D U Tx stmt (cn_world c) = (r, w')"
  shows "run (session D U) (Exec Tx stmt) c = (map_sum id (\<lambda>_. ()) r,
      c\<lparr>cn_world := w', cn_locked := cn_locked c @ locked_rows stmt (view (cn_world c))\<rparr>)"
    and "run (session D U) (Query Tx stmt) c = (map_sum id (\<lambda>rows. (rows, None)) r,
      c\<lparr>cn_world := w', cn_locked := cn_locked c @ locked_rows stmt (view (cn_world c))\<rparr>)"
    and "run (session D U) (QueryRowScan Tx stmt scan) c =
      ((case r of Inl e \<Rightarrow> Inl e | Inr [] \<Rightarrow> Inl ErrNoRows | Inr (row # rows) \<Rightarrow> scan row),
       c\<lparr>cn_world := w', cn_locked := cn_locked c @ locked_rows stmt (view (cn_world c))\<rparr>)"
  using assms
  by (auto simp: run_simps on_statement_def pg_exec_def pg_query_def pg_query_row_def QueryRowScan_def
      split: sum.split list.split)

subsection \<open>Two accounts held\<close>

definition stage :: "int64 \<Rightarrow> int64 \<Rightarrow> int \<Rightarrow> int \<Rightarrow> 'u db_write list \<Rightarrow> 'u conn \<Rightarrow> bool" where
  "stage i j a b ws c \<longleftrightarrow> logged ws c \<and> {i, j} \<subseteq> set (cn_locked c) \<and>
     balance_of (settled_ledger (cn_world c)) i = Some a \<and>
     balance_of (settled_ledger (cn_world c)) j = Some b"

lemma stable_stage: "stable rely (stage i j a b ws)"
proof (rule stableI)
  fix c c1
  assume c: "stage i j a b ws c" and R: "rely c c1"
  then have log: "logged ws c" by (simp add: stage_def)
  have "AccountClaim i \<in> set (conn_claims c)" "AccountClaim j \<in> set (conn_claims c)"
    using c logged_view(3) [OF log] by (auto simp: stage_def)
  then show "stage i j a b ws c1"
    using c stableD [OF stable_transaction(1) log R] rely_balance [OF R] rely_frame(3) [OF R]
    by (simp add: stage_def)
qed

lemma stage_opened: "stage i j a b ws c \<Longrightarrow> opened c"
  by (auto simp: stage_def intro: logged_opened)

lemma stage_statement:
  assumes c: "stage i j a b ws c" and ok: "stmt_ok stmt" and st: "statement D U Tx stmt (cn_world c) = (r, w')"
    and c': "c' = c\<lparr>cn_world := w', cn_locked := cn_locked c @ lk\<rparr>"
  shows "guar A c c' \<and> opened c' \<and> (\<forall>rows. r = Inr rows \<longrightarrow> (\<exists>ws' now t sq sq'. stage i j a b (ws @ ws') c' \<and>
    has_account t i \<and> has_account t j \<and> tables_ok t sq \<and> sql_step D U now t sq stmt = (Inr (rows, ws'), sq')))"
proof -
  have log: "logged ws c" using c by (simp add: stage_def)
  let ?t = "apply_writes ws (committed (cn_world c))"
  note st = logged_statement [OF log ok st c']
  have "has_account ?t i" "has_account ?t j"
    using c by (auto simp: stage_def settled_ledger_def has_account_def [of "committed _"]
        intro!: has_account_apply_writes)
  moreover have "stage i j a b (ws @ ws') c'" if "logged (ws @ ws') c'" for ws'
    using c st that by (simp add: stage_def settled_ledger_def c')
  ultimately show ?thesis using st by metis
qed

context postgres
begin

abbreviation srg where
  "srg A \<equiv> rg (session D U) rely (guar A)"

lemma srg_then:
  assumes "srg A P p (tx_post F)" and "\<And>x. srg A (F x) (f x) (tx_post F')"
  shows "srg A P (andThen p f) (tx_post F')"
  by (rule rg_andThen [OF rg_conseq [OF assms(1)] assms(2)]) (auto split: sum.split simp: tx_post_def)

text \<open>A repository call that sends one statement; \<open>g\<close> is its answer from the statement's.\<close>

lemma rg_stage_call:
  assumes p: "one_call p" and ok: "stmt_ok stmt"
    and run: "\<And>c rs w'. statement D U Tx stmt (cn_world c) = (rs, w') \<Longrightarrow> run (session D U) p c =
      (g rs, c\<lparr>cn_world := w', cn_locked := cn_locked c @ locked_rows stmt (view (cn_world c))\<rparr>)"
    and fails: "\<And>e x. g (Inl e) \<noteq> Inr x"
    and works: "\<And>c' t now sq rows ws' sq' x. \<lbrakk>stage i j a b (ws @ ws') c'; has_account t i; has_account t j;
      tables_ok t sq; sql_step D U now t sq stmt = (Inr (rows, ws'), sq'); g (Inr rows) = Inr x\<rbrakk> \<Longrightarrow> F x c'"
  shows "srg A (stage i j a b ws) p (tx_post F)"
proof (rule rg_one_call [OF p stable_stage])
  fix c r c'
  assume c: "stage i j a b ws c" and r: "run (session D U) p c = (r, c')"
  obtain rs w' where st: "statement D U Tx stmt (cn_world c) = (rs, w')" by fastforce
  have c': "c' = c\<lparr>cn_world := w', cn_locked := cn_locked c @ locked_rows stmt (view (cn_world c))\<rparr>"
    and g: "r = g rs"
    using r run [OF st] by simp_all
  note after = stage_statement [where A = A, OF c ok st c']
  show "guar A c c' \<and> tx_post F r c'"
  proof (cases r)
    case (Inl e)
    with after show ?thesis by simp
  next
    case (Inr x)
    then obtain rows where rows: "rs = Inr rows" using fails g by (cases rs) simp_all
    with after obtain ws' now t sq sq' where "stage i j a b (ws @ ws') c'" "has_account t i" "has_account t j"
      "tables_ok t sq" "sql_step D U now t sq stmt = (Inr (rows, ws'), sq')" by blast
    then have "F x c'" by (rule works) (use Inr g rows in simp)
    with after Inr show ?thesis by simp
  qed
qed

lemma rg_UpdateBalance:
  assumes n: "decimal_value D x = numeric_value n" and k: "k \<in> {i, j}"
  shows "srg A (stage i j a b ws) (AccountRepository_UpdateBalance Tx k x)
    (tx_post (\<lambda>_ c. \<exists>now. stage i j a b (ws @ [WBalance k n now]) c))"
proof (rule rg_stage_call [OF one_call_repository(1),
    where stmt = "SqlUpdateBalance k x" and g = "\<lambda>r. case r of Inl err \<Rightarrow>
      if pgErrorCode err = codeCheckViolation then Inl ErrInsufficientFunds
      else Inl (Wrapf ''update balance'' err) | Inr _ \<Rightarrow> Inr ()"])
  fix c :: "'u conn" and rs w'
  assume st: "statement D U Tx (SqlUpdateBalance k x) (cn_world c) = (rs, w')"
  show "run (session D U) (AccountRepository_UpdateBalance Tx k x) c =
      (case rs of Inl err \<Rightarrow> if pgErrorCode err = codeCheckViolation then Inl ErrInsufficientFunds
         else Inl (Wrapf ''update balance'' err) | Inr _ \<Rightarrow> Inr (),
       c\<lparr>cn_world := w', cn_locked := cn_locked c @ locked_rows (SqlUpdateBalance k x) (view (cn_world c))\<rparr>)"
    unfolding AccountRepository_UpdateBalance_def run_bind_prog call_answer(1) [OF st]
    by (cases rs) simp_all
next
  fix c' t now sq rows ws' sq' and u :: unit
  assume c': "stage i j a b (ws @ ws') c'" and t: "has_account t i" "has_account t j"
    and step: "sql_step D U now t sq (SqlUpdateBalance k x) = (Inr (rows, ws'), sq')"
  have "ws' = [WBalance k n now]"
    using t step n k by (auto simp: update_balance_def numeric_in_value has_account_def split: option.splits if_splits)
  with c' show "\<exists>now. stage i j a b (ws @ [WBalance k n now]) c'" by blast
qed simp_all

lemma rg_Insert:
  assumes n: "decimal_value D (tr_Amount tr) = numeric_value n" and st: "tr_Status tr = StatusCompleted"
  shows "srg A (stage i j a b ws) (TransferRepository_Insert Tx tr)
    (tx_post (\<lambda>tid c. \<exists>row. xr_id row = tid \<and>
       key_option (pg_uuid_in U) (tr_IdempotencyKey tr) = Some (xr_idempotency_key row) \<and>
       xr_source_id row = tr_SourceID tr \<and> xr_destination_id row = tr_DestinationID tr \<and> xr_amount row = n \<and>
       stage i j a b (ws @ [WTransfer row]) c))"
proof (rule rg_stage_call [OF one_call_repository(5), where stmt = "SqlInsertTransfer (tr_IdempotencyKey tr)
      (tr_SourceID tr) (tr_DestinationID tr) (tr_Amount tr) (tr_Status tr)" and
      g = "\<lambda>r. case (case r of Inl e \<Rightarrow> Inl e | Inr [] \<Rightarrow> Inl ErrNoRows | Inr (row # rows) \<Rightarrow> scanID row) of
        Inl err \<Rightarrow> if isUniqueViolation err ''uq_transfers_idempotency_key''
          then Inl ErrDuplicateIdempotencyKey else Inl (Wrapf ''insert transfer'' err)
      | Inr i \<Rightarrow> Inr i"])
  let ?stmt = "SqlInsertTransfer (tr_IdempotencyKey tr) (tr_SourceID tr) (tr_DestinationID tr) (tr_Amount tr) (tr_Status tr)"
  let ?scan = "\<lambda>r. case r of Inl e \<Rightarrow> Inl e | Inr [] \<Rightarrow> Inl ErrNoRows | Inr (row # rows) \<Rightarrow> scanID row"
  let ?g = "\<lambda>r. case ?scan r of
        Inl err \<Rightarrow> if isUniqueViolation err ''uq_transfers_idempotency_key''
          then Inl ErrDuplicateIdempotencyKey else Inl (Wrapf ''insert transfer'' err)
      | Inr i \<Rightarrow> Inr i"
  show "stmt_ok ?stmt" using st by simp
  fix c :: "'u conn" and rs w'
  assume s: "statement D U Tx ?stmt (cn_world c) = (rs, w')"
  show "run (session D U) (TransferRepository_Insert Tx tr) c =
      (?g rs, c\<lparr>cn_world := w', cn_locked := cn_locked c @ locked_rows ?stmt (view (cn_world c))\<rparr>)"
    unfolding TransferRepository_Insert_def run_bind_prog call_answer(3) [OF s]
    by (cases "?scan rs") simp_all
next
  fix c' t now sq rows ws' sq' tid
  assume c': "stage i j a b (ws @ ws') c'"
    and step: "sql_step D U now t sq (SqlInsertTransfer (tr_IdempotencyKey tr) (tr_SourceID tr)
      (tr_DestinationID tr) (tr_Amount tr) (tr_Status tr)) = (Inr (rows, ws'), sq')"
    and g: "(case (case Inr rows of Inl e \<Rightarrow> Inl e | Inr [] \<Rightarrow> Inl ErrNoRows | Inr (row # rows) \<Rightarrow> scanID row) of
        Inl err \<Rightarrow> if isUniqueViolation err ''uq_transfers_idempotency_key''
          then Inl ErrDuplicateIdempotencyKey else Inl (Wrapf ''insert transfer'' err)
      | Inr i \<Rightarrow> Inr i) = Inr tid"
  have key: "key_option (pg_uuid_in U) k = uuid_param U k" for k
    by (simp add: key_option_def uuid_param_def)
  have "\<exists>row. ws' = [WTransfer row] \<and> rows = [[CInt (xr_id row)]] \<and> xr_source_id row = tr_SourceID tr \<and>
    xr_destination_id row = tr_DestinationID tr \<and> xr_amount row = n \<and>
    key_option (pg_uuid_in U) (tr_IdempotencyKey tr) = Some (xr_idempotency_key row)"
    unfolding key using step n
    by (auto simp: insert_transfer_def numeric_in_value Let_def split: option.splits if_splits)
  with c' g show "\<exists>row. xr_id row = tid \<and>
       key_option (pg_uuid_in U) (tr_IdempotencyKey tr) = Some (xr_idempotency_key row) \<and>
       xr_source_id row = tr_SourceID tr \<and> xr_destination_id row = tr_DestinationID tr \<and> xr_amount row = n \<and>
       stage i j a b (ws @ [WTransfer row]) c'"
    by (auto simp: scanID_def)
qed simp_all

lemma rg_InsertLedgerEntry:
  assumes n: "decimal_value D (le_Amount e) = numeric_value n"
    and m: "decimal_value D (le_BalanceAfter e) = numeric_value m"
  shows "srg A (stage i j a b ws) (TransferRepository_InsertLedgerEntry Tx e)
    (tx_post (\<lambda>_ c. \<exists>row. posting_of_row row = \<lparr>post_payment = le_TransferID e, post_account = le_AccountID e,
        post_direction = le_Direction e, post_amount = n, post_balance = m\<rparr> \<and>
       stage i j a b (ws @ [WLedgerEntry row]) c))"
proof (rule rg_stage_call [OF one_call_repository(6), where stmt = "SqlInsertLedgerEntry (le_TransferID e)
      (le_AccountID e) (direction_string (le_Direction e)) (le_Amount e) (le_BalanceAfter e)" and
      g = "\<lambda>r. case r of Inl err \<Rightarrow> Inl (Wrapf ''insert ledger entry'' err) | Inr _ \<Rightarrow> Inr ()"])
  let ?stmt = "SqlInsertLedgerEntry (le_TransferID e)
      (le_AccountID e) (direction_string (le_Direction e)) (le_Amount e) (le_BalanceAfter e)"
  show "stmt_ok ?stmt" by (cases "le_Direction e") simp_all
  fix c :: "'u conn" and rs w'
  assume st: "statement D U Tx ?stmt (cn_world c) = (rs, w')"
  show "run (session D U) (TransferRepository_InsertLedgerEntry Tx e) c =
      (case rs of Inl err \<Rightarrow> Inl (Wrapf ''insert ledger entry'' err) | Inr _ \<Rightarrow> Inr (),
       c\<lparr>cn_world := w', cn_locked := cn_locked c @ locked_rows ?stmt (view (cn_world c))\<rparr>)"
    unfolding TransferRepository_InsertLedgerEntry_def run_bind_prog call_answer(1) [OF st]
    by (cases rs) simp_all
next
  fix c' t now sq rows ws' sq' and u :: unit
  assume c': "stage i j a b (ws @ ws') c'"
    and step: "sql_step D U now t sq (SqlInsertLedgerEntry (le_TransferID e) (le_AccountID e)
      (direction_string (le_Direction e)) (le_Amount e) (le_BalanceAfter e)) = (Inr (rows, ws'), sq')"
  obtain row where "ws' = [WLedgerEntry row] \<and> lr_transfer_id row = le_TransferID e \<and> lr_account_id row = le_AccountID e \<and>
      lr_direction row = direction_string (le_Direction e) \<and> lr_amount row = n \<and> lr_balance_after row = m"
    using step n m by (auto simp: insert_ledger_entry_def numeric_in_value Let_def split: option.splits if_splits)
  then have "ws' = [WLedgerEntry row]" "posting_of_row row = \<lparr>post_payment = le_TransferID e,
      post_account = le_AccountID e, post_direction = le_Direction e, post_amount = n, post_balance = m\<rparr>"
    by (cases "le_Direction e"; simp add: posting_of_row_def)+
  with c' show "\<exists>row. posting_of_row row = \<lparr>post_payment = le_TransferID e, post_account = le_AccountID e,
        post_direction = le_Direction e, post_amount = n, post_balance = m\<rparr> \<and>
       stage i j a b (ws @ [WLedgerEntry row]) c'" by blast
qed simp_all

text \<open>The two reads before the first write.\<close>

lemma rg_LockForUpdate:
  "srg A (logged []) (AccountRepository_LockForUpdate Tx ids) (tx_post (\<lambda>m c. logged [] c \<and>
     (\<forall>i \<in> set ids. account_denotes D i (m i) (balance_of (settled_ledger (cn_world c)) i) \<and>
        (balance_of (settled_ledger (cn_world c)) i \<noteq> None \<longrightarrow> i \<in> set (cn_locked c)))))"
proof (rule rg_one_call [OF one_call_repository(2) stable_transaction(1)])
  fix c :: "'u conn" and r c'
  assume c: "logged [] c" and run: "run (session D U) (AccountRepository_LockForUpdate Tx ids) c = (r, c')"
  obtain rs w' where st: "statement D U Tx (SqlLockAccounts ids) (cn_world c) = (rs, w')" by fastforce
  let ?t = "committed (cn_world c)"
  have "run (session D U) (AccountRepository_LockForUpdate Tx ids) c =
      (case rs of Inl e \<Rightarrow> Inl (Wrapf ''lock accounts'' e) | Inr rows \<Rightarrow> collectAccounts rows Map.empty,
       c\<lparr>cn_world := w', cn_locked := cn_locked c @ locked_rows (SqlLockAccounts ids :: 'd sql) (view (cn_world c))\<rparr>)"
    unfolding AccountRepository_LockForUpdate_def run_bind_prog call_answer(2) [OF st]
    by (cases rs; cases "collectAccounts (projr rs) Map.empty") simp_all
  with run have c': "c' = c\<lparr>cn_world := w', cn_locked := cn_locked c @ locked_rows (SqlLockAccounts ids :: 'd sql) (view (cn_world c))\<rparr>"
    and r: "r = (case rs of Inl e \<Rightarrow> Inl (Wrapf ''lock accounts'' e) | Inr rows \<Rightarrow> collectAccounts rows Map.empty)"
    by (simp_all only: prod.inject)
  have m: "\<exists>rows. rs = Inr rows \<and> collectAccounts rows Map.empty = Inr m" if "r = Inr m" for m
    using r that by (cases rs) simp_all
  note after = logged_statement [where A = A, OF c _ st c', simplified]
  have "logged [] c' \<and> (\<forall>i \<in> set ids. account_denotes D i (m i) (balance_of (settled_ledger (cn_world c')) i) \<and>
        (balance_of (settled_ledger (cn_world c')) i \<noteq> None \<longrightarrow> i \<in> set (cn_locked c')))" if rm: "r = Inr m" for m
  proof -
    obtain rows where rows: "rs = Inr rows" "collectAccounts rows Map.empty = Inr m" using m [OF rm] by blast
    with after obtain sq where log: "logged [] c'" and ok: "tables_ok ?t sq"
      and r: "rows = map (account_cells D) (lock_rows ?t ids)" by auto
    have "step_result D U (SqlLockAccounts ids) (abs_ledger ?t) rows (abs_ledger ?t)"
      unfolding step_result_def using ok r by (metis apply_writes_Nil sql_step.simps(4))
    then have m: "\<forall>i \<in> set ids. account_denotes D i (m i) (balance_of (abs_ledger ?t) i)"
      using lock_accounts_step(1) [OF decimal] rows(2) by fastforce
    have same: "settled_ledger (cn_world c') = abs_ledger ?t" using after by (simp add: c' settled_ledger_def)
    have "i \<in> set (cn_locked c')" if "i \<in> set ids" "balance_of (abs_ledger ?t) i \<noteq> None" for i
    proof -
      have "i \<in> ar_id ` set (accounts ?t)" using that(2) has_account_iff [of ?t i] by (simp add: has_account_def)
      then show ?thesis using that(1) logged_view(1) [OF c] by (auto simp: c' locked_rows_def lock_rows_def)
    qed
    with m same log show ?thesis by simp
  qed
  with after show "guar A c c' \<and> tx_post (\<lambda>m c. logged [] c \<and>
     (\<forall>i \<in> set ids. account_denotes D i (m i) (balance_of (settled_ledger (cn_world c)) i) \<and>
        (balance_of (settled_ledger (cn_world c)) i \<noteq> None \<longrightarrow> i \<in> set (cn_locked c)))) r c'"
    by (cases r) simp_all
qed

definition key_paid :: "string \<Rightarrow> 'd Transfer \<Rightarrow> 'u ledger \<Rightarrow> bool" where
  "key_paid key tr L \<longleftrightarrow> (\<exists>k p. pg_uuid_in U key = Some k \<and> p \<in> set (payments L) \<and> pay_key p = Some k \<and>
     transfer_denotes D tr p)"

lemma key_paid_found:
  assumes "pg_uuid_in U key = Some k" and "rel_option (transfer_denotes D) (Some tr) (find_payment k L)"
  shows "key_paid key tr L"
  using assms find_payment_SomeD [of k L] by (auto simp: key_paid_def elim!: option.rel_cases)

lemma rg_Find:
  "srg A (logged []) (TransferRepository_FindByIdempotencyKey Tx key) (tx_post (\<lambda>found c. logged [] c \<and>
     (\<forall>tr. found = Some tr \<longrightarrow> key_paid key tr (settled_ledger (cn_world c)))))"
proof (rule rg_one_call [OF one_call_repository(4) stable_transaction(1)])
  fix c :: "'u conn" and r c'
  assume c: "logged [] c" and run: "run (session D U) (TransferRepository_FindByIdempotencyKey Tx key) c = (r, c')"
  obtain rs w' where st: "statement D U Tx (SqlFindTransfer key) (cn_world c) = (rs, w')" by fastforce
  let ?t = "committed (cn_world c)"
  let ?scan = "case rs of Inl e \<Rightarrow> Inl e | Inr [] \<Rightarrow> Inl ErrNoRows | Inr (row # rows) \<Rightarrow> scanTransfer row"
  have "run (session D U) (TransferRepository_FindByIdempotencyKey Tx key) c =
      (case ?scan of Inl err \<Rightarrow> if errors_Is err ErrNoRows then Inr None
         else Inl (Wrapf ''find transfer'' err) | Inr t \<Rightarrow> Inr (Some t),
       c\<lparr>cn_world := w', cn_locked := cn_locked c @ locked_rows (SqlFindTransfer key :: 'd sql) (view (cn_world c))\<rparr>)"
    unfolding TransferRepository_FindByIdempotencyKey_def run_bind_prog call_answer(3) [OF st]
    by (cases ?scan) simp_all
  with run have c': "c' = c\<lparr>cn_world := w', cn_locked := cn_locked c @ locked_rows (SqlFindTransfer key :: 'd sql) (view (cn_world c))\<rparr>"
    and r: "r = (case ?scan of Inl err \<Rightarrow> if errors_Is err ErrNoRows then Inr None
      else Inl (Wrapf ''find transfer'' err) | Inr t \<Rightarrow> Inr (Some t))"
    by (simp_all only: prod.inject)
  have pc: "pg_in_tx (cn_world c)" "tx_ledger (cn_world c) = abs_ledger ?t"
    using c by (auto simp: logged_def conn_ok_def pg_in_tx_def view_def tx_ledger_def)
  note after = logged_statement [where A = A, OF c _ st c', simplified]
  have "logged [] c' \<and> (\<forall>tr. found = Some tr \<longrightarrow> key_paid key tr (settled_ledger (cn_world c')))"
    if found: "r = Inr found" for found
  proof (cases rs)
    case (Inl e)
    then have "errors_Is e ErrNoRows = False" using st statement_error library_error_classes(2) by blast
    with Inl r found show ?thesis by simp
  next
    case (Inr rows)
    with after have log: "logged [] c'" by (auto simp: find_transfer_def split: option.splits)
    have same: "settled_ledger (cn_world c') = abs_ledger ?t" using after by (simp add: c' settled_ledger_def)
    have "step_result D U (SqlFindTransfer key) (abs_ledger ?t) rows (tx_ledger w')"
      using statement_step_result [OF pc(1) _ st [unfolded Inr]] pc(2) by simp
    note step = find_transfer_step(1) [OF decimal this]
    show ?thesis
    proof (cases rows)
      case Nil
      with r Inr found log show ?thesis by (simp split: if_splits)
    next
      case (Cons row rows')
      with step obtain k tr p where "pg_uuid_in U key = Some k" "scanTransfer row = Inr tr"
        "find_payment k (abs_ledger ?t) = Some p" "transfer_denotes D tr p" by auto
      then show ?thesis using r Inr Cons found log same by (auto intro: key_paid_found)
    qed
  qed
  with after show "guar A c c' \<and> tx_post (\<lambda>found c. logged [] c \<and>
     (\<forall>tr. found = Some tr \<longrightarrow> key_paid key tr (settled_ledger (cn_world c)))) r c'"
    by (cases r) simp_all
qed

text \<open>The read on the pool that resolves a lost race.\<close>

lemma rg_Find_pool:
  "srg A fresh (TransferRepository_FindByIdempotencyKey Pool key) (\<lambda>r c. fresh c \<and>
     (\<forall>tr. r = Inr (Some tr) \<longrightarrow> key_paid key tr (settled_ledger (cn_world c))))"
proof (rule rg_one_call [OF one_call_repository(4) stable_transaction(3)])
  fix c :: "'u conn" and r c'
  assume c: "fresh c" and run: "run (session D U) (TransferRepository_FindByIdempotencyKey Pool key) c = (r, c')"
  have ok: "tables_ok (committed (cn_world c)) (seqs (cn_world c))" using c by (simp add: fresh_def conn_ok_def)
  note pool = Find_pool_run [OF ok run_session_world [OF run]]
  have d: "cn_done c' = cn_done c"
    using run by (auto simp: TransferRepository_FindByIdempotencyKey_def QueryRowScan_def run_simps on_statement_def
        split: prod.splits sum.splits if_splits)
  have "guar A c c'" by (rule guar_frame) (use c pool d in \<open>simp_all add: fresh_def\<close>)
  moreover have "fresh c'" using c pool d by (simp add: fresh_def conn_ok_def)
  moreover have "key_paid key tr (settled_ledger (cn_world c'))" if "r = Inr (Some tr)" for tr
    using pool that key_paid_found unfolding settled_ledger_def by metis
  ultimately show "guar A c c' \<and> fresh c' \<and>
      (\<forall>tr. r = Inr (Some tr) \<longrightarrow> key_paid key tr (settled_ledger (cn_world c')))" by blast
qed

end

end
