(* ===== verification/Interleaved_Services.thy ===== *)
theory Interleaved_Services
  imports Interleaved_Stores
begin

text \<open>
  The services in a session among others. A transfer holds the rows of its two accounts from
  \<open>LockForUpdate\<close> to the end of its transaction, so its log posts one payment on the tables as they
  are at the commit (\<open>payment_log_posts\<close>). A key that another session has committed in the meantime
  makes the insertion fail, and the service reads the winner's payment. Per request: at most one
  transaction of it takes effect, and what it answers is in the committed ledger.
\<close>

subsection \<open>What a request may do and claim\<close>

definition transfer_post ::
    "'d decimal_ops \<Rightarrow> 'u uuid_ops \<Rightarrow> 'd TransferCmd \<Rightarrow> 'd Transfer \<Rightarrow> 'u effect list \<Rightarrow> 'u ledger \<Rightarrow> bool" where
  "transfer_post D U cmd t es L \<longleftrightarrow>
     (\<exists>key p. requested_key U cmd = Some key \<and> p \<in> set (payments L) \<and> transfer_denotes D t p \<and>
        pay_key p = key \<and> same_request p (cmd_SourceID cmd) (cmd_DestinationID cmd) (cmd_units D cmd) \<and>
        (es = [Paid p] \<or> es = [] \<and> key \<noteq> None))"

definition create_post :: "'d decimal_ops \<Rightarrow> int64 \<Rightarrow> 'd \<Rightarrow> unit \<Rightarrow> 'u effect list \<Rightarrow> 'u ledger \<Rightarrow> bool" where
  "create_post D i b u es L \<longleftrightarrow> es = [Opened i (units D b)] \<and> balance_of L i \<noteq> None"

definition get_post :: "int64 \<Rightarrow> 'd Account \<Rightarrow> 'u effect list \<Rightarrow> 'u ledger \<Rightarrow> bool" where
  "get_post i a es L \<longleftrightarrow> es = [] \<and> acc_ID a = i \<and> balance_of L i \<noteq> None"

lemma monotone_posts:
  "monotone_post (transfer_post D U cmd)" "monotone_post (create_post D i b)" "monotone_post (get_post i)"
proof -
  have "set (payments L) \<subseteq> set (payments L')" if "ledger_extends L L'" for L L' :: "'u ledger"
    using that by (auto simp: ledger_extends_def extends_iff)
  then show "monotone_post (transfer_post D U cmd)"
    unfolding monotone_post_def transfer_post_def by blast
  show "monotone_post (create_post D i b)" "monotone_post (get_post i)"
    unfolding monotone_post_def create_post_def get_post_def ledger_extends_def by blast+
qed

text \<open>The effects a request may have.\<close>

fun transfer_effect :: "'d decimal_ops \<Rightarrow> 'u uuid_ops \<Rightarrow> 'd TransferCmd \<Rightarrow> 'u effect \<Rightarrow> bool" where
  "transfer_effect D U cmd (Paid p) \<longleftrightarrow> requested_key U cmd = Some (pay_key p) \<and>
     same_request p (cmd_SourceID cmd) (cmd_DestinationID cmd) (cmd_units D cmd)"
| "transfer_effect D U cmd (Opened i n) \<longleftrightarrow> False"

fun create_effect :: "'d decimal_ops \<Rightarrow> int64 \<Rightarrow> 'd \<Rightarrow> 'u effect \<Rightarrow> bool" where
  "create_effect D i b (Opened j n) \<longleftrightarrow> j = i \<and> n = units D b"
| "create_effect D i b (Paid p) \<longleftrightarrow> False"

lemma effects_in_posts:
  "effects_in (transfer_effect D U cmd) (transfer_post D U cmd)"
  "effects_in (create_effect D i b) (create_post D i b)"
  by (auto simp: effects_in_def transfer_post_def create_post_def done_ok_def)

subsection \<open>The log of a transfer\<close>

definition payment_log ::
    "int64 \<Rightarrow> int64 \<Rightarrow> int \<Rightarrow> int \<Rightarrow> int \<Rightarrow> 'u payment \<Rightarrow> 'u db_write list \<Rightarrow> bool" where
  "payment_log src dst n a b p ws \<longleftrightarrow>
     pay_source p = src \<and> pay_destination p = dst \<and> pay_amount p = n \<and>
     (\<exists>now now' row e e'. ws = [WBalance src (a - n) now, WBalance dst (b + n) now', WTransfer row,
         WLedgerEntry e, WLedgerEntry e'] \<and> payment_of_row row = p \<and>
       posting_of_row e = \<lparr>post_payment = pay_id p, post_account = src, post_direction = DirectionDebit,
         post_amount = n, post_balance = a - n\<rparr> \<and>
       posting_of_row e' = \<lparr>post_payment = pay_id p, post_account = dst, post_direction = DirectionCredit,
         post_amount = n, post_balance = b + n\<rparr>)"

lemma payment_log_posts:
  assumes log: "payment_log src dst n a b p ws" and ok: "tables_ok (apply_writes ws t) sq"
    and bal: "balance_of (abs_ledger t) src = Some a" "balance_of (abs_ledger t) dst = Some b"
    and n: "n \<le> a" "0 < n" "src \<noteq> dst"
  shows "moves (effects_between t (apply_writes ws t)) (abs_ledger t) (abs_ledger (apply_writes ws t))"
    and "effects_between t (apply_writes ws t) = [Paid p]"
    and "p \<in> set (payments (abs_ledger (apply_writes ws t)))"
proof -
  obtain now now' row e e' where ws: "ws = [WBalance src (a - n) now, WBalance dst (b + n) now',
      WTransfer row, WLedgerEntry e, WLedgerEntry e']" and row: "payment_of_row row = p"
    and e: "posting_of_row e = \<lparr>post_payment = pay_id p, post_account = src, post_direction = DirectionDebit,
         post_amount = n, post_balance = a - n\<rparr>"
      "posting_of_row e' = \<lparr>post_payment = pay_id p, post_account = dst, post_direction = DirectionCredit,
         post_amount = n, post_balance = b + n\<rparr>"
    and p: "pay_source p = src" "pay_destination p = dst" "pay_amount p = n"
    using log unfolding payment_log_def by blast
  have has: "has_account t src" "has_account t dst"
    using bal by (auto simp: has_account_def)
  let ?t1 = "apply_write (WBalance src (a - n) now) t"
  have has1: "has_account ?t1 dst"
    using has_account_apply_writes [OF has(2), of "[WBalance src (a - n) now]"] by simp
  have "p = \<lparr>pay_id = pay_id p, pay_key = pay_key p, pay_source = src, pay_destination = dst, pay_amount = n\<rparr>"
    using p by simp
  then have L': "abs_ledger (apply_writes ws t) = post p a b (abs_ledger t)"
    using post_steps [OF n(3), of "pay_id p" n b a "pay_key p" "abs_ledger t"] has has1 row e
    by (simp add: ws abs_ledger_entry abs_ledger_transfer abs_ledger_balance del: apply_write.simps)
  have tr: "transfers (apply_writes ws t) = transfers t @ [row]"
    "map ar_id (accounts (apply_writes ws t)) = map ar_id (accounts t)"
    using apply_writes_rows [of ws t] by (simp_all add: ws)
  have "length (accounts (apply_writes ws t)) = length (accounts t)"
    using arg_cong [OF tr(2), of length] by simp
  then show es: "effects_between t (apply_writes ws t) = [Paid p]"
    by (simp add: effects_between_def tr(1) row)
  have "pay_id p \<notin> pay_id ` set (payments (abs_ledger t))"
  proof -
    have "xr_id row \<notin> xr_id ` set (transfers t)"
      using ok by (auto simp: tables_ok_def tr(1) serial_ids_append)
    then show ?thesis using row by (auto simp: payment_of_row_def)
  qed
  moreover have "find_payment k (abs_ledger t) = None" if "pay_key p = Some k" for k
  proof -
    have "Some k \<notin> set (stored_keys (transfers t))"
      using ok that row by (auto simp: tables_ok_def transfers_ok_snoc tr(1) payment_of_row_def)
    then show ?thesis by (simp add: find_payment_abs transfer_by_key_None_iff)
  qed
  ultimately have "payment_posted (pay_key p) src dst n p (abs_ledger t) (post p a b (abs_ledger t))"
    using bal n p by (auto simp: payment_posted_def)
  then show "moves (effects_between t (apply_writes ws t)) (abs_ledger t) (abs_ledger (apply_writes ws t))"
    by (simp add: es L' p)
  show "p \<in> set (payments (abs_ledger (apply_writes ws t)))" by (simp only: L' post_sel) simp
qed

context postgres
begin

lemma transferSvc_sel [simp]:
  "tsv_db (transferSvc D) = Pool" "tsv_tx (transferSvc D) = NewTxManager"
  "tsv_accounts (transferSvc D) = NewAccountRepository D" "tsv_transfers (transferSvc D) = NewTransferRepository"
  by (simp_all add: transferSvc_def NewTransferService_def)

subsection \<open>The transfer\<close>

definition transfer_ready :: "'d TransferCmd \<Rightarrow> 'd Transfer \<Rightarrow> 'u conn \<Rightarrow> bool" where
  "transfer_ready cmd t c \<longleftrightarrow>
     logged [] c \<and> transfer_post D U cmd t [] (settled_ledger (cn_world c)) \<or>
     (\<exists>a b p ws. stage (cmd_SourceID cmd) (cmd_DestinationID cmd) a b ws c \<and>
        payment_log (cmd_SourceID cmd) (cmd_DestinationID cmd) (cmd_units D cmd) a b p ws \<and>
        cmd_units D cmd \<le> a \<and> 0 < cmd_units D cmd \<and> cmd_SourceID cmd \<noteq> cmd_DestinationID cmd \<and>
        requested_key U cmd = Some (pay_key p) \<and> transfer_denotes D t p)"

lemma transfer_ready_ready: "transfer_ready cmd t c \<Longrightarrow> \<exists>ws. ready (transfer_post D U cmd) ws t c"
  unfolding transfer_ready_def
proof (elim disjE exE conjE)
  assume "logged [] c" "transfer_post D U cmd t [] (settled_ledger (cn_world c))"
  then show ?thesis
    by (intro exI [of _ "[]"]) (simp add: ready_def Let_def settled_ledger_def)
next
  fix a b p ws
  assume c: "stage (cmd_SourceID cmd) (cmd_DestinationID cmd) a b ws c"
    and log: "payment_log (cmd_SourceID cmd) (cmd_DestinationID cmd) (cmd_units D cmd) a b p ws"
    and n: "cmd_units D cmd \<le> a" "0 < cmd_units D cmd" "cmd_SourceID cmd \<noteq> cmd_DestinationID cmd"
    and t: "requested_key U cmd = Some (pay_key p)" "transfer_denotes D t p"
  have l: "logged ws c" and bal: "balance_of (abs_ledger (committed (cn_world c))) (cmd_SourceID cmd) = Some a"
    "balance_of (abs_ledger (committed (cn_world c))) (cmd_DestinationID cmd) = Some b"
    using c unfolding stage_def settled_ledger_def by blast+
  note posts = payment_log_posts [OF log logged_view(2) [OF l] bal n]
  have "same_request p (cmd_SourceID cmd) (cmd_DestinationID cmd) (cmd_units D cmd)"
    using log by (simp add: payment_log_def same_request_def)
  then have "ready (transfer_post D U cmd) ws t c"
    unfolding ready_def Let_def transfer_post_def using l posts t by blast
  then show ?thesis by blast
qed

lemma stable_transfer_ready: "stable rely (transfer_ready cmd t)"
  unfolding transfer_ready_def
proof (intro stable_disj stable_ex stable_conj stable_transaction stable_stage stable_const)
  show "stable rely (\<lambda>c. transfer_post D U cmd t [] (settled_ledger (cn_world c)))"
    using monotone_posts(1) [of D U cmd] rely_extends unfolding stable_def monotone_post_def by blast
qed

lemma posting_ready:
  assumes n: "decimal_value D (cmd_Amount cmd) = numeric_value (cmd_units D cmd)" "0 < cmd_units D cmd"
    and ne: "cmd_SourceID cmd \<noteq> cmd_DestinationID cmd" and le: "cmd_units D cmd \<le> a"
    and row: "xr_id row = tid"
      "key_option (pg_uuid_in U) (optionalKey (cmd_IdempotencyKey cmd)) = Some (xr_idempotency_key row)"
      "xr_source_id row = cmd_SourceID cmd" "xr_destination_id row = cmd_DestinationID cmd"
      "xr_amount row = cmd_units D cmd"
    and e: "posting_of_row e = \<lparr>post_payment = tid, post_account = cmd_SourceID cmd,
        post_direction = DirectionDebit, post_amount = cmd_units D cmd, post_balance = a - cmd_units D cmd\<rparr>"
      "posting_of_row e' = \<lparr>post_payment = tid, post_account = cmd_DestinationID cmd,
        post_direction = DirectionCredit, post_amount = cmd_units D cmd, post_balance = b + cmd_units D cmd\<rparr>"
    and c: "stage (cmd_SourceID cmd) (cmd_DestinationID cmd) a b
      [WBalance (cmd_SourceID cmd) (a - cmd_units D cmd) now,
       WBalance (cmd_DestinationID cmd) (b + cmd_units D cmd) now', WTransfer row, WLedgerEntry e, WLedgerEntry e'] c"
  shows "transfer_ready cmd \<lparr>tr_ID = tid, tr_IdempotencyKey = optionalKey (cmd_IdempotencyKey cmd),
      tr_SourceID = cmd_SourceID cmd, tr_DestinationID = cmd_DestinationID cmd,
      tr_Amount = cmd_Amount cmd, tr_Status = StatusCompleted, tr_CreatedAt = 0\<rparr> c"
proof -
  let ?p = "payment_of_row row"
  have p: "pay_id ?p = tid" "pay_key ?p = xr_idempotency_key row" "pay_source ?p = cmd_SourceID cmd"
    "pay_destination ?p = cmd_DestinationID cmd" "pay_amount ?p = cmd_units D cmd"
    using row by (simp_all add: payment_of_row_def)
  have "payment_log (cmd_SourceID cmd) (cmd_DestinationID cmd) (cmd_units D cmd) a b ?p
      [WBalance (cmd_SourceID cmd) (a - cmd_units D cmd) now,
       WBalance (cmd_DestinationID cmd) (b + cmd_units D cmd) now', WTransfer row, WLedgerEntry e, WLedgerEntry e']"
    unfolding payment_log_def p using e by blast
  moreover have "requested_key U cmd = Some (pay_key ?p)" using row(2) by (simp add: requested_key_def p)
  moreover have "transfer_denotes D \<lparr>tr_ID = tid, tr_IdempotencyKey = optionalKey (cmd_IdempotencyKey cmd),
      tr_SourceID = cmd_SourceID cmd, tr_DestinationID = cmd_DestinationID cmd,
      tr_Amount = cmd_Amount cmd, tr_Status = StatusCompleted, tr_CreatedAt = 0\<rparr> ?p"
    by (simp add: transfer_denotes_def p n)
  ultimately show ?thesis unfolding transfer_ready_def using c n(2) ne le by blast
qed

lemma rg_posting:
  assumes amt: "validateAmount D (cmd_Amount cmd) = None"
    and ne: "cmd_SourceID cmd \<noteq> cmd_DestinationID cmd"
    and a: "acc_ID sa = cmd_SourceID cmd"
      "decimal_value D (Sub D (acc_Balance sa) (cmd_Amount cmd)) = numeric_value (a - cmd_units D cmd)"
    and b: "acc_ID da = cmd_DestinationID cmd"
      "decimal_value D (Add D (acc_Balance da) (cmd_Amount cmd)) = numeric_value (b + cmd_units D cmd)"
    and le: "cmd_units D cmd \<le> a"
  shows "srg A (stage (cmd_SourceID cmd) (cmd_DestinationID cmd) a b [])
    (execute_posting D (transferSvc D) Tx cmd sa da) (tx_post (transfer_ready cmd))"
proof -
  let ?s = "cmd_SourceID cmd" and ?d = "cmd_DestinationID cmd" and ?n = "cmd_units D cmd"
  let ?stage = "stage ?s ?d a b"
  have n: "decimal_value D (cmd_Amount cmd) = numeric_value ?n" "0 < ?n"
    using validateAmount_units [OF amt] by simp_all
  note update = rg_UpdateBalance [where i = ?s and j = ?d and a = a and b = b]
  show ?thesis
    unfolding execute_posting_def transferSvc_sel NewRepository_sel Let_def a(1) b(1)
    apply (rule srg_then [OF update [OF a(2)]], simp)
    apply (rule rg_ex)
    apply (rule srg_then [OF update [OF b(2)]], simp)
    apply (rule rg_ex)
    apply (rule srg_then [OF rg_Insert [where n = ?n]], simp_all only: n Transfer.simps)
    apply (rule rg_ex)
    apply (intro rg_pure)
    apply (rule srg_then [OF rg_InsertLedgerEntry [where n = ?n and m = "a - ?n"]],
        simp_all only: n a LedgerEntry.simps)
    apply (rule rg_ex, rule rg_pure)
    apply (rule srg_then [OF rg_InsertLedgerEntry [where n = ?n and m = "b + ?n"]],
        simp_all only: n b LedgerEntry.simps)
    apply (rule rg_ex, rule rg_pure)
    apply (rule rg_Return, unfold tx_post_simps)
    apply (rule posting_ready [OF n ne le])
          apply (simp_all only: append.simps)
    done
qed

lemma rg_execute:
  assumes amt: "validateAmount D (cmd_Amount cmd) = None" and ne: "cmd_SourceID cmd \<noteq> cmd_DestinationID cmd"
  shows "srg A (logged []) (TransferService_execute D (transferSvc D) Tx cmd) (tx_post (transfer_ready cmd))"
  unfolding TransferService_execute_def transferSvc_sel NewRepository_sel
proof (rule srg_then [OF rg_LockForUpdate])
  let ?s = "cmd_SourceID cmd" and ?d = "cmd_DestinationID cmd"
  fix m
  let ?P = "\<lambda>c. logged [] c \<and> (\<forall>i \<in> set [?s, ?d].
      account_denotes D i (m i) (balance_of (settled_ledger (cn_world c)) i) \<and>
      (balance_of (settled_ledger (cn_world c)) i \<noteq> None \<longrightarrow> i \<in> set (cn_locked c)))"
  let ?p = "case m ?s of None \<Rightarrow> Return (Inl (AccountNotFound ?s))
     | Some source \<Rightarrow> (case m ?d of None \<Rightarrow> Return (Inl (AccountNotFound ?d))
       | Some dest \<Rightarrow> if LessThan D (acc_Balance source) (cmd_Amount cmd)
           then Return (Inl ErrInsufficientFunds) else execute_posting D (transferSvc D) Tx cmd source dest)"
  show "srg A ?P ?p (tx_post (transfer_ready cmd))"
    unfolding rg_def
  proof (intro allI impI)
    fix c :: "'u conn"
    assume c: "?P c"
    then have log: "logged [] c" by blast
    have "transfers.locked_accounts cmd (settled_ledger (cn_world c)) m"
      using c by (auto simp: transfers.locked_accounts_def)
    then show "safe (session D U) rely (guar A) (tx_post (transfer_ready cmd)) ?p c"
    proof (cases rule: transfers.locked_cases [OF _ amt, consumes 1, case_names no_source no_dest both])
      case (both a sa b da)
      show ?thesis
      proof (cases "a < cmd_units D cmd")
        case True
        with both log show ?thesis by (simp add: logged_opened)
      next
        case False
        have "stage ?s ?d a b [] c" using c both(1,3) by (auto simp: stage_def)
        with rgD [OF rg_posting [OF amt ne both(5,8,6,9)]] False
        have "safe (session D U) rely (guar A) (tx_post (transfer_ready cmd))
            (execute_posting D (transferSvc D) Tx cmd sa da) c" by simp
        with both False show ?thesis by simp
      qed
    qed (use log in \<open>simp_all add: logged_opened\<close>)
  qed
qed

lemma replay_ready:
  assumes "key_paid (cmd_IdempotencyKey cmd) t L" and "matchesCmd D t cmd"
    and "validateAmount D (cmd_Amount cmd) = None"
  shows "transfer_post D U cmd t [] L"
proof -
  obtain k p where k: "pg_uuid_in U (cmd_IdempotencyKey cmd) = Some k" and p: "p \<in> set (payments L)"
    "pay_key p = Some k" "transfer_denotes D t p"
    using assms(1) unfolding key_paid_def by blast
  have "cmd_IdempotencyKey cmd \<noteq> []" using k uuid by (auto simp: uuid_laws_def)
  then have "requested_key U cmd = Some (Some k)" using k by (simp add: requested_key_def key_option_def optionalKey_def)
  moreover have "same_request p (cmd_SourceID cmd) (cmd_DestinationID cmd) (cmd_units D cmd)"
    using transfers.matchesCmd_iff [OF p(3) assms(3)] assms(2) by blast
  ultimately show ?thesis unfolding transfer_post_def using p by blast
qed

lemma rg_body:
  assumes amt: "validateAmount D (cmd_Amount cmd) = None" and ne: "cmd_SourceID cmd \<noteq> cmd_DestinationID cmd"
  shows "srg A (logged []) (TransferService_body D (transferSvc D) cmd Tx) (tx_post (transfer_ready cmd))"
proof (cases "cmd_IdempotencyKey cmd = []")
  case True
  then show ?thesis using rg_execute [OF amt ne] by (simp add: TransferService_body_def)
next
  case False
  show ?thesis
    unfolding TransferService_body_def transferSvc_sel NewRepository_sel if_P [OF False]
  proof (rule srg_then [OF rg_Find])
    fix found
    let ?P = "\<lambda>c. logged [] c \<and>
      (\<forall>tr. found = Some tr \<longrightarrow> key_paid (cmd_IdempotencyKey cmd) tr (settled_ledger (cn_world c)))"
    show "srg A ?P (case found of None \<Rightarrow> TransferService_execute D (transferSvc D) Tx cmd
        | Some existing \<Rightarrow> if \<not> matchesCmd D existing cmd then Return (Inl ErrIdempotencyConflict)
            else Return (Inr existing)) (tx_post (transfer_ready cmd))"
    proof (cases found)
      case None
      then show ?thesis using rg_conseq [OF rg_execute [OF amt ne]] by auto
    next
      case (Some t)
      then show ?thesis
        by (auto simp: transfer_ready_def logged_opened intro!: rg_Return intro: replay_ready [OF _ _ amt])
    qed
  qed
qed

lemma transfer_function:
  assumes "validateAmount D (cmd_Amount cmd) = None" and "cmd_SourceID cmd \<noteq> cmd_DestinationID cmd"
  shows "rg_function D U (transfer_effect D U cmd) (transfer_post D U cmd)
    (TransferService_body D (transferSvc D) cmd)"
  unfolding rg_function_def
  using rg_body [OF assms] stable_transfer_ready transfer_ready_ready effects_in_posts(1) [of D U cmd]
  by (intro conjI exI [of _ "transfer_ready cmd"]) (auto simp: tx_post_def [abs_def])

text \<open>The answer of a request: no transaction is open, at most one took effect, an answer without an
  error shows what the committed ledger holds, and an error comes with an effect only when the
  acknowledgement of its commit was lost.\<close>

definition replied :: "('a \<Rightarrow> 'u effect list \<Rightarrow> 'u ledger \<Rightarrow> bool) \<Rightarrow> go_error + 'a \<Rightarrow> 'u conn \<Rightarrow> bool" where
  "replied Post r c \<longleftrightarrow> txn (cn_world c) = None \<and>
     (case r of
        Inr x \<Rightarrow> Post x (cn_done c) (settled_ledger (cn_world c))
      | Inl e \<Rightarrow> cn_done c = [] \<or> lost_ack e \<and> (\<exists>x. Post x (cn_done c) (settled_ledger (cn_world c))))"

lemma attempted_replied: "attempted Post r c \<Longrightarrow> replied Post r c"
  by (auto simp: attempted_def replied_def split: sum.splits)

lemma fresh_replied: "fresh c \<Longrightarrow> replied Post (Inl e) c"
  by (simp add: fresh_def replied_def)

lemma stable_replied: "monotone_post Post \<Longrightarrow> stable rely (replied Post r)"
proof (rule stableI)
  fix c c1
  assume mono: "monotone_post Post" and r: "replied Post r c" and R: "rely c c1"
  have "Post x (cn_done c1) (settled_ledger (cn_world c1))"
    if "Post x (cn_done c) (settled_ledger (cn_world c))" for x
    using that mono rely_extends [OF R] rely_frame(4) [OF R] unfolding monotone_post_def by metis
  with r rely_frame(2,4) [OF R] show "replied Post r c1"
    unfolding replied_def by (cases r) auto
qed

lemma rg_resolveDuplicate:
  assumes amt: "validateAmount D (cmd_Amount cmd) = None"
  shows "srg A fresh (TransferService_resolveDuplicate D (transferSvc D) cmd) (replied (transfer_post D U cmd))"
  unfolding TransferService_resolveDuplicate_def transferSvc_sel NewRepository_sel
proof (rule rg_andThen [OF rg_conseq [OF rg_Find_pool]])
  let ?P = "\<lambda>found c. fresh c \<and> (\<forall>tr. found = Some tr \<longrightarrow> key_paid (cmd_IdempotencyKey cmd) tr (settled_ledger (cn_world c)))"
  show "case r of Inl e \<Rightarrow> replied (transfer_post D U cmd) (Inl e) c | Inr x \<Rightarrow> ?P x c"
    if "fresh c \<and> (\<forall>tr. r = Inr (Some tr) \<longrightarrow> key_paid (cmd_IdempotencyKey cmd) tr (settled_ledger (cn_world c)))"
    for r c
    using that by (auto simp: fresh_replied split: sum.split)
  show "srg A (?P found) (case found of None \<Rightarrow> Return (Inl ErrDuplicateIdempotencyKey)
      | Some existing \<Rightarrow> if \<not> matchesCmd D existing cmd then Return (Inl ErrIdempotencyConflict)
          else Return (Inr existing)) (replied (transfer_post D U cmd))" for found
    by (cases found) (auto simp: fresh_replied replied_def fresh_def intro!: rg_Return intro: replay_ready [OF _ _ amt])
qed

lemma rg_Transfer:
  "srg (transfer_effect D U cmd) fresh (TransferService_Transfer D U (transferSvc D) cmd) (\<lambda>r c.
     (\<forall>t. r = Inr t \<longrightarrow> TransferService_validate D U cmd = None) \<and> replied (transfer_post D U cmd) r c)"
proof (cases "TransferService_validate D U cmd")
  case (Some err)
  then show ?thesis by (auto simp: TransferService_Transfer_def fresh_replied intro!: rg_Return)
next
  case None
  then have amt: "validateAmount D (cmd_Amount cmd) = None" and ne: "cmd_SourceID cmd \<noteq> cmd_DestinationID cmd"
    by (simp_all add: validate_None_iff)
  have tx: "tm_WithTx NewTxManager fn = withTxLoop maxTxRetries None fn"
    for fn :: "querier \<Rightarrow> ('d, go_error + 'd Transfer) prog"
    by (simp add: NewTxManager_def WithTx_def)
  note loop = rg_withTxLoop [OF transfer_function [OF amt ne] monotone_posts(1), of maxTxRetries None]
  have rest: "srg A (attempted (transfer_post D U cmd) r) (case r of
      Inl err \<Rightarrow> if errors_Is err ErrDuplicateIdempotencyKey
        then TransferService_resolveDuplicate D (transferSvc D) cmd else Return (Inl err)
    | Inr result \<Rightarrow> Return (Inr result)) (replied (transfer_post D U cmd))" for r A
  proof (cases "\<exists>e. r = Inl e \<and> errors_Is e ErrDuplicateIdempotencyKey")
    case True
    then obtain e where e: "r = Inl e" "errors_Is e ErrDuplicateIdempotencyKey" by blast
    have "srg A (attempted (transfer_post D U cmd) r) (TransferService_resolveDuplicate D (transferSvc D) cmd)
        (replied (transfer_post D U cmd))"
      by (rule rg_conseq [OF rg_resolveDuplicate [OF amt]])
        (use e in \<open>auto simp: attempted_def fresh_def dest: lost_ack_kind\<close>)
    with e show ?thesis by simp
  next
    case False
    then show ?thesis by (cases r) (auto intro!: rg_Return attempted_replied)
  qed
  show ?thesis
    using rg_bind [OF loop rest] None by (simp add: TransferService_Transfer_def tx)
qed

subsection \<open>Opening an account\<close>

lemma rg_logged_exec:
  assumes ok: "stmt_ok stmt" and P: "stable rely P" "\<And>c. P c \<Longrightarrow> logged ws c"
    and works: "\<And>c c' now sq rows ws' sq'. \<lbrakk>P c; logged (ws @ ws') c';
      settled_ledger (cn_world c') = settled_ledger (cn_world c);
      sql_step D U now (apply_writes ws (committed (cn_world c))) sq stmt = (Inr (rows, ws'), sq')\<rbrakk> \<Longrightarrow> F c'"
  shows "srg A P (Exec Tx stmt) (tx_post (\<lambda>_. F))"
proof (rule rg_one_call [OF _ P(1)])
  fix c r c'
  assume c: "P c" and run: "run (session D U) (Exec Tx stmt) c = (r, c')"
  obtain rs w' where st: "statement D U Tx stmt (cn_world c) = (rs, w')" by fastforce
  have c': "c' = c\<lparr>cn_world := w', cn_locked := cn_locked c @ locked_rows stmt (view (cn_world c))\<rparr>"
    and r: "r = map_sum id (\<lambda>_. ()) rs"
    using run unfolding call_answer(1) [OF st] by (simp_all only: prod.inject)
  note after = logged_statement [where A = A, OF P(2) [OF c] ok st c']
  show "guar A c c' \<and> tx_post (\<lambda>_. F) r c'"
  proof (cases rs)
    case (Inl e)
    with after r show ?thesis by simp
  next
    case (Inr rows)
    with after obtain ws' now sq sq' where "logged (ws @ ws') c'"
      "sql_step D U now (apply_writes ws (committed w')) sq stmt = (Inr (rows, ws'), sq')" by blast
    moreover have "settled_ledger (cn_world c') = settled_ledger (cn_world c)" "committed w' = committed (cn_world c)"
      using after by (simp_all add: c' settled_ledger_def)
    ultimately have "F c'" using works [OF c] by simp
    with after Inr r show ?thesis by simp
  qed
qed simp

definition opens :: "int64 \<Rightarrow> int \<Rightarrow> 'u db_write list \<Rightarrow> 'u conn \<Rightarrow> bool" where
  "opens i n ws c \<longleftrightarrow> logged ws c \<and> balance_of (settled_ledger (cn_world c)) i = None \<and> 0 \<le> n \<and>
     (\<exists>r ds. ws = WAccount r # map WDeposit ds \<and> ar_id r = i \<and> ar_balance r = n \<and>
        map (\<lambda>d. (dr_account_id d, dr_amount d)) ds = (if ds = [] then [] else [(i, n)]))"

lemma stable_opens: "stable rely (opens i n ws)"
proof (rule stableI)
  fix c c1
  assume c: "opens i n ws c" and R: "rely c c1"
  then have log: "logged ws c" by (simp add: opens_def)
  have "AccountClaim i \<in> set (log_claims ws)" using c by (auto simp: opens_def)
  then have "AccountClaim i \<in> set (conn_claims c)" using logged_view(3) [OF log] by blast
  then show "opens i n ws c1"
    using c stableD [OF stable_transaction(1) log R] rely_balance [OF R] by (simp add: opens_def)
qed

text \<open>The account and, for a positive balance, its deposit.\<close>

definition create_ready :: "int64 \<Rightarrow> int \<Rightarrow> unit \<Rightarrow> 'u conn \<Rightarrow> bool" where
  "create_ready i n u c \<longleftrightarrow> (\<exists>ws. opens i n ws c \<and> (length ws = 2 \<longleftrightarrow> 0 < n))"

lemma create_ready_ready:
  assumes c: "create_ready i n u c" and n: "n = units D b"
  shows "\<exists>ws. ready (create_post D i b) ws u c"
proof -
  from c obtain ws where ws: "opens i n ws c" "length ws = 2 \<longleftrightarrow> 0 < n" unfolding create_ready_def by blast
  then obtain r ds where log: "ws = WAccount r # map WDeposit ds" "ar_id r = i" "ar_balance r = n"
    and ds: "map (\<lambda>d. (dr_account_id d, dr_amount d)) ds = (if ds = [] then [] else [(i, n)])"
    unfolding opens_def by blast
  have "length ds = (if ds = [] then 0 else 1)" using arg_cong [OF ds, of length] by (simp split: if_splits)
  then have two: "length ws = 2 \<longleftrightarrow> ds \<noteq> []" using log(1) by auto
  let ?t = "committed (cn_world c)"
  have nb: "0 \<le> n" "balance_of (abs_ledger ?t) i = None"
    using ws(1) by (simp_all add: opens_def settled_ledger_def)
  have rows: "accounts (apply_writes ws ?t) = accounts ?t @ [r]" "transfers (apply_writes ws ?t) = transfers ?t"
  proof -
    have "accounts (apply_writes (map WDeposit ds) t) = accounts t" for t :: "'u tables"
      by (induction ds arbitrary: t) simp_all
    then show "accounts (apply_writes ws ?t) = accounts ?t @ [r]" by (simp add: log)
    have "new_transfers (map WDeposit ds) = ([] :: 'u transfer_row list)" by (induction ds) simp_all
    then show "transfers (apply_writes ws ?t) = transfers ?t" by (simp add: apply_writes_rows log)
  qed
  then have es: "effects_between ?t (apply_writes ws ?t) = [Opened i n]"
    by (simp add: effects_between_def log)
  have L: "abs_ledger (apply_writes ws ?t) = open_account i n (abs_ledger ?t)"
  proof -
    have new: "\<not> has_account ?t (ar_id r)" using nb log(2) by (simp add: has_account_def)
    have fund: "abs_ledger (apply_writes (map WDeposit ds) t) = abs_ledger t\<lparr>funding := funding (abs_ledger t) @
        map (\<lambda>d. (dr_account_id d, dr_amount d)) ds\<rparr>" for t :: "'u tables"
      by (induction ds arbitrary: t) (simp_all add: abs_ledger_deposit del: apply_write.simps)
    show ?thesis
      using two ws(2) fund [of "apply_write (WAccount r) ?t"] ds
      by (simp add: log abs_ledger_account [OF new] open_account_def put_balance_def del: apply_write.simps
          split: if_splits)
  qed
  have "logged ws c" using ws(1) by (simp add: opens_def)
  then show ?thesis
    using nb es L n unfolding ready_def Let_def create_post_def
    by (intro exI [of _ ws]) (simp add: open_account_def)
qed

lemma rg_insert_account:
  assumes b: "decimal_value D b = numeric_value n" "0 \<le> n"
  shows "srg A (logged []) (Exec Tx (SqlInsertAccount i b)) (tx_post (\<lambda>_ c. \<exists>r. opens i n [WAccount r] c))"
proof (rule rg_logged_exec [OF _ stable_transaction(1)])
  fix c c' :: "'u conn" and now sq rows ws' sq'
  assume c': "logged ([] @ ws') c'" "settled_ledger (cn_world c') = settled_ledger (cn_world c)"
    and step: "sql_step D U now (apply_writes [] (committed (cn_world c))) sq (SqlInsertAccount i b) =
      (Inr (rows, ws'), sq')"
  from step b obtain r where "ws' = [WAccount r]" "ar_id r = i" "ar_balance r = n"
    "balance_of (settled_ledger (cn_world c)) i = None"
    by (auto simp: insert_account_def numeric_in_value has_account_def settled_ledger_def
        split: option.splits if_splits)
  with c' b show "\<exists>r. opens i n [WAccount r] c'"
    by (intro exI [of _ r]) (auto simp: opens_def)
qed simp_all

lemma rg_insert_deposit:
  assumes b: "decimal_value D b = numeric_value n"
  shows "srg A (opens i n [WAccount r]) (Exec Tx (SqlInsertDeposit i b))
    (tx_post (\<lambda>_ c. \<exists>d. opens i n [WAccount r, WDeposit d] c))"
proof (rule rg_logged_exec [OF _ stable_opens])
  fix c c' :: "'u conn" and now sq rows ws' sq'
  assume c: "opens i n [WAccount r] c" and c': "logged ([WAccount r] @ ws') c'"
      "settled_ledger (cn_world c') = settled_ledger (cn_world c)"
    and step: "sql_step D U now (apply_writes [WAccount r] (committed (cn_world c))) sq (SqlInsertDeposit i b) =
      (Inr (rows, ws'), sq')"
  from step b obtain d where d: "ws' = [WDeposit d]" "dr_account_id d = i" "dr_amount d = n"
    by (auto simp: insert_deposit_def numeric_in_value Let_def split: option.splits if_splits)
  with c c' show "\<exists>d. opens i n [WAccount r, WDeposit d] c'"
    by (intro exI [of _ d]) (auto simp: opens_def intro!: exI [of _ "[d]"])
qed (simp_all add: opens_def)

text \<open>With and without a deposit.\<close>

lemma create_ready_funded:
  "0 < n \<Longrightarrow> srg A (\<lambda>c. \<exists>d. opens i n [WAccount r, WDeposit d] c) (Return (Inr ())) (tx_post (create_ready i n))"
proof (rule rg_Return, unfold tx_post_simps create_ready_def)
  fix c :: "'u conn"
  assume "0 < n" and "\<exists>d. opens i n [WAccount r, WDeposit d] c"
  then obtain d where "opens i n [WAccount r, WDeposit d] c" by blast
  with \<open>0 < n\<close> show "\<exists>ws. opens i n ws c \<and> (length ws = 2 \<longleftrightarrow> 0 < n)"
    by (intro exI [of _ "[WAccount r, WDeposit d]"]) simp
qed

lemma create_ready_unfunded:
  "\<not> 0 < n \<Longrightarrow> srg A (\<lambda>c. \<exists>r. opens i n [WAccount r] c) (Return (Inr ())) (tx_post (create_ready i n))"
proof (rule rg_Return, unfold tx_post_simps create_ready_def)
  fix c :: "'u conn"
  assume "\<not> 0 < n" and "\<exists>r. opens i n [WAccount r] c"
  then obtain r where "opens i n [WAccount r] c" by blast
  with \<open>\<not> 0 < n\<close> show "\<exists>ws. opens i n ws c \<and> (length ws = 2 \<longleftrightarrow> 0 < n)"
    by (intro exI [of _ "[WAccount r]"]) simp
qed

lemma rg_deposit:
  assumes b: "decimal_value D b = numeric_value n" and n: "0 < n"
  shows "srg A (\<lambda>c. \<exists>r. opens i n [WAccount r] c) (bind_prog (Exec Tx (SqlInsertDeposit i b)) (\<lambda>r. case r of
      Inl err \<Rightarrow> Return (Inl (Wrapf ''insert deposit'' err)) | Inr _ \<Rightarrow> Return (Inr ()))) (tx_post (create_ready i n))"
proof (rule rg_ex, rule rg_bind [OF rg_insert_deposit [OF b]])
  fix x and r :: "go_error + unit"
  show "srg A (tx_post (\<lambda>_ c. \<exists>d. opens i n [WAccount x, WDeposit d] c) r) (case r of
      Inl err \<Rightarrow> Return (Inl (Wrapf ''insert deposit'' err)) | Inr _ \<Rightarrow> Return (Inr ())) (tx_post (create_ready i n))"
  proof (cases r)
    case (Inl e)
    then show ?thesis by (auto intro!: rg_Return)
  next
    case (Inr u)
    with create_ready_funded [OF n, of A i x] show ?thesis by simp
  qed
qed

lemma rg_create:
  assumes b: "decimal_value D b = numeric_value n" "0 \<le> n"
  shows "srg A (logged []) (AccountRepository_Create D Tx i b) (tx_post (create_ready i n))"
  unfolding AccountRepository_Create_def
proof (rule rg_bind [OF rg_insert_account [OF b]])
  have sign: "0 < Sign D b \<longleftrightarrow> 0 < n" using b by (simp add: Sign_gt_iff)
  fix r
  show "srg A (tx_post (\<lambda>_ c. \<exists>r. opens i n [WAccount r] c) r) (case r of Inl err \<Rightarrow>
       if isUniqueViolation err ''accounts_pkey'' then Return (Inl ErrAccountAlreadyExists)
       else Return (Inl (Wrapf ''insert account'' err))
     | Inr _ \<Rightarrow> if 0 < Sign D b then bind_prog (Exec Tx (SqlInsertDeposit i b)) (\<lambda>r. case r of
           Inl err \<Rightarrow> Return (Inl (Wrapf ''insert deposit'' err)) | Inr _ \<Rightarrow> Return (Inr ()))
         else Return (Inr ())) (tx_post (create_ready i n))"
  proof (cases r)
    case (Inl e)
    then show ?thesis by (auto intro!: rg_Return)
  next
    case (Inr u)
    then show ?thesis using sign rg_deposit [OF b(1)] create_ready_unfunded by simp
  qed
qed

lemma rg_Create:
  "srg (create_effect D i b) fresh (AccountService_Create D (accountSvc D) i b) (\<lambda>r c.
     (r = Inr () \<longrightarrow> 0 < sint i \<and> validateInitialBalance D b = None) \<and> replied (create_post D i b) r c)"
proof (cases "validateAccountID i = None \<and> validateInitialBalance D b = None")
  case False
  then show ?thesis
    by (auto simp: AccountService_Create_def fresh_replied split: option.split intro!: rg_Return)
next
  case True
  note n = validateInitialBalance_units [of b] True
  have "rg_function D U (create_effect D i b) (create_post D i b) (\<lambda>q. AccountRepository_Create D q i b)"
    unfolding rg_function_def
  proof (rule conjI [OF effects_in_posts(2)], rule exI [of _ "create_ready i (units D b)"], intro conjI allI impI)
    show "srg (create_effect D i b) (logged []) (AccountRepository_Create D Tx i b)
        (\<lambda>r c. case r of Inl e \<Rightarrow> opened c | Inr x \<Rightarrow> create_ready i (units D b) x c)"
      using rg_create [of b "units D b" _ i] n by (simp add: tx_post_def [abs_def])
    show "stable rely (create_ready i (units D b) x)" for x
      unfolding create_ready_def [abs_def] by (intro stable_ex stable_conj stable_opens stable_const)
    show "\<exists>ws. ready (create_post D i b) ws x c" if "create_ready i (units D b) x c"
      for x and c :: "'u conn"
      using create_ready_ready [OF that refl] .
  qed
  from rg_withTxLoop [OF this monotone_posts(2), of maxTxRetries None] True show ?thesis
    by (auto simp: AccountService_Create_def accountSvc_def NewAccountService_def NewTxManager_def WithTx_def
        validateAccountID_def intro: rg_conseq attempted_replied split: if_splits)
qed

lemma rg_Get:
  "srg A fresh (AccountService_Get (accountSvc D) i) (replied (get_post i))"
proof (cases "validateAccountID i")
  case (Some err)
  then show ?thesis by (auto simp: AccountService_Get_def fresh_replied intro!: rg_Return)
next
  case None
  have "srg A fresh (AccountRepository_Get Pool i) (replied (get_post i))"
  proof (rule rg_one_call [OF one_call_repository(3) stable_transaction(3)])
    fix c :: "'u conn" and r c'
    assume c: "fresh c" and run: "run (session D U) (AccountRepository_Get Pool i) c = (r, c')"
    have ok: "tables_ok (committed (cn_world c)) (seqs (cn_world c))" using c by (simp add: fresh_def conn_ok_def)
    note pool = Get_pool_run [OF ok run_session_world [OF run]]
    have d: "cn_done c' = cn_done c"
      using run by (auto simp: AccountRepository_Get_def QueryRowScan_def run_simps on_statement_def
          split: prod.splits sum.splits if_splits)
    have "guar A c c'" by (rule guar_frame) (use c pool d in \<open>simp_all add: fresh_def\<close>)
    moreover have "replied (get_post i) r c'"
      using c pool d by (cases r) (auto simp: replied_def get_post_def fresh_def settled_ledger_def account_denotes_Some)
    ultimately show "guar A c c' \<and> replied (get_post i) r c'" by blast
  qed
  with None show ?thesis by (simp add: AccountService_Get_def accountSvc_def NewAccountService_def)
qed

end

end
