(* ===== verification/Concurrent_System.thy ===== *)
theory Concurrent_System
  imports Interleaved_Services
begin

text \<open>
  Any number of requests at once. Each is served by a client that makes one interaction with the
  database at a time, in a session of its own; a schedule is the order in which requests arrive and
  clients interact, with the clock and the failure that each interaction meets. An interaction that
  needs a claim of another open transaction is not in a schedule before that transaction has ended:
  its client waits. The statements run at the isolation level of the code's transactions, \<open>READ
  COMMITTED\<close>: each sees what is committed when it runs, with its own transaction's writes on top.
\<close>

subsection \<open>Requests\<close>

datatype 'd request = TransferRequest "'d TransferCmd" | CreateRequest int64 'd | GetRequest int64

datatype 'd reply =
    TransferReply "go_error + 'd Transfer"
  | CreateReply "go_error + unit"
  | GetReply "go_error + 'd Account"

fun serve_request :: "'d decimal_ops \<Rightarrow> 'u uuid_ops \<Rightarrow> 'd request \<Rightarrow> ('d, 'd reply) prog" where
  "serve_request D U (TransferRequest cmd) =
     bind_prog (TransferService_Transfer D U (transferSvc D) cmd) (\<lambda>r. Return (TransferReply r))"
| "serve_request D U (CreateRequest i b) =
     bind_prog (AccountService_Create D (accountSvc D) i b) (\<lambda>r. Return (CreateReply r))"
| "serve_request D U (GetRequest i) = bind_prog (AccountService_Get (accountSvc D) i) (\<lambda>r. Return (GetReply r))"

fun request_effect :: "'d decimal_ops \<Rightarrow> 'u uuid_ops \<Rightarrow> 'd request \<Rightarrow> 'u effect \<Rightarrow> bool" where
  "request_effect D U (TransferRequest cmd) e = transfer_effect D U cmd e"
| "request_effect D U (CreateRequest i b) e = create_effect D i b e"
| "request_effect D U (GetRequest i) e = False"

text \<open>What a reply to a request says of the effects it had and the committed ledger: a success shows what
  the ledger holds; an error means that nothing was done, unless the commit itself failed.\<close>

fun reply_ok :: "'d decimal_ops \<Rightarrow> 'u uuid_ops \<Rightarrow> 'd request \<Rightarrow> 'd reply \<Rightarrow> 'u effect list \<Rightarrow> 'u ledger \<Rightarrow> bool" where
  "reply_ok D U (TransferRequest cmd) (TransferReply (Inr t)) es L \<longleftrightarrow>
     TransferService_validate D U cmd = None \<and> transfer_post D U cmd t es L"
| "reply_ok D U (CreateRequest i b) (CreateReply (Inr u)) es L \<longleftrightarrow>
     0 < sint i \<and> validateInitialBalance D b = None \<and> create_post D i b u es L"
| "reply_ok D U (GetRequest i) (GetReply (Inr a)) es L \<longleftrightarrow> get_post i a es L"
| "reply_ok D U (TransferRequest cmd) (TransferReply (Inl e)) es L \<longleftrightarrow> es = [] \<or> lost_ack e"
| "reply_ok D U (CreateRequest i b) (CreateReply (Inl e)) es L \<longleftrightarrow> es = [] \<or> lost_ack e"
| "reply_ok D U (GetRequest i) (GetReply (Inl e)) es L \<longleftrightarrow> es = []"
| "reply_ok D U _ _ es L \<longleftrightarrow> False"

subsection \<open>Schedules\<close>

record ('d, 'u) client =
  cl_request :: "'d request"
  cl_prog :: "('d, 'd reply) prog"
  cl_txn :: "'u txn option"
  cl_locked :: "int64 list"
  cl_done :: "'u effect list"

record ('d, 'u) system =
  sy_tables :: "'u tables"
  sy_seqs :: sequences
  sy_clients :: "('d, 'u) client list"

text \<open>The session of a client: the shared tables and sequences with its own transaction.\<close>

definition conn_of :: "('d, 'u) system \<Rightarrow> ('d, 'u) client \<Rightarrow> timestamp \<Rightarrow> fault list \<Rightarrow> 'u conn" where
  "conn_of sy cl now faults =
     \<lparr>cn_world = \<lparr>committed = sy_tables sy, seqs = sy_seqs sy, txn = cl_txn cl, clock = now, script = faults\<rparr>,
      cn_locked = cl_locked cl, cn_done = cl_done cl\<rparr>"

definition client_claims :: "('d, 'u) client \<Rightarrow> 'u claim list" where
  "client_claims cl = txn_claims (cl_locked cl) (cl_txn cl)"

definition conflicts :: "'u claim list \<Rightarrow> 'u claim list \<Rightarrow> bool" where
  "conflicts xs ys \<longleftrightarrow> list_ex (\<lambda>x. x \<in> set ys) xs"

definition blocked :: "nat \<Rightarrow> 'u claim list \<Rightarrow> ('d, 'u) client list \<Rightarrow> bool" where
  "blocked s claims cls \<longleftrightarrow>
     list_ex (\<lambda>i. i \<noteq> s \<and> conflicts claims (client_claims (cls ! i))) [0..<length cls]"

datatype 'd event = Arrives "'d request" | Interacts nat timestamp fault

definition start_client :: "'d decimal_ops \<Rightarrow> 'u uuid_ops \<Rightarrow> 'd request \<Rightarrow> ('d, 'u) client" where
  "start_client D U req =
     \<lparr>cl_request = req, cl_prog = serve_request D U req, cl_txn = None, cl_locked = [], cl_done = []\<rparr>"

lemma start_client_sel [simp]:
  "cl_request (start_client D U req) = req" "cl_prog (start_client D U req) = serve_request D U req"
  "cl_txn (start_client D U req) = None" "cl_locked (start_client D U req) = []"
  "cl_done (start_client D U req) = []" "client_claims (start_client D U req) = []"
  by (simp_all add: start_client_def client_claims_def txn_claims_def)

text \<open>The client after an interaction that leaves the program \<open>p\<close> and the session \<open>c\<close>.\<close>

definition client_after :: "('d, 'u) client \<Rightarrow> ('d, 'd reply) prog \<Rightarrow> 'u conn \<Rightarrow> ('d, 'u) client" where
  "client_after cl p c =
     cl\<lparr>cl_prog := p, cl_txn := txn (cn_world c), cl_locked := cn_locked c, cl_done := cn_done c\<rparr>"

definition system_after :: "nat \<Rightarrow> ('d, 'd reply) prog \<Rightarrow> 'u conn \<Rightarrow> ('d, 'u) system \<Rightarrow> ('d, 'u) system" where
  "system_after s p c sy =
     \<lparr>sy_tables = committed (cn_world c), sy_seqs = seqs (cn_world c),
      sy_clients = (sy_clients sy)[s := client_after (sy_clients sy ! s) p c]\<rparr>"

text \<open>\<open>None\<close>: the event cannot happen now. The client has its reply already, or it waits.\<close>

fun event_step ::
    "'d decimal_ops \<Rightarrow> 'u uuid_ops \<Rightarrow> 'd event \<Rightarrow> ('d, 'u) system \<Rightarrow> ('d, 'u) system option" where
  "event_step D U (Arrives req) sy = Some (sy\<lparr>sy_clients := sy_clients sy @ [start_client D U req]\<rparr>)"
| "event_step D U (Interacts s now f) sy =
     (if s < length (sy_clients sy) \<and> \<not> returned (cl_prog (sy_clients sy ! s))
      then (case prog_step (session D U) (cl_prog (sy_clients sy ! s))
              (conn_of sy (sy_clients sy ! s) now [f]) of
              (p, c) \<Rightarrow> if blocked s (conn_claims c) (sy_clients sy) then None
                       else Some (system_after s p c sy))
      else None)"

fun schedule ::
    "'d decimal_ops \<Rightarrow> 'u uuid_ops \<Rightarrow> 'd event list \<Rightarrow> ('d, 'u) system \<Rightarrow> ('d, 'u) system option" where
  "schedule D U [] sy = Some sy"
| "schedule D U (e # es) sy = (case event_step D U e sy of None \<Rightarrow> None | Some sy' \<Rightarrow> schedule D U es sy')"

definition quiet_system :: "'u tables \<Rightarrow> sequences \<Rightarrow> ('d, 'u) system" where
  "quiet_system t sq = \<lparr>sy_tables = t, sy_seqs = sq, sy_clients = []\<rparr>"

subsection \<open>Serial executions\<close>

text \<open>The effects, one after another, as the specification has them. \<open>None\<close>: it refuses one of them.\<close>

fun spec_effect :: "'k effect \<Rightarrow> 'k ledger \<Rightarrow> 'k ledger option" where
  "spec_effect (Paid p) L =
     (case transfer_spec (pay_id p) (pay_key p) (pay_source p) (pay_destination p) (pay_amount p) L of
        (out, L') \<Rightarrow> if out = Posted p then Some L' else None)"
| "spec_effect (Opened i n) L = (case open_spec i n L of (out, L') \<Rightarrow> if out = Inr () then Some L' else None)"

fun serially :: "'k effect list \<Rightarrow> 'k ledger \<Rightarrow> 'k ledger option" where
  "serially [] L = Some L"
| "serially (e # es) L = Option.bind (spec_effect e L) (serially es)"

lemma effect_step_spec: "effect_step e L L' \<Longrightarrow> spec_effect e L = Some L'"
proof (cases e)
  case (Paid p)
  assume "effect_step e L L'"
  with Paid have p: "payment_posted (pay_key p) (pay_source p) (pay_destination p) (pay_amount p) p L L'" by simp
  then have "Option.bind (pay_key p) (\<lambda>k. find_payment k L) = None"
    by (auto simp: payment_posted_def bind_eq_None_conv)
  with p show ?thesis
    by (cases p) (auto simp: Paid payment_posted_def transfer_spec_def pay_new_def Let_def)
qed (auto simp: open_spec_def)

lemma moves_serially: "moves es L L' \<Longrightarrow> serially es L = Some L'"
  by (induction es arbitrary: L) (auto dest: effect_step_spec)

subsection \<open>The invariant\<close>

lemma conn_of_sel [simp]:
  "committed (cn_world (conn_of sy cl now fs)) = sy_tables sy" "seqs (cn_world (conn_of sy cl now fs)) = sy_seqs sy"
  "txn (cn_world (conn_of sy cl now fs)) = cl_txn cl" "cn_locked (conn_of sy cl now fs) = cl_locked cl"
  "cn_done (conn_of sy cl now fs) = cl_done cl" "settled_ledger (cn_world (conn_of sy cl now fs)) = abs_ledger (sy_tables sy)"
  "conn_claims (conn_of sy cl now fs) = client_claims cl"
  by (simp_all add: conn_of_def settled_ledger_def conn_claims_def client_claims_def)

lemma client_after_sel [simp]:
  "cl_request (client_after cl p c) = cl_request cl" "cl_prog (client_after cl p c) = p"
  "cl_txn (client_after cl p c) = txn (cn_world c)" "cl_locked (client_after cl p c) = cn_locked c"
  "cl_done (client_after cl p c) = cn_done c" "client_claims (client_after cl p c) = conn_claims c"
  by (simp_all add: client_after_def conn_claims_def client_claims_def)

lemma blocked_iff: "blocked s claims cls \<longleftrightarrow>
    (\<exists>i < length cls. i \<noteq> s \<and> set claims \<inter> set (client_claims (cls ! i)) \<noteq> {})"
  by (auto simp: blocked_def conflicts_def list_ex_iff)

text \<open>\<open>hist\<close> records which client had which effect, in the order of the commits.\<close>

definition effects_of :: "nat \<Rightarrow> (nat \<times> 'k effect) list \<Rightarrow> 'k effect list" where
  "effects_of i hist = map snd (filter (\<lambda>h. fst h = i) hist)"

lemma effects_of_simps [simp]:
  "effects_of i [] = []" "effects_of i (hist @ hist') = effects_of i hist @ effects_of i hist'"
  "effects_of i (map (Pair s) es) = (if i = s then es else [])"
  by (auto simp: effects_of_def filter_map comp_def)

definition replies_ok :: "'d decimal_ops \<Rightarrow> 'u uuid_ops \<Rightarrow> 'd request \<Rightarrow> 'd reply \<Rightarrow> 'u conn \<Rightarrow> bool" where
  "replies_ok D U req r c \<longleftrightarrow>
     txn (cn_world c) = None \<and> reply_ok D U req r (cn_done c) (settled_ledger (cn_world c))"

definition client_ok :: "'d decimal_ops \<Rightarrow> 'u uuid_ops \<Rightarrow> ('d, 'u) system \<Rightarrow> ('d, 'u) client \<Rightarrow> bool" where
  "client_ok D U sy cl \<longleftrightarrow>
     safe (session D U) rely (guar (request_effect D U (cl_request cl))) (replies_ok D U (cl_request cl))
       (cl_prog cl) (conn_of sy cl 0 []) \<and>
     done_ok (request_effect D U (cl_request cl)) (cl_done cl)"

definition system_ok ::
    "'d decimal_ops \<Rightarrow> 'u uuid_ops \<Rightarrow> 'u ledger \<Rightarrow> (nat \<times> 'u effect) list \<Rightarrow> ('d, 'u) system \<Rightarrow> bool" where
  "system_ok D U L0 hist sy \<longleftrightarrow>
     tables_ok (sy_tables sy) (sy_seqs sy) \<and>
     (\<forall>cl \<in> set (sy_clients sy). client_ok D U sy cl) \<and>
     (\<forall>i < length (sy_clients sy). \<forall>j < length (sy_clients sy). i \<noteq> j \<longrightarrow>
        set (client_claims (sy_clients sy ! i)) \<inter> set (client_claims (sy_clients sy ! j)) = {}) \<and>
     moves (map snd hist) L0 (abs_ledger (sy_tables sy)) \<and>
     (\<forall>i < length (sy_clients sy). effects_of i hist = cl_done (sy_clients sy ! i)) \<and>
     fst ` set hist \<subseteq> {..<length (sy_clients sy)}"

lemma quiet_ok: "tables_ok t sq \<Longrightarrow> system_ok D U (abs_ledger t) [] (quiet_system t sq)"
  by (simp add: system_ok_def quiet_system_def)

lemma reply_ok_mono:
  assumes "reply_ok D U req r es L" and "ledger_extends L L'"
  shows "reply_ok D U req r es L'"
proof -
  note mono = monotone_posts [unfolded monotone_post_def, rule_format, OF _ assms(2)]
  from assms(1) show ?thesis
    by (cases "(D, U, req, r, es, L)" rule: reply_ok.cases) (auto intro: mono)
qed

lemma stable_replies: "stable rely (replies_ok D U req r)"
  using rely_extends rely_frame(2,4) reply_ok_mono unfolding stable_def replies_ok_def by metis

lemma safe_waits:
  "safe h rely G (replies_ok D U req) p c \<Longrightarrow> rely c c1 \<Longrightarrow> safe h rely G (replies_ok D U req) p c1"
  by (erule safe_stable) (assumption, erule rely_trans, assumption, rule stable_replies)

context postgres
begin

lemma rg_serve_request: "srg (request_effect D U req) fresh (serve_request D U req) (replies_ok D U req)"
proof (cases req)
  case (TransferRequest cmd)
  have "srg (transfer_effect D U cmd) fresh (serve_request D U req) (replies_ok D U req)"
    unfolding TransferRequest serve_request.simps
  proof (rule rg_bind [OF rg_Transfer rg_Return])
    fix r :: "go_error + 'd Transfer" and c :: "'u conn"
    assume "(\<forall>t. r = Inr t \<longrightarrow> TransferService_validate D U cmd = None) \<and> replied (transfer_post D U cmd) r c"
    then show "replies_ok D U (TransferRequest cmd) (TransferReply r) c"
      by (cases r) (auto simp: replies_ok_def replied_def)
  qed
  with TransferRequest show ?thesis by (simp add: request_effect.simps [abs_def])
next
  case (CreateRequest i b)
  have "srg (create_effect D i b) fresh (serve_request D U req) (replies_ok D U req)"
    unfolding CreateRequest serve_request.simps
  proof (rule rg_bind [OF rg_Create rg_Return])
    fix r :: "go_error + unit" and c :: "'u conn"
    assume "(r = Inr () \<longrightarrow> 0 < sint i \<and> validateInitialBalance D b = None) \<and> replied (create_post D i b) r c"
    then show "replies_ok D U (CreateRequest i b) (CreateReply r) c"
      by (cases r) (auto simp: replies_ok_def replied_def)
  qed
  with CreateRequest show ?thesis by (simp add: request_effect.simps [abs_def])
next
  case (GetRequest i)
  show ?thesis
    unfolding GetRequest serve_request.simps
  proof (rule rg_bind [OF rg_Get rg_Return])
    fix r :: "go_error + 'd Account" and c :: "'u conn"
    assume "replied (get_post i) r c"
    then show "replies_ok D U (GetRequest i) (GetReply r) c"
      by (cases r) (auto simp: replies_ok_def replied_def get_post_def)
  qed
qed

subsection \<open>Every event keeps it\<close>

lemma arrival_ok:
  assumes "system_ok D U L0 hist sy"
  shows "system_ok D U L0 hist (sy\<lparr>sy_clients := sy_clients sy @ [start_client D U req]\<rparr>)"
    (is "system_ok D U L0 hist ?sy")
proof -
  let ?cl = "start_client D U req"
  have conn: "conn_of ?sy cl now fs = conn_of sy cl now fs" for cl now fs by (simp add: conn_of_def)
  have "fresh (conn_of sy ?cl 0 [])"
    using assms by (simp add: fresh_def conn_ok_def system_ok_def)
  then have "client_ok D U ?sy ?cl"
    using rgD [OF rg_serve_request] by (simp add: client_ok_def conn)
  moreover have "client_ok D U ?sy cl" if "cl \<in> set (sy_clients sy)" for cl
    using assms that by (simp add: client_ok_def conn system_ok_def)
  moreover have "effects_of (length (sy_clients sy)) hist = []"
    using assms by (auto simp: system_ok_def effects_of_def filter_empty_conv)
  ultimately show ?thesis
    using assms unfolding system_ok_def
    by (auto simp: nth_append less_Suc_eq)
qed

text \<open>How an interaction of one client looks to another.\<close>

lemma others_rely:
  assumes g: "guar A (conn_of sy cl now fs) c" and apart: "set (client_claims cl) \<inter> set (client_claims cl') = {}"
  shows "rely (conn_of sy cl' 0 []) (conn_of (system_after s p c sy) cl' 0 [])"
proof -
  obtain ws where ws: "set (log_claims ws) \<subseteq> set (client_claims cl)"
    "committed (cn_world c) = apply_writes ws (sy_tables sy)"
    using g by (auto simp: guar_def)
  have "grows (set (client_claims cl')) (sy_tables sy) (apply_writes ws (sy_tables sy))"
    by (rule grows_apply_writes) (use ws(1) apart in blast)
  then show ?thesis using g ws(2) by (simp add: rely_def guar_def system_after_def)
qed

text \<open>The client that interacts, and the others.\<close>

lemma interacting_client:
  assumes ok: "system_ok D U L0 hist sy" and s: "s < length (sy_clients sy)"
    and p: "\<not> returned (cl_prog (sy_clients sy ! s))"
    and st: "prog_step (session D U) (cl_prog (sy_clients sy ! s)) (conn_of sy (sy_clients sy ! s) now fs) = (p', c)"
  shows "guar (request_effect D U (cl_request (sy_clients sy ! s))) (conn_of sy (sy_clients sy ! s) now fs) c"
    and "client_ok D U (system_after s p' c sy) (client_after (sy_clients sy ! s) p' c)"
proof -
  let ?cl = "sy_clients sy ! s" and ?sy = "system_after s p' c sy"
  let ?A = "request_effect D U (cl_request ?cl)" and ?Q = "replies_ok D U (cl_request ?cl)"
  let ?new = "client_after ?cl p' c"
  have tables: "tables_ok (sy_tables sy) (sy_seqs sy)" using ok by (simp add: system_ok_def)
  have "client_ok D U sy ?cl" using ok s by (simp add: system_ok_def)
  then have "safe (session D U) rely (guar ?A) ?Q (cl_prog ?cl) (conn_of sy ?cl 0 [])" by (simp add: client_ok_def)
  moreover have "rely (conn_of sy ?cl 0 []) (conn_of sy ?cl now fs)" using tables by (simp add: rely_def)
  ultimately show g: "guar ?A (conn_of sy ?cl now fs) c"
    using safe_step [OF _ p _ st] by blast
  have "rely c (conn_of ?sy ?new 0 [])"
    using g by (simp add: rely_def guar_def system_after_def)
  moreover have "safe (session D U) rely (guar ?A) ?Q p' c"
    using safe_step [OF \<open>safe _ _ _ _ _ _\<close> p \<open>rely (conn_of sy ?cl 0 []) (conn_of sy ?cl now fs)\<close> st] by blast
  ultimately have "safe (session D U) rely (guar ?A) ?Q p' (conn_of ?sy ?new 0 [])" by (blast intro: safe_waits)
  then show "client_ok D U ?sy ?new" using g by (simp add: client_ok_def guar_def)
qed

lemma other_client:
  assumes ok: "system_ok D U L0 hist sy" and s: "s < length (sy_clients sy)"
    and g: "guar A (conn_of sy (sy_clients sy ! s) now fs) c"
    and i: "i < length (sy_clients sy)" "i \<noteq> s"
  shows "client_ok D U (system_after s p' c sy) (sy_clients sy ! i)"
proof -
  have "set (client_claims (sy_clients sy ! s)) \<inter> set (client_claims (sy_clients sy ! i)) = {}"
    using ok s i unfolding system_ok_def by blast
  note R = others_rely [OF g this]
  have "client_ok D U sy (sy_clients sy ! i)" using ok i by (simp add: system_ok_def)
  then show ?thesis
    unfolding client_ok_def using safe_waits [OF _ R] by blast
qed

lemma apart_after:
  assumes ok: "system_ok D U L0 hist sy" and s: "s < length (sy_clients sy)"
    and free: "\<not> blocked s (conn_claims c) (sy_clients sy)"
    and ij: "i < length (sy_clients sy)" "j < length (sy_clients sy)" "i \<noteq> j"
  shows "set (client_claims (sy_clients (system_after s p' c sy) ! i)) \<inter>
    set (client_claims (sy_clients (system_after s p' c sy) ! j)) = {}"
proof -
  let ?cls = "sy_clients sy"
  have new: "set (conn_claims c) \<inter> set (client_claims (?cls ! k)) = {}" if "k < length ?cls" "k \<noteq> s" for k
    using free that unfolding blocked_iff by blast
  have old: "set (client_claims (?cls ! i)) \<inter> set (client_claims (?cls ! j)) = {}"
    using ok ij unfolding system_ok_def by blast
  show ?thesis
    using new [of i] new [of j] old ij s
    by (cases "i = s"; cases "j = s") (simp_all add: system_after_def Int_commute)
qed

lemma interaction_ok:
  assumes ok: "system_ok D U L0 hist sy" and s: "s < length (sy_clients sy)"
    and p: "\<not> returned (cl_prog (sy_clients sy ! s))"
    and st: "prog_step (session D U) (cl_prog (sy_clients sy ! s)) (conn_of sy (sy_clients sy ! s) now fs) = (p', c)"
    and free: "\<not> blocked s (conn_claims c) (sy_clients sy)"
  shows "\<exists>es. system_ok D U L0 (hist @ map (Pair s) es) (system_after s p' c sy)"
proof -
  let ?cls = "sy_clients sy" and ?sy = "system_after s p' c sy"
  let ?new = "client_after (?cls ! s) p' c"
  note mine = interacting_client [OF ok s p st] and other = other_client [OF ok s interacting_client(1) [OF ok s p st]]
  obtain es where es: "cn_done c = cl_done (?cls ! s) @ es"
    "moves es (abs_ledger (sy_tables sy)) (abs_ledger (committed (cn_world c)))"
    using mine(1) by (auto simp: guar_def settled_ledger_def)
  have cls: "sy_clients ?sy = ?cls[s := ?new]" by (simp add: system_after_def)
  have "\<forall>cl \<in> set (sy_clients ?sy). client_ok D U ?sy cl"
  proof
    fix cl
    assume "cl \<in> set (sy_clients ?sy)"
    then obtain i where i: "i < length ?cls" "cl = ?cls[s := ?new] ! i" by (auto simp: cls in_set_conv_nth)
    with mine(2) other [of i] s show "client_ok D U ?sy cl" by (cases "i = s") simp_all
  qed
  moreover have "tables_ok (sy_tables ?sy) (sy_seqs ?sy)" using mine(1) by (simp add: guar_def system_after_def)
  moreover have "moves (map snd (hist @ map (Pair s) es)) L0 (abs_ledger (sy_tables ?sy))"
    using ok es(2) by (auto simp: system_ok_def system_after_def moves_append comp_def)
  moreover have "effects_of i (hist @ map (Pair s) es) = cl_done (sy_clients ?sy ! i)" if "i < length ?cls" for i
    using ok es(1) that s by (simp add: system_ok_def cls nth_list_update)
  moreover have "fst ` set (hist @ map (Pair s) es) \<subseteq> {..<length ?cls}"
    using ok s by (auto simp: system_ok_def)
  ultimately show ?thesis
    using apart_after [OF ok s free, of _ _ p'] unfolding system_ok_def by (intro exI [of _ es]) (simp add: cls)
qed

lemma schedule_ok:
  "schedule D U evs sy = Some sy' \<Longrightarrow> system_ok D U L0 hist sy \<Longrightarrow>
     \<exists>hist'. system_ok D U L0 (hist @ hist') sy'"
proof (induction evs arbitrary: sy hist)
  case Nil
  then show ?case by (intro exI [of _ "[]"]) simp
next
  case (Cons e evs)
  then obtain sy1 where e: "event_step D U e sy = Some sy1" "schedule D U evs sy1 = Some sy'"
    by (auto split: option.splits)
  have "\<exists>hist1. system_ok D U L0 (hist @ hist1) sy1"
  proof (cases e)
    case (Arrives req)
    with e arrival_ok [OF Cons.prems(2), of req] show ?thesis by (intro exI [of _ "[]"]) simp
  next
    case (Interacts s now f)
    obtain p c where st: "prog_step (session D U) (cl_prog (sy_clients sy ! s))
        (conn_of sy (sy_clients sy ! s) now [f]) = (p, c)" by fastforce
    with e Interacts have "s < length (sy_clients sy)" "\<not> returned (cl_prog (sy_clients sy ! s))"
      "\<not> blocked s (conn_claims c) (sy_clients sy)" "sy1 = system_after s p c sy"
      by (simp_all split: if_splits)
    with interaction_ok [OF Cons.prems(2) _ _ st] show ?thesis by blast
  qed
  then obtain hist1 where "system_ok D U L0 (hist @ hist1) sy1" by blast
  from Cons.IH [OF e(2) this] obtain hist2 where "system_ok D U L0 ((hist @ hist1) @ hist2) sy'" by blast
  then show ?case by (intro exI [of _ "hist1 @ hist2"]) simp
qed

lemma quiet_schedule:
  assumes "tables_ok t sq" and "schedule D U evs (quiet_system t sq) = Some sy"
  obtains hist where "system_ok D U (abs_ledger t) hist sy"
  using schedule_ok [OF assms(2) quiet_ok [OF assms(1)]] by auto

end

subsection \<open>What a system shows\<close>

text \<open>
  \<open>hist\<close> explains a system that began with the ledger \<open>L0\<close>: it names every request that had an effect,
  once, with that effect; the effects are what the requests asked for, and the specification, applied
  to them one after another, goes from \<open>L0\<close> to the committed ledger.
\<close>

definition serial_history ::
    "'d decimal_ops \<Rightarrow> 'u uuid_ops \<Rightarrow> 'u ledger \<Rightarrow> (nat \<times> 'u effect) list \<Rightarrow> ('d, 'u) system \<Rightarrow> bool" where
  "serial_history D U L0 hist sy \<longleftrightarrow>
     serially (map snd hist) L0 = Some (abs_ledger (sy_tables sy)) \<and> distinct (map fst hist) \<and>
     (\<forall>i < length (sy_clients sy). effects_of i hist = cl_done (sy_clients sy ! i)) \<and>
     (\<forall>(i, e) \<in> set hist. i < length (sy_clients sy) \<and> request_effect D U (cl_request (sy_clients sy ! i)) e)"

text \<open>Each request has at most one effect, so the history is a list of distinct requests.\<close>

lemma distinct_effects:
  assumes "\<And>i. length (effects_of i hist) \<le> 1"
  shows "distinct (map fst hist)"
  using assms
proof (induction hist)
  case (Cons h hist)
  have "length (effects_of i hist) \<le> 1" for i
    using Cons.prems [of i] by (auto simp: effects_of_def split: if_splits)
  moreover have "effects_of (fst h) hist = []" using Cons.prems [of "fst h"] by (simp add: effects_of_def)
  ultimately show ?case using Cons.IH by (auto simp: effects_of_def filter_empty_conv)
qed simp

lemma system_history:
  assumes "system_ok D U L0 hist sy"
  shows "serial_history D U L0 hist sy"
  unfolding serial_history_def
proof -
  let ?cls = "sy_clients sy"
  have "moves (map snd hist) L0 (abs_ledger (sy_tables sy))" using assms by (simp only: system_ok_def)
  then have serial: "serially (map snd hist) L0 = Some (abs_ledger (sy_tables sy))" by (rule moves_serially)
  have all: "client_ok D U sy (?cls ! i)" "effects_of i hist = cl_done (?cls ! i)" if "i < length ?cls" for i
    using assms nth_mem [OF that] that unfolding system_ok_def by blast+
  have range: "i < length ?cls" if "(i, e) \<in> set hist" for i e
    using assms imageI [OF that, of fst] unfolding system_ok_def by auto
  have one: "done_ok (request_effect D U (cl_request (?cls ! i))) (effects_of i hist)"
    if "i < length ?cls" for i
    using all [OF that] unfolding client_ok_def by simp
  have distinct: "distinct (map fst hist)"
  proof (rule distinct_effects)
    fix i
    show "length (effects_of i hist) \<le> 1"
    proof (cases "i < length ?cls")
      case True
      from one [OF this] show ?thesis by (simp add: done_ok_def)
    next
      case False
      then have "effects_of i hist = []"
        using range by (auto simp: effects_of_def filter_empty_conv)
      then show ?thesis by simp
    qed
  qed
  have "i < length ?cls \<and> request_effect D U (cl_request (?cls ! i)) e" if e: "(i, e) \<in> set hist" for i e
  proof -
    have "e \<in> set (effects_of i hist)" using e by (force simp: effects_of_def)
    moreover from one [OF range [OF e]] have "effects_of i hist = [] \<or>
        (\<exists>x. effects_of i hist = [x] \<and> request_effect D U (cl_request (?cls ! i)) x)"
      by (cases "effects_of i hist") (simp_all add: done_ok_def)
    ultimately show ?thesis using range [OF e] by auto
  qed
  with serial distinct all(2) show "serially (map snd hist) L0 = Some (abs_ledger (sy_tables sy)) \<and>
      distinct (map fst hist) \<and> (\<forall>i < length ?cls. effects_of i hist = cl_done (?cls ! i)) \<and>
      (\<forall>(i, e) \<in> set hist. i < length ?cls \<and> request_effect D U (cl_request (?cls ! i)) e)"
    by blast
qed

lemma system_client:
  assumes "system_ok D U L0 hist sy" and "s < length (sy_clients sy)"
  shows "done_ok (request_effect D U (cl_request (sy_clients sy ! s))) (cl_done (sy_clients sy ! s))"
    and "cl_prog (sy_clients sy ! s) = Return r \<Longrightarrow>
      cl_txn (sy_clients sy ! s) = None \<and>
      reply_ok D U (cl_request (sy_clients sy ! s)) r (cl_done (sy_clients sy ! s)) (abs_ledger (sy_tables sy))"
proof -
  have "client_ok D U sy (sy_clients sy ! s)"
    using assms nth_mem [OF assms(2)] unfolding system_ok_def by blast
  then show "done_ok (request_effect D U (cl_request (sy_clients sy ! s))) (cl_done (sy_clients sy ! s))"
    and "cl_prog (sy_clients sy ! s) = Return r \<Longrightarrow> cl_txn (sy_clients sy ! s) = None \<and>
      reply_ok D U (cl_request (sy_clients sy ! s)) r (cl_done (sy_clients sy ! s)) (abs_ledger (sy_tables sy))"
    by (simp_all add: client_ok_def replies_ok_def)
qed

lemma system_tables:
  assumes "system_ok D U L0 hist sy"
  shows "tables_ok (sy_tables sy) (sy_seqs sy)"
    and "ledger_ok L0 \<Longrightarrow> ledger_ok (abs_ledger (sy_tables sy)) \<and> ledger_extends L0 (abs_ledger (sy_tables sy))"
proof -
  have "moves (map snd hist) L0 (abs_ledger (sy_tables sy))" using assms by (simp only: system_ok_def)
  then show "ledger_ok L0 \<Longrightarrow> ledger_ok (abs_ledger (sy_tables sy)) \<and> ledger_extends L0 (abs_ledger (sy_tables sy))"
    by (rule moves_ok)
qed (use assms in \<open>simp only: system_ok_def\<close>)

end
