(* ===== verification/Sequential_Schedules.thy ===== *)
theory Sequential_Schedules
  imports Concurrent_System
begin

text \<open>
  The requests of the sequential model are schedules too: when no other transaction is open, a client
  that is scheduled alone does what \<open>run (pg D U)\<close> does, whatever fails. So what is proved of single
  requests holds of clients that run undisturbed, and every world that the sequential service reaches
  is the state of a system.
\<close>

subsection \<open>One interaction looks at one failure\<close>

definition with_script :: "fault list \<Rightarrow> 'u world \<Rightarrow> 'u world" where
  "with_script fs w = w\<lparr>script := fs\<rparr>"

lemma with_script_sel [simp]:
  "committed (with_script fs w) = committed w" "seqs (with_script fs w) = seqs w" "txn (with_script fs w) = txn w"
  "clock (with_script fs w) = clock w" "script (with_script fs w) = fs" "view (with_script fs w) = view w"
  "with_script fs (with_script gs w) = with_script fs w" "with_script (script w) w = w"
  by (simp_all add: with_script_def view_def cong: option.case_cong split: option.split)

lemma with_script_upd [simp]:
  "(with_script fs w)\<lparr>txn := t\<rparr> = with_script fs (w\<lparr>txn := t\<rparr>)"
  "(with_script fs w)\<lparr>committed := ts\<rparr> = with_script fs (w\<lparr>committed := ts\<rparr>)"
  "(with_script fs w)\<lparr>seqs := sq\<rparr> = with_script fs (w\<lparr>seqs := sq\<rparr>)"
  by (simp_all add: with_script_def)

definition first_fault :: "'u world \<Rightarrow> fault" where
  "first_fault w = (case script w of [] \<Rightarrow> NoFault | f # _ \<Rightarrow> f)"

lemma first_fault_script [simp]: "first_fault (with_script (f # fs) w) = f"
  by (simp add: first_fault_def)

lemma next_fault_script: "next_fault w = (first_fault w, with_script (tl (script w)) w)"
  by (cases w) (simp add: next_fault_def first_fault_def with_script_def split: list.split)

lemma statements_script:
  "pool_statement D U stmt (with_script fs w) = map_prod id (with_script fs) (pool_statement D U stmt w)"
  "tx_statement D U stmt (with_script fs w) = map_prod id (with_script fs) (tx_statement D U stmt w)"
  "mark_failed (with_script fs w) = with_script fs (mark_failed w)"
  by (auto simp: pool_statement_def tx_statement_def mark_failed_def Let_def split: prod.split sum.split option.split)

lemma statement_script:
  "statement D U q stmt w = (r, w') \<Longrightarrow>
     statement D U q stmt (with_script [first_fault w] w) = (r, with_script [] w')"
  unfolding statement_def next_fault_script
  by (cases q; cases "fault_error (first_fault w)") (auto simp: statements_script map_prod_def split: prod.splits)

lemma calls_script:
  "pg_exec D U q s w = (v, w') \<Longrightarrow> pg_exec D U q s (with_script [first_fault w] w) = (v, with_script [] w')"
  "pg_query D U q s w = (t, w') \<Longrightarrow> pg_query D U q s (with_script [first_fault w] w) = (t, with_script [] w')"
  "pg_query_row D U q s w = (u, w') \<Longrightarrow> pg_query_row D U q s (with_script [first_fault w] w) = (u, with_script [] w')"
  by (auto simp: pg_exec_def pg_query_def pg_query_row_def statement_script split: prod.splits)

lemma transactions_script:
  "pg_begin w = (v, w') \<Longrightarrow> pg_begin (with_script [first_fault w] w) = (v, with_script [] w')"
  "pg_commit w = (v, w') \<Longrightarrow> \<exists>f fs. pg_commit (with_script [f] w) = (v, with_script fs w')"
  "pg_rollback w = (b, w') \<Longrightarrow> pg_rollback (with_script [f] w) = (b, with_script [f] w')"
proof -
  show "pg_begin w = (v, w') \<Longrightarrow> pg_begin (with_script [first_fault w] w) = (v, with_script [] w')"
    unfolding pg_begin_def next_fault_script by (cases "fault_error (first_fault w)") auto
  show "pg_rollback w = (b, w') \<Longrightarrow> pg_rollback (with_script [f] w) = (b, with_script [f] w')"
    unfolding pg_rollback_def by (auto split: if_splits)
  assume c: "pg_commit w = (v, w')"
  show "\<exists>f fs. pg_commit (with_script [f] w) = (v, with_script fs w')"
  proof (cases "txn w")
    case None
    with c show ?thesis by (auto simp: pg_commit_def)
  next
    case (Some t)
    with c have "pg_commit (with_script [first_fault w] w) = (v, with_script [] w')"
      unfolding pg_commit_def next_fault_script by (cases "first_fault w") (auto simp: Let_def split: if_splits)
    then show ?thesis by blast
  qed
qed

definition conn_script :: "fault list \<Rightarrow> 'u conn \<Rightarrow> 'u conn" where
  "conn_script fs c = c\<lparr>cn_world := with_script fs (cn_world c)\<rparr>"

lemma conn_script_sel [simp]:
  "cn_world (conn_script fs c) = with_script fs (cn_world c)" "cn_locked (conn_script fs c) = cn_locked c"
  "cn_done (conn_script fs c) = cn_done c"
  by (simp_all add: conn_script_def)

lemma on_statement_script:
  assumes "on_statement q s f c = (r, c')"
    and "\<And>w'. f (cn_world c) = (r, w') \<Longrightarrow> f (with_script [x] (cn_world c)) = (r, with_script [] w')"
  shows "on_statement q s f (conn_script [x] c) = (r, conn_script [] c')"
  using assms by (auto simp: on_statement_def conn_script_def split: prod.splits)

lemma on_transaction_script:
  assumes "on_transaction f c = (r, c')"
    and "\<And>w'. f (cn_world c) = (r, w') \<Longrightarrow> f (with_script [x] (cn_world c)) = (r, with_script fs w')"
  shows "on_transaction f (conn_script [x] c) = (r, conn_script fs c')"
  using assms by (auto simp: on_transaction_def conn_script_def split: prod.splits)

lemma prog_step_script:
  "prog_step (session D U) p c = (p', c') \<Longrightarrow>
     \<exists>f fs. prog_step (session D U) p (conn_script [f] c) = (p', conn_script fs c')"
proof (cases p)
  case (Return a)
  then show "prog_step (session D U) p c = (p', c') \<Longrightarrow> ?thesis"
    by (intro exI [of _ NoFault] exI [of _ "[NoFault]"]) auto
next
  case (DoExec q s k)
  assume "prog_step (session D U) p c = (p', c')"
  then obtain r where r: "on_statement q s (pg_exec D U q s) c = (r, c')" "p' = k r"
    by (auto simp: DoExec session_sel split: prod.splits)
  from on_statement_script [OF r(1) calls_script(1)] r(2) show ?thesis
    by (intro exI [of _ "first_fault (cn_world c)"] exI [of _ "[]"]) (simp add: DoExec session_sel)
next
  case (DoQuery q s k)
  assume "prog_step (session D U) p c = (p', c')"
  then obtain r where r: "on_statement q s (pg_query D U q s) c = (r, c')" "p' = k r"
    by (auto simp: DoQuery session_sel split: prod.splits)
  from on_statement_script [OF r(1) calls_script(2)] r(2) show ?thesis
    by (intro exI [of _ "first_fault (cn_world c)"] exI [of _ "[]"]) (simp add: DoQuery session_sel)
next
  case (DoQueryRow q s k)
  assume "prog_step (session D U) p c = (p', c')"
  then obtain r where r: "on_statement q s (pg_query_row D U q s) c = (r, c')" "p' = k r"
    by (auto simp: DoQueryRow session_sel split: prod.splits)
  from on_statement_script [OF r(1) calls_script(3)] r(2) show ?thesis
    by (intro exI [of _ "first_fault (cn_world c)"] exI [of _ "[]"]) (simp add: DoQueryRow session_sel)
next
  case (DoBegin k)
  assume "prog_step (session D U) p c = (p', c')"
  then obtain r where r: "on_transaction pg_begin c = (r, c')" "p' = k r"
    by (auto simp: DoBegin session_sel split: prod.splits)
  from on_transaction_script [OF r(1) transactions_script(1)] r(2) show ?thesis
    by (intro exI [of _ "first_fault (cn_world c)"] exI [of _ "[]"]) (simp add: DoBegin session_sel)
next
  case (DoCommit k)
  assume "prog_step (session D U) p c = (p', c')"
  then obtain r where r: "on_transaction pg_commit c = (r, c')" "p' = k r"
    by (auto simp: DoCommit session_sel split: prod.splits)
  obtain w' where "pg_commit (cn_world c) = (r, w')"
    using r(1) by (auto simp: on_transaction_def split: prod.splits)
  with transactions_script(2) [OF this] obtain f fs where "pg_commit (with_script [f] (cn_world c)) = (r, with_script fs w')"
    by blast
  with on_transaction_script [OF r(1), of f fs] \<open>pg_commit (cn_world c) = (r, w')\<close> r(2) show ?thesis
    by (intro exI [of _ f] exI [of _ fs]) (simp add: DoCommit session_sel)
next
  case (DoRollback k)
  assume "prog_step (session D U) p c = (p', c')"
  then obtain r where r: "on_transaction pg_rollback c = (r, c')" "p' = k r"
    by (auto simp: DoRollback session_sel split: prod.splits)
  from on_transaction_script [OF r(1) transactions_script(3)] r(2) show ?thesis
    by (intro exI [of _ NoFault] exI [of _ "[NoFault]"]) (simp add: DoRollback session_sel)
qed

subsection \<open>A client alone\<close>

text \<open>The client \<open>s\<close> is about to run \<open>p\<close> in the session \<open>c\<close>, and no other transaction holds anything.\<close>

definition alone :: "nat \<Rightarrow> ('d, 'd reply) prog \<Rightarrow> 'u conn \<Rightarrow> ('d, 'u) system \<Rightarrow> bool" where
  "alone s p c sy \<longleftrightarrow> s < length (sy_clients sy) \<and> cl_prog (sy_clients sy ! s) = p \<and>
     conn_of sy (sy_clients sy ! s) (clock (cn_world c)) (script (cn_world c)) = c \<and>
     (\<forall>i < length (sy_clients sy). i \<noteq> s \<longrightarrow> client_claims (sy_clients sy ! i) = [])"

lemma conn_of_script: "conn_of sy cl now fs = c \<Longrightarrow> conn_of sy cl now gs = conn_script gs c"
  by (auto simp: conn_of_def conn_script_def with_script_def)

lemma alone_step:
  assumes a: "alone s p c sy" and p: "\<not> returned p" and st: "prog_step (session D U) p c = (p', c')"
  shows "\<exists>e sy'. event_step D U e sy = Some sy' \<and> (\<exists>fs. alone s p' (conn_script fs c') sy') \<and>
    length (sy_clients sy') = length (sy_clients sy) \<and> (\<forall>i. i \<noteq> s \<longrightarrow> sy_clients sy' ! i = sy_clients sy ! i)"
proof -
  let ?cl = "sy_clients sy ! s" and ?now = "clock (cn_world c)"
  obtain f fs where f: "prog_step (session D U) p (conn_script [f] c) = (p', conn_script fs c')"
    using prog_step_script [OF st] by blast
  have conn: "conn_of sy ?cl ?now [f] = conn_script [f] c"
    using a by (intro conn_of_script [where fs = "script (cn_world c)"]) (simp add: alone_def)
  have free: "\<not> blocked s cs (sy_clients sy)" for cs
    using a by (auto simp: blocked_iff alone_def)
  let ?sy = "system_after s p' (conn_script fs c') sy"
  have "event_step D U (Interacts s ?now f) sy = Some ?sy"
    using a p f free by (simp add: alone_def conn [unfolded alone_def])
  moreover have "alone s p' (conn_script fs c') ?sy"
    using a by (auto simp: alone_def system_after_def conn_of_def with_script_def)
  ultimately show ?thesis by (intro exI [of _ "Interacts s ?now f"] exI [of _ ?sy]) (auto simp: system_after_def)
qed

lemma alone_script: "alone s p (conn_script fs c) sy \<longleftrightarrow> alone s p c sy"
proof -
  have "conn_of sy cl (clock (cn_world c)) fs = conn_script fs c \<longleftrightarrow>
      conn_of sy cl (clock (cn_world c)) (script (cn_world c)) = c" for cl
  proof
    assume "conn_of sy cl (clock (cn_world c)) fs = conn_script fs c"
    from conn_of_script [OF this, of "script (cn_world c)"]
    show "conn_of sy cl (clock (cn_world c)) (script (cn_world c)) = c" by (simp add: conn_script_def)
  qed (rule conn_of_script)
  then show ?thesis by (simp add: alone_def)
qed

lemma alone_sel:
  assumes "alone s p c sy"
  shows "s < length (sy_clients sy)" "cl_prog (sy_clients sy ! s) = p"
    "sy_tables sy = committed (cn_world c)" "sy_seqs sy = seqs (cn_world c)"
    "cl_txn (sy_clients sy ! s) = txn (cn_world c)" "cl_done (sy_clients sy ! s) = cn_done c"
proof -
  have conn: "conn_of sy (sy_clients sy ! s) (clock (cn_world c)) (script (cn_world c)) = c"
    using assms by (simp add: alone_def)
  show "sy_tables sy = committed (cn_world c)" "sy_seqs sy = seqs (cn_world c)"
    "cl_txn (sy_clients sy ! s) = txn (cn_world c)" "cl_done (sy_clients sy ! s) = cn_done c"
    using arg_cong [OF conn, of "\<lambda>c. committed (cn_world c)"] arg_cong [OF conn, of "\<lambda>c. seqs (cn_world c)"]
      arg_cong [OF conn, of "\<lambda>c. txn (cn_world c)"] arg_cong [OF conn, of cn_done] by simp_all
qed (use assms in \<open>simp_all add: alone_def\<close>)

text \<open>Induction over the interactions of a program.\<close>

lemma prog_step_induct [case_names answer interaction]:
  assumes "\<And>a. P (Return a)"
    and "\<And>p. \<not> returned p \<Longrightarrow> (\<And>w p' w'. prog_step h p w = (p', w') \<Longrightarrow> P p') \<Longrightarrow> P p"
  shows "P p"
proof (induction p)
  case (Return a)
  show ?case by (rule assms(1))
qed (rule assms(2); auto split: prod.splits)+

lemma alone_runs:
  "alone s p c sy \<Longrightarrow> run (session D U) p c = (r, c') \<Longrightarrow>
     \<exists>evs sy'. schedule D U evs sy = Some sy' \<and> alone s (Return r) c' sy' \<and>
       length (sy_clients sy') = length (sy_clients sy) \<and> (\<forall>i. i \<noteq> s \<longrightarrow> sy_clients sy' ! i = sy_clients sy ! i)"
proof (induction p arbitrary: c sy rule: prog_step_induct [where h = "session D U"])
  case (answer a)
  then show ?case by (intro exI [of _ "[]"] exI [of _ sy]) simp
next
  case (interaction p)
  obtain p' c1 where st: "prog_step (session D U) p c = (p', c1)" by fastforce
  with interaction.prems(2) have rest: "run (session D U) p' c1 = (r, c')" by (simp add: run_prog_step [of _ p])
  from alone_step [OF interaction.prems(1) interaction.hyps st] obtain e sy1 where
    e: "event_step D U e sy = Some sy1" "alone s p' c1 sy1" "length (sy_clients sy1) = length (sy_clients sy)"
      "\<forall>i. i \<noteq> s \<longrightarrow> sy_clients sy1 ! i = sy_clients sy ! i"
    unfolding alone_script by blast
  from interaction.IH [OF st e(2) rest] obtain evs sy' where
    "schedule D U evs sy1 = Some sy'" "alone s (Return r) c' sy'" "length (sy_clients sy') = length (sy_clients sy1)"
    "\<forall>i. i \<noteq> s \<longrightarrow> sy_clients sy' ! i = sy_clients sy1 ! i" by blast
  with e show ?case by (intro exI [of _ "e # evs"] exI [of _ sy']) simp
qed

text \<open>A session does what the sequential database does, so it reaches the world of \<open>run (pg D U)\<close>.\<close>

lemma request_alone:
  assumes w: "committed w = sy_tables sy" "seqs w = sy_seqs sy" "txn w = None"
    and quiet: "\<forall>cl \<in> set (sy_clients sy). cl_txn cl = None"
    and run: "run (pg D U) (serve_request D U req) w = (r, w')"
  shows "\<exists>evs sy'. schedule D U (Arrives req # evs) sy = Some sy' \<and>
    sy_tables sy' = committed w' \<and> sy_seqs sy' = seqs w' \<and>
    length (sy_clients sy') = Suc (length (sy_clients sy)) \<and> take (length (sy_clients sy)) (sy_clients sy') = sy_clients sy \<and>
    cl_prog (last (sy_clients sy')) = Return r \<and> cl_txn (last (sy_clients sy')) = txn w'"
proof -
  let ?n = "length (sy_clients sy)" and ?cl = "start_client D U req"
  let ?sy = "sy\<lparr>sy_clients := sy_clients sy @ [?cl]\<rparr>"
  let ?c = "\<lparr>cn_world = w, cn_locked = [], cn_done = []\<rparr>"
  have "alone ?n (serve_request D U req) ?c ?sy"
    using w quiet by (auto simp: alone_def conn_of_def nth_append less_Suc_eq client_claims_def txn_claims_def)
  moreover obtain r1 c' where run': "run (session D U) (serve_request D U req) ?c = (r1, c')" by fastforce
  ultimately obtain evs sy' where sy': "schedule D U evs ?sy = Some sy'" "alone ?n (Return r1) c' sy'"
    "length (sy_clients sy') = Suc ?n" "\<forall>i. i \<noteq> ?n \<longrightarrow> sy_clients sy' ! i = sy_clients ?sy ! i"
    using alone_runs by fastforce
  have same: "r1 = r" "cn_world c' = w'"
    using run_session_world [OF run'] run by simp_all
  have last: "last (sy_clients sy') = sy_clients sy' ! ?n" using sy'(3) by (subst last_conv_nth) auto
  have "sy_tables sy' = committed w'" "sy_seqs sy' = seqs w'" "cl_prog (last (sy_clients sy')) = Return r"
    "cl_txn (last (sy_clients sy')) = txn w'"
    using alone_sel [OF sy'(2)] same unfolding last by simp_all
  moreover have "take ?n (sy_clients sy') = sy_clients sy"
    by (rule nth_equalityI) (use sy'(3,4) in \<open>auto simp: nth_append\<close>)
  moreover have "schedule D U (Arrives req # evs) sy = Some sy'" using sy'(1) by simp
  ultimately show ?thesis using sy'(3) by blast
qed

end
