(* ===== verification/Request_Length.thy ===== *)
theory Request_Length
  imports Concurrent_System
begin

text \<open>
  How long a request can take. \<open>ends_in p n\<close>: whatever the database answers, the program \<open>p\<close> returns after
  at most \<open>n\<close> interactions. A transfer needs 31 at most: ten for each of the three attempts of \<open>WithTx\<close>
  and one for the lookup after a lost race. And no client is stuck: an interaction whose connection
  fails needs nothing that another client holds.
\<close>

primrec ends_in :: "('d, 'a) prog \<Rightarrow> nat \<Rightarrow> bool" where
  "ends_in (Return a) = (\<lambda>n. True)"
| "ends_in (DoExec q s k) = (\<lambda>n. case n of 0 \<Rightarrow> False | Suc m \<Rightarrow> \<forall>r. ends_in (k r) m)"
| "ends_in (DoQuery q s k) = (\<lambda>n. case n of 0 \<Rightarrow> False | Suc m \<Rightarrow> \<forall>r. ends_in (k r) m)"
| "ends_in (DoQueryRow q s k) = (\<lambda>n. case n of 0 \<Rightarrow> False | Suc m \<Rightarrow> \<forall>r. ends_in (k r) m)"
| "ends_in (DoBegin k) = (\<lambda>n. case n of 0 \<Rightarrow> False | Suc m \<Rightarrow> \<forall>r. ends_in (k r) m)"
| "ends_in (DoCommit k) = (\<lambda>n. case n of 0 \<Rightarrow> False | Suc m \<Rightarrow> \<forall>r. ends_in (k r) m)"
| "ends_in (DoRollback k) = (\<lambda>n. case n of 0 \<Rightarrow> False | Suc m \<Rightarrow> \<forall>r. ends_in (k r) m)"

lemma ends_in_Suc: "ends_in p n \<Longrightarrow> ends_in p (Suc n)"
  by (induction p arbitrary: n) (auto split: nat.splits)

lemma ends_in_mono: "ends_in p m \<Longrightarrow> m \<le> n \<Longrightarrow> ends_in p n"
  by (induction n) (auto simp: le_Suc_eq intro: ends_in_Suc)

lemma ends_in_bind: "ends_in p m \<Longrightarrow> (\<And>a. ends_in (f a) n) \<Longrightarrow> ends_in (bind_prog p f) (m + n)"
proof (induction p arbitrary: m)
  case (Return a)
  then show ?case using ends_in_mono [of "f a" n "m + n"] by simp
qed (auto split: nat.splits)

lemma ends_in_andThen: "ends_in p m \<Longrightarrow> (\<And>a. ends_in (f a) n) \<Longrightarrow> ends_in (andThen p f) (m + n)"
  unfolding andThen_def by (rule ends_in_bind) (auto split: sum.split)

lemma ends_in_one_call: "one_call p \<Longrightarrow> ends_in p 1"
  by (cases p) (auto simp: returned_iff, (metis ends_in.simps(1))+)

lemma ends_in_0: "ends_in p 0 \<longleftrightarrow> returned p"
  by (cases p) simp_all

lemma ends_in_step: "ends_in p (Suc n) \<Longrightarrow> \<not> returned p \<Longrightarrow> prog_step h p w = (p', w') \<Longrightarrow> ends_in p' n"
  by (cases p) (auto split: prod.splits)

subsection \<open>The program\<close>

lemma ends_in_runOnce: "(\<And>q. ends_in (fn q) n) \<Longrightarrow> ends_in (runOnce fn) (n + 3)"
proof -
  assume fn: "\<And>q. ends_in (fn q) n"
  have commit: "ends_in (DoCommit (\<lambda>r. case r of Inl err \<Rightarrow> Return (Inl (Wrapf ''commit'' err)) | Inr _ \<Rightarrow> Return (Inr x))) 1"
    for x :: 'b by (simp split: sum.split)
  have roll: "ends_in (DoRollback (\<lambda>_. Return r)) 1" for r :: "go_error + 'b" by simp
  have "ends_in (bind_prog (andThen (fn Tx) (\<lambda>x. DoCommit (\<lambda>r. case r of
      Inl err \<Rightarrow> Return (Inl (Wrapf ''commit'' err)) | Inr _ \<Rightarrow> Return (Inr x))))
      (\<lambda>result. DoRollback (\<lambda>_. Return result))) (n + 1 + 1)"
    by (rule ends_in_bind [OF ends_in_andThen [OF fn commit] roll])
  then show ?thesis by (simp add: runOnce_def numeral_3_eq_3 split: sum.split)
qed

lemma ends_in_withTxLoop: "(\<And>q. ends_in (fn q) n) \<Longrightarrow> ends_in (withTxLoop k lastErr fn) (k * (n + 3))"
proof (induction k arbitrary: lastErr)
  case 0
  then show ?case by (simp add: Let_def)
next
  case (Suc k)
  have "ends_in (case r of Inr x \<Rightarrow> Return (Inr x)
      | Inl err \<Rightarrow> if \<not> isRetryable err then Return (Inl err) else withTxLoop k (Some err) fn)
      (k * (n + 3))" for r
    using Suc by (cases r) simp_all
  from ends_in_bind [OF ends_in_runOnce [OF Suc.prems] this] show ?case by (simp add: add.commute)
qed

lemma ends_in_WithTx: "(\<And>q. ends_in (fn q) n) \<Longrightarrow> ends_in (tm_WithTx NewTxManager fn) (3 * (n + 3))"
  using ends_in_withTxLoop [of fn n maxTxRetries None] by (simp add: NewTxManager_def WithTx_def maxTxRetries_def)

lemmas one_call_ends = one_call_repository [THEN ends_in_one_call]

lemma ends_in_answer [simp]: "ends_in (case r of Inl err \<Rightarrow> Return (f err) | Inr x \<Rightarrow> Return (g x)) n"
  by (cases r) simp_all

lemma ends_in_then:
  "one_call p \<Longrightarrow> (\<And>a. ends_in (f a) n) \<Longrightarrow> ends_in (andThen p f) (Suc n)"
  using ends_in_andThen [OF ends_in_one_call, of p f n] by simp

lemma services_sel:
  "tsv_db (transferSvc D) = Pool" "tsv_tx (transferSvc D) = NewTxManager"
  "tsv_accounts (transferSvc D) = NewAccountRepository D" "tsv_transfers (transferSvc D) = NewTransferRepository"
  "as_Create (NewAccountRepository D) = AccountRepository_Create D" "as_Get (NewAccountRepository D) = AccountRepository_Get"
  "as_LockForUpdate (NewAccountRepository D) = AccountRepository_LockForUpdate"
  "as_UpdateBalance (NewAccountRepository D) = AccountRepository_UpdateBalance"
  "ts_FindByIdempotencyKey NewTransferRepository = TransferRepository_FindByIdempotencyKey"
  "ts_Insert NewTransferRepository = TransferRepository_Insert"
  "ts_InsertLedgerEntry NewTransferRepository = TransferRepository_InsertLedgerEntry"
  by (simp_all add: transferSvc_def NewTransferService_def NewAccountRepository_def NewTransferRepository_def)

lemma ends_in_execute_posting:
  "ends_in (execute_posting D (transferSvc D) q cmd source dest) (Suc (Suc (Suc (Suc (Suc 0)))))"
  unfolding execute_posting_def Let_def services_sel by (intro ends_in_then one_call_repository) simp

lemma ends_in_execute: "ends_in (TransferService_execute D (transferSvc D) q cmd) (Suc 5)"
  unfolding TransferService_execute_def services_sel
  using ends_in_execute_posting [of D q cmd]
  by (intro ends_in_then one_call_repository) (simp add: eval_nat_numeral split: option.split)

lemma ends_in_body: "ends_in (TransferService_body D (transferSvc D) cmd q) (Suc 6)"
proof -
  note ends = ends_in_execute [of D q cmd]
  have "ends_in (case found of
      Some existing \<Rightarrow> if \<not> matchesCmd D existing cmd then Return (Inl ErrIdempotencyConflict) else Return (Inr existing)
    | None \<Rightarrow> TransferService_execute D (transferSvc D) q cmd) 6" for found
    using ends by (simp split: option.split)
  then have "ends_in (andThen (TransferRepository_FindByIdempotencyKey q (cmd_IdempotencyKey cmd)) (\<lambda>found. case found of
      Some existing \<Rightarrow> if \<not> matchesCmd D existing cmd then Return (Inl ErrIdempotencyConflict) else Return (Inr existing)
    | None \<Rightarrow> TransferService_execute D (transferSvc D) q cmd)) (Suc 6)"
    by (intro ends_in_then one_call_repository)
  with ends_in_mono [OF ends, of "Suc 6"] show ?thesis
    unfolding TransferService_body_def services_sel by simp
qed

lemma ends_in_Transfer: "ends_in (TransferService_Transfer D U (transferSvc D) cmd) 31"
proof -
  have dup: "ends_in (TransferService_resolveDuplicate D (transferSvc D) cmd) 1"
    unfolding TransferService_resolveDuplicate_def services_sel One_nat_def
    by (intro ends_in_then one_call_repository) (simp split: option.split)
  have "ends_in (bind_prog (tm_WithTx (tsv_tx (transferSvc D)) (TransferService_body D (transferSvc D) cmd)) (\<lambda>r. case r of
      Inl err \<Rightarrow> if errors_Is err ErrDuplicateIdempotencyKey then TransferService_resolveDuplicate D (transferSvc D) cmd
        else Return (Inl err)
    | Inr result \<Rightarrow> Return (Inr result))) (3 * (Suc 6 + 3) + 1)"
    unfolding services_sel
    by (rule ends_in_bind [OF ends_in_WithTx [OF ends_in_body]]) (simp add: dup split: sum.split del: One_nat_def)
  then show ?thesis by (simp add: TransferService_Transfer_def split: option.split)
qed

lemma ends_in_Create: "ends_in (AccountService_Create D (accountSvc D) i b) 31"
proof -
  have "ends_in (AccountRepository_Create D q i b) 2" for q
    unfolding AccountRepository_Create_def numeral_2_eq_2 by (simp split: sum.split)
  from ends_in_mono [OF ends_in_WithTx [OF this], of 31] show ?thesis
    by (simp add: AccountService_Create_def accountSvc_def NewAccountService_def services_sel split: option.split)
qed

lemma ends_in_Get:
  fixes D :: "'d decimal_ops"
  shows "ends_in (AccountService_Get (accountSvc D) i) 31"
proof -
  have "ends_in (AccountRepository_Get Pool i :: ('d, go_error + 'd Account) prog) 31"
    by (rule ends_in_mono [OF one_call_ends(3)]) simp
  then show ?thesis
    by (simp add: AccountService_Get_def accountSvc_def NewAccountService_def services_sel split: option.split)
qed

lemma ends_in_map: "ends_in p n \<Longrightarrow> ends_in (bind_prog p (\<lambda>r. Return (f r))) n"
  using ends_in_bind [of p n "\<lambda>r. Return (f r)" 0] by simp

lemma ends_in_serve_request: "ends_in (serve_request D U req) 31"
  by (cases req) (simp_all add: ends_in_map ends_in_Transfer ends_in_Create ends_in_Get)

subsection \<open>The clients\<close>

fun interacts_as :: "nat \<Rightarrow> 'd event \<Rightarrow> bool" where
  "interacts_as s (Arrives req) = False"
| "interacts_as s (Interacts i now f) = (i = s)"

definition interactions :: "nat \<Rightarrow> 'd event list \<Rightarrow> nat" where
  "interactions s evs = length (filter (interacts_as s) evs)"

lemma interactions_simps [simp]:
  "interactions s [] = 0" "interactions s (evs @ evs') = interactions s evs + interactions s evs'"
  "interactions s [Arrives req] = 0" "interactions s [Interacts i now f] = (if i = s then 1 else 0)"
  by (simp_all add: interactions_def)

text \<open>\<open>evs\<close> is what has happened so far.\<close>

definition paced :: "nat \<Rightarrow> 'd event list \<Rightarrow> ('d, 'u) system \<Rightarrow> bool" where
  "paced n evs sy \<longleftrightarrow>
     (\<forall>s < length (sy_clients sy). interactions s evs \<le> n \<and>
        ends_in (cl_prog (sy_clients sy ! s)) (n - interactions s evs)) \<and>
     (\<forall>s \<ge> length (sy_clients sy). interactions s evs = 0)"

lemma paced_step:
  assumes "paced n evs sy" and "event_step D U e sy = Some sy'" and "\<And>req. ends_in (serve_request D U req) n"
  shows "paced n (evs @ [e]) sy'"
proof (cases e)
  case (Arrives req)
  then have sy': "sy_clients sy' = sy_clients sy @ [start_client D U req]" using assms(2) by auto
  show ?thesis
    using assms(1,3) unfolding paced_def sy' Arrives by (auto simp: nth_append less_Suc_eq)
next
  case (Interacts s now f)
  let ?p = "cl_prog (sy_clients sy ! s)"
  obtain p' c where st: "prog_step (session D U) ?p (conn_of sy (sy_clients sy ! s) now [f]) = (p', c)" by fastforce
  with assms(2) Interacts have s: "s < length (sy_clients sy)" "\<not> returned ?p" and sy': "sy' = system_after s p' c sy"
    by (simp_all split: if_splits)
  have n: "interactions s evs \<le> n" "ends_in ?p (n - interactions s evs)" using assms(1) s(1) by (simp_all add: paced_def)
  have "n - interactions s evs \<noteq> 0" using n(2) s(2) ends_in_0 [of ?p] by auto
  then obtain k where k: "n - interactions s evs = Suc k" by (cases "n - interactions s evs") simp_all
  have "ends_in p' k" using ends_in_step [OF n(2) [unfolded k] s(2) st] .
  have mine: "Suc (interactions s evs) \<le> n \<and> ends_in p' (n - Suc (interactions s evs))"
  proof
    show "Suc (interactions s evs) \<le> n" using k by arith
    have "n - Suc (interactions s evs) = k" using k by arith
    then show "ends_in p' (n - Suc (interactions s evs))" using \<open>ends_in p' k\<close> by simp
  qed
  have cls: "sy_clients sy' = (sy_clients sy)[s := client_after (sy_clients sy ! s) p' c]"
    by (simp add: sy' system_after_def)
  show ?thesis
    using assms(1) mine s(1) unfolding paced_def Interacts cls by (auto simp: nth_list_update)
qed

lemma paced_schedule:
  assumes "\<And>req. ends_in (serve_request D U req) n"
  shows "schedule D U evs sy = Some sy' \<Longrightarrow> paced n evs0 sy \<Longrightarrow> paced n (evs0 @ evs) sy'"
proof (induction evs arbitrary: sy evs0)
  case (Cons e evs)
  then obtain sy1 where e: "event_step D U e sy = Some sy1" "schedule D U evs sy1 = Some sy'"
    by (auto split: option.splits)
  from Cons.IH [OF e(2) paced_step [OF Cons.prems(2) e(1) assms]] show ?case by simp
qed simp

text \<open>An interaction whose connection fails claims nothing new, so nobody makes it wait.\<close>

lemma broken_statement:
  assumes "statement D U q stmt w = (r, w')" and "script w = [ConnError msg]"
  shows "txn w' = (if q = Tx then map_option (\<lambda>t. t\<lparr>tx_failed := True\<rparr>) (txn w) else txn w)"
  using assms by (auto simp: statement_def next_fault_def mark_failed_def split: if_splits)

lemma broken_call:
  assumes "on_statement q stmt f (conn_of sy cl now [ConnError msg]) = (r, c)"
    and f: "\<And>w a w'. f w = (a, w') \<Longrightarrow> \<exists>b. statement D U q stmt w = (b, w')"
  shows "set (conn_claims c) \<subseteq> set (client_claims cl)"
proof -
  let ?c = "conn_of sy cl now [ConnError msg]"
  obtain w' where w': "f (cn_world ?c) = (r, w')" "cn_world c = w'"
    and locked: "cn_locked c = cl_locked cl @ (if q = Tx then locked_rows stmt (view (cn_world ?c)) else [])"
    using assms(1) by (auto simp: on_statement_def split: prod.splits)
  obtain b where "statement D U q stmt (cn_world ?c) = (b, w')" using f [OF w'(1)] by blast
  from broken_statement [OF this] have "txn w' = (if q = Tx then map_option (\<lambda>t. t\<lparr>tx_failed := True\<rparr>) (cl_txn cl) else cl_txn cl)"
    by (simp add: conn_of_def)
  then show ?thesis
    by (cases "cl_txn cl") (auto simp: conn_claims_def client_claims_def txn_claims_def w'(2) locked)
qed

lemma broken_transaction:
  assumes "on_transaction f (conn_of sy cl now [ConnError msg]) = (r, c)"
    and f: "\<And>w w'. f w = (r, w') \<Longrightarrow> script w = [ConnError msg] \<Longrightarrow> txn w' = None \<or> txn w' = txn w"
  shows "set (conn_claims c) \<subseteq> set (client_claims cl)"
proof -
  obtain w' where w': "f (cn_world (conn_of sy cl now [ConnError msg])) = (r, w')" "cn_world c = w'" "cn_locked c = []"
    using assms(1) by (auto simp: on_transaction_def split: prod.splits)
  from f [OF w'(1)] have "txn (cn_world c) = None \<or> txn (cn_world c) = cl_txn cl"
    unfolding w'(2) by (simp add: conn_of_def)
  then show ?thesis
    using w'(3) by (cases "cl_txn cl") (auto simp: conn_claims_def client_claims_def txn_claims_def)
qed

lemma broken_interaction:
  fixes D :: "'d decimal_ops"
  assumes "\<not> returned p" and "prog_step (session D U) p (conn_of sy cl now [ConnError msg]) = (p', c)"
  shows "set (conn_claims c) \<subseteq> set (client_claims cl)"
proof (cases p)
  case (DoExec q s k)
  with assms(2) obtain r where "on_statement q s (pg_exec D U q s) (conn_of sy cl now [ConnError msg]) = (r, c)"
    by (auto simp: session_sel split: prod.splits)
  then show ?thesis by (rule broken_call) (auto simp: pg_exec_def split: prod.splits)
next
  case (DoQuery q s k)
  with assms(2) obtain r :: "go_error + 'd rows" where "on_statement q s (pg_query D U q s) (conn_of sy cl now [ConnError msg]) = (r, c)"
    by (auto simp: session_sel split: prod.splits)
  then show ?thesis by (rule broken_call) (auto simp: pg_query_def split: prod.splits)
next
  case (DoQueryRow q s k)
  with assms(2) obtain r where "on_statement q s (pg_query_row D U q s) (conn_of sy cl now [ConnError msg]) = (r, c)"
    by (auto simp: session_sel split: prod.splits)
  then show ?thesis by (rule broken_call) (auto simp: pg_query_row_def split: prod.splits)
next
  case (DoBegin k)
  with assms(2) obtain r where "on_transaction pg_begin (conn_of sy cl now [ConnError msg]) = (r, c)"
    by (auto simp: session_sel split: prod.splits)
  then show ?thesis by (rule broken_transaction) (auto simp: pg_begin_def next_fault_def)
next
  case (DoCommit k)
  with assms(2) obtain r where "on_transaction pg_commit (conn_of sy cl now [ConnError msg]) = (r, c)"
    by (auto simp: session_sel split: prod.splits)
  then show ?thesis by (rule broken_transaction) (auto simp: pg_commit_def next_fault_def Let_def split: option.splits)
next
  case (DoRollback k)
  with assms(2) obtain b where "on_transaction pg_rollback (conn_of sy cl now [ConnError msg]) = (b, c)"
    by (auto simp: session_sel split: prod.splits)
  then show ?thesis by (rule broken_transaction) (auto simp: pg_rollback_def split: if_splits)
qed (use assms(1) in simp)

text \<open>No two clients claim the same.\<close>

definition claims_apart :: "('d, 'u) system \<Rightarrow> bool" where
  "claims_apart sy \<longleftrightarrow>
     (\<forall>s < length (sy_clients sy). \<not> blocked s (client_claims (sy_clients sy ! s)) (sy_clients sy))"

lemma claims_apart_iff: "claims_apart sy \<longleftrightarrow>
    (\<forall>i < length (sy_clients sy). \<forall>j < length (sy_clients sy). j \<noteq> i \<longrightarrow>
       set (client_claims (sy_clients sy ! i)) \<inter> set (client_claims (sy_clients sy ! j)) = {})"
  by (auto simp: claims_apart_def blocked_iff)

lemma claims_apart_step: "event_step D U e sy = Some sy' \<Longrightarrow> claims_apart sy \<Longrightarrow> claims_apart sy'"
proof (cases e)
  case (Arrives req)
  assume "event_step D U e sy = Some sy'" and "claims_apart sy"
  then show ?thesis unfolding claims_apart_iff Arrives
    by (auto simp: nth_append less_Suc_eq) blast
next
  case (Interacts s now f)
  assume e: "event_step D U e sy = Some sy'" and apart: "claims_apart sy"
  obtain p' c where "prog_step (session D U) (cl_prog (sy_clients sy ! s))
      (conn_of sy (sy_clients sy ! s) now [f]) = (p', c)" by fastforce
  with e Interacts have s: "s < length (sy_clients sy)" "\<not> blocked s (conn_claims c) (sy_clients sy)"
    and sy': "sy_clients sy' = (sy_clients sy)[s := client_after (sy_clients sy ! s) p' c]"
    by (auto simp: system_after_def split: if_splits)
  show ?thesis
    unfolding claims_apart_iff
  proof (intro allI impI)
    fix i j
    assume ij: "i < length (sy_clients sy')" "j < length (sy_clients sy')" "j \<noteq> i"
    have new: "set (conn_claims c) \<inter> set (client_claims (sy_clients sy ! k)) = {}" if "k < length (sy_clients sy)" "k \<noteq> s" for k
      using s(2) that unfolding blocked_iff by blast
    show "set (client_claims (sy_clients sy' ! i)) \<inter> set (client_claims (sy_clients sy' ! j)) = {}"
      using new [of i] new [of j] apart ij s(1) unfolding claims_apart_iff sy'
      by (cases "i = s"; cases "j = s") (simp_all add: Int_commute)
  qed
qed

lemma claims_apart_schedule: "schedule D U evs sy = Some sy' \<Longrightarrow> claims_apart sy \<Longrightarrow> claims_apart sy'"
  by (induction evs arbitrary: sy) (auto dest: claims_apart_step split: option.splits)

text \<open>Every client can be brought to its reply, by connections that break if need be.\<close>

lemma can_reply:
  "claims_apart sy \<Longrightarrow> s < length (sy_clients sy) \<Longrightarrow> ends_in (cl_prog (sy_clients sy ! s)) n \<Longrightarrow>
     \<exists>evs sy'. length evs \<le> n \<and> list_all (interacts_as s) evs \<and> schedule D U evs sy = Some sy' \<and> returned (cl_prog (sy_clients sy' ! s))"
proof (induction n arbitrary: sy)
  case 0
  then have "returned (cl_prog (sy_clients sy ! s))" by (simp add: ends_in_0)
  then show ?case by (intro exI [of _ "[]"] exI [of _ sy]) simp
next
  case (Suc n)
  let ?p = "cl_prog (sy_clients sy ! s)"
  show ?case
  proof (cases "returned ?p")
    case True
    then show ?thesis by (intro exI [of _ "[]"] exI [of _ sy]) simp
  next
    case False
    obtain p' c where st: "prog_step (session D U) ?p
        (conn_of sy (sy_clients sy ! s) 0 [ConnError '''']) = (p', c)" by fastforce
    from broken_interaction [OF False st] have "\<not> blocked s (conn_claims c) (sy_clients sy)"
      using Suc.prems(1,2) unfolding claims_apart_def blocked_iff by blast
    with st False Suc.prems(2) have e: "event_step D U (Interacts s 0 (ConnError '''')) sy = Some (system_after s p' c sy)"
      by simp
    let ?sy = "system_after s p' c sy"
    have "s < length (sy_clients ?sy)" "cl_prog (sy_clients ?sy ! s) = p'"
      using Suc.prems(2) by (simp_all add: system_after_def)
    with Suc.IH [OF claims_apart_step [OF e Suc.prems(1)]] ends_in_step [OF Suc.prems(3) False st]
    obtain evs sy' where "length evs \<le> n" "list_all (interacts_as s) evs" "schedule D U evs ?sy = Some sy'" "returned (cl_prog (sy_clients sy' ! s))"
      by auto
    with e show ?thesis
      by (intro exI [of _ "Interacts s 0 (ConnError '''') # evs"] exI [of _ sy']) simp
  qed
qed

end
