(* ===== verification/Concurrent_Properties.thy ===== *)
theory Concurrent_Properties
  imports Sequential_Schedules Request_Length Samples Reconciliation
begin

text \<open>
  The properties of the service under concurrent requests, with a race of two clients that send the
  same key as their witness.
\<close>

subsection \<open>A race\<close>

text \<open>
  Two clients send the sample command. Both look the key up and find nothing; then the first takes the
  rows, posts and commits, and the second, which waited for the rows, runs into the unique index, rolls
  back and answers with the payment of the first.
\<close>

definition race_start :: "refdec event list" where
  "race_start =
     [Arrives (TransferRequest sample_cmd), Arrives (TransferRequest sample_cmd)] @
     map (\<lambda>s. Interacts s 9 NoFault) ([0, 1, 0, 1] @ replicate 8 0)"

definition race_finish :: "refdec event list" where
  "race_finish = map (\<lambda>s. Interacts s 9 NoFault) (replicate 6 1)"

definition quiet_sample :: "(refdec, nat list) system" where
  "quiet_sample = quiet_system (committed sample_world) (seqs sample_world)"

definition race_middle_system :: "(refdec, nat list) system" where
  "race_middle_system = the (schedule ref_decimal ref_uuid race_start quiet_sample)"

definition race_end_system :: "(refdec, nat list) system" where
  "race_end_system = the (schedule ref_decimal ref_uuid (race_start @ race_finish) quiet_sample)"

lemma schedule_append:
  "schedule D U (evs @ evs') sy = Option.bind (schedule D U evs sy) (schedule D U evs')"
  by (induction evs arbitrary: sy) (auto split: option.split)

lemma race_evaluated:
  "case schedule ref_decimal ref_uuid (race_start @ race_finish) quiet_sample of
     None \<Rightarrow> False
   | Some sy \<Rightarrow>
       map cl_request (sy_clients sy) = [TransferRequest sample_cmd, TransferRequest sample_cmd] \<and>
       map (\<lambda>cl. length (cl_done cl)) (sy_clients sy) = [1, 0] \<and>
       map (\<lambda>cl. case cl_prog cl of Return (TransferReply (Inr t)) \<Rightarrow> Some (tr_ID t) | _ \<Rightarrow> None)
         (sy_clients sy) = [Some 1, Some 1] \<and>
       map ar_balance (accounts (sy_tables sy)) = [69500000000000000000, 30500000000000000000]"
  by code_simp

lemma race_whole: "schedule ref_decimal ref_uuid (race_start @ race_finish) quiet_sample = Some race_end_system"
  using race_evaluated by (cases "schedule ref_decimal ref_uuid (race_start @ race_finish) quiet_sample")
    (simp_all add: race_end_system_def)

lemma race_middle: "schedule ref_decimal ref_uuid race_start quiet_sample = Some race_middle_system"
  using race_whole by (cases "schedule ref_decimal ref_uuid race_start quiet_sample")
    (simp_all add: race_middle_system_def schedule_append)

lemma race_end: "schedule ref_decimal ref_uuid race_finish race_middle_system = Some race_end_system"
  using race_whole by (simp add: schedule_append race_middle)

lemmas race_shows = race_evaluated [unfolded race_whole option.case]

lemma race_clients:
  "map cl_request (sy_clients race_end_system) = [TransferRequest sample_cmd, TransferRequest sample_cmd]"
  "map (\<lambda>cl. length (cl_done cl)) (sy_clients race_end_system) = [1, 0]"
  "map (\<lambda>cl. case cl_prog cl of Return (TransferReply (Inr t)) \<Rightarrow> Some (tr_ID t) | _ \<Rightarrow> None)
     (sy_clients race_end_system) = [Some 1, Some 1]"
  "map ar_balance (accounts (sy_tables race_end_system)) = [69500000000000000000, 30500000000000000000]"
  using race_shows by blast+

text \<open>The second client cannot take the rows while the first one has them.\<close>

lemma race_waits:
  "case schedule ref_decimal ref_uuid (take 7 race_start) quiet_sample of
     None \<Rightarrow> False
   | Some sy \<Rightarrow> map (\<lambda>cl. cl_locked cl) (sy_clients sy) = [[1, 2], []] \<and>
       (case event_step ref_decimal ref_uuid (Interacts 1 9 NoFault) sy of None \<Rightarrow> True | Some _ \<Rightarrow> False)"
  by code_simp

lemma sample_tables: "tables_ok (committed sample_world) (seqs sample_world)"
  "ledger_ok (abs_ledger (committed sample_world))"
  using sample_books_ok by (simp_all add: books_ok_def pg_idle_def settled_ledger_def)

subsection \<open>Keys\<close>

lemma distinct_filter_one:
  "distinct (filter (\<lambda>k. k \<noteq> None) (map f xs)) \<Longrightarrow> length (filter (\<lambda>x. f x = Some k) xs) \<le> 1"
proof (induction xs)
  case (Cons x xs)
  show ?case
  proof (cases "f x = Some k")
    case True
    then have "Some k \<notin> f ` set xs" using Cons.prems by auto
    then have "filter (\<lambda>x. f x = Some k) xs = []" by (force simp: filter_empty_conv)
    with True show ?thesis by simp
  next
    case False
    with Cons show ?thesis by (auto split: if_splits)
  qed
qed simp

lemma payments_per_key:
  assumes "tables_ok t sq"
  shows "length (filter (\<lambda>p. pay_key p = Some k) (payments (abs_ledger t))) \<le> 1"
proof -
  have "filter (\<lambda>k. k \<noteq> None) (map pay_key (payments (abs_ledger t))) = stored_keys (transfers t)"
    by (simp add: stored_keys_def payment_of_row_def comp_def)
  then show ?thesis
    using distinct_filter_one [of pay_key "payments (abs_ledger t)" k] assms
    by (simp add: tables_ok_def transfers_ok_def)
qed

lemma filter_two:
  assumes "x \<in> set xs" and "y \<in> set xs" and "x \<noteq> y" and "P x" and "P y"
  shows "2 \<le> length (filter P xs)"
proof -
  have "card {x, y} \<le> card (set (filter P xs))" by (rule card_mono) (use assms in auto)
  also have "\<dots> \<le> length (filter P xs)" by (rule card_length)
  finally show ?thesis using assms(3) by simp
qed

fun pays_key :: "'k \<Rightarrow> 'k effect \<Rightarrow> bool" where
  "pays_key k (Paid p) \<longleftrightarrow> pay_key p = Some k"
| "pays_key k (Opened i n) \<longleftrightarrow> False"

lemma moves_payments:
  "moves es L L' \<Longrightarrow> length (filter (pays_key k) es) \<le> length (filter (\<lambda>p. pay_key p = Some k) (payments L'))"
proof -
  have "moves es L L' \<Longrightarrow> length (filter (pays_key k) es) + length (filter (\<lambda>p. pay_key p = Some k) (payments L)) =
      length (filter (\<lambda>p. pay_key p = Some k) (payments L'))"
  proof (induction es arbitrary: L)
    case (Cons e es)
    then obtain L1 where L1: "effect_step e L L1" "moves es L1 L'" by auto
    have "length (filter (\<lambda>p. pay_key p = Some k) (payments L1)) =
        (if pays_key k e then 1 else 0) + length (filter (\<lambda>p. pay_key p = Some k) (payments L))"
      using L1(1) by (cases e) (auto simp: payment_posted_def open_account_def)
    with Cons.IH [OF L1(2)] show ?case by (cases "pays_key k e") simp_all
  qed simp
  then show "moves es L L' \<Longrightarrow> ?thesis" by simp
qed

lemma one_effect_per_key:
  assumes ok: "system_ok D U L0 hist sy" and ij: "i < length (sy_clients sy)" "j < length (sy_clients sy)" "i \<noteq> j"
    and e: "e \<in> set (cl_done (sy_clients sy ! i))" "pays_key k e"
    and e': "e' \<in> set (cl_done (sy_clients sy ! j))" "pays_key k e'"
  shows False
proof -
  have effects: "effects_of s hist = cl_done (sy_clients sy ! s)" if "s < length (sy_clients sy)" for s
    using ok that unfolding system_ok_def by blast
  have hist: "(s, x) \<in> set hist" if "x \<in> set (effects_of s hist)" for s x
    using that by (auto simp: effects_of_def)
  have "2 \<le> length (filter (\<lambda>h. pays_key k (snd h)) hist)"
    by (rule filter_two [of "(i, e)" _ "(j, e')"]) (use hist effects ij e e' in auto)
  also have "\<dots> = length (filter (pays_key k) (map snd hist))" by (simp add: filter_map comp_def)
  also have "\<dots> \<le> length (filter (\<lambda>p. pay_key p = Some k) (payments (abs_ledger (sy_tables sy))))"
    by (rule moves_payments [where L = L0]) (use ok in \<open>simp only: system_ok_def\<close>)
  also have "\<dots> \<le> 1" by (rule payments_per_key [OF system_tables(1) [OF ok]])
  finally show False by simp
qed

section \<open>Concurrent requests\<close>

text \<open>C1: Concurrent requests are strictly serialisable. However the database interactions of any number of
  requests interleave, and whatever fails at any of them, the committed ledger is the result of the
  specification applied to the requests that had an effect, one after another, each once and with an
  effect that it asked for; and what the system does later only appends to that order, so a request
  that was answered before another one arrived stands before it.\<close>

theorem interleavings_are_serialisable:
  assumes "decimal_laws D" and "uuid_laws U" and "tables_ok t sq"
    and "schedule D U evs (quiet_system t sq) = Some sy" and "schedule D U evs' sy = Some sy'"
  shows "\<exists>hist hist'. serial_history D U (abs_ledger t) hist sy \<and>
    serial_history D U (abs_ledger t) (hist @ hist') sy'"
proof -
  note pg = postgresI [OF assms(1,2)]
  obtain hist where ok: "system_ok D U (abs_ledger t) hist sy"
    by (rule postgres.quiet_schedule [OF pg assms(3,4)])
  with postgres.schedule_ok [OF pg assms(5)] obtain hist' where "system_ok D U (abs_ledger t) (hist @ hist') sy'"
    by blast
  with ok show ?thesis using system_history by blast
qed

text \<open>The race: only the first client's request had an effect, and the ledger is that of its payment alone.\<close>

theorem interleavings_are_serialisable_witness:
  "\<exists>p. serially [Paid p] (abs_ledger (committed sample_world)) = Some (abs_ledger (sy_tables race_end_system)) \<and>
     cl_done (sy_clients race_end_system ! 0) = [Paid p] \<and>
     request_effect ref_decimal ref_uuid (TransferRequest sample_cmd) (Paid p)"
proof -
  let ?sy = race_end_system
  from interleavings_are_serialisable [OF ref_laws sample_tables(1) race_middle [unfolded quiet_sample_def] race_end]
  obtain hist where hist: "serial_history ref_decimal ref_uuid (abs_ledger (committed sample_world)) hist ?sy"
    by blast
  have two: "length (sy_clients ?sy) = 2" using arg_cong [OF race_clients(1), of length] by simp
  then obtain cl cl' where cls: "sy_clients ?sy = [cl, cl']"
    by (auto simp: length_Suc_conv numeral_2_eq_2)
  with race_clients(2) have len: "length (cl_done cl) = 1" "cl_done cl' = []" by simp_all
  then obtain e where e: "cl_done cl = [e]" by (auto simp: length_Suc_conv)
  have of: "effects_of 0 hist = [e]" "effects_of 1 hist = []"
    and range: "\<And>i x. (i, x) \<in> set hist \<Longrightarrow> i < 2 \<and> request_effect ref_decimal ref_uuid (cl_request ([cl, cl'] ! i)) x"
    using hist e len(2) two by (auto simp: serial_history_def cls All_less_Suc numeral_2_eq_2)
  have "i = 0" if "(i, x) \<in> set hist" for i x
    using range [OF that] of(2) that by (auto simp: effects_of_def filter_empty_conv less_Suc_eq numeral_2_eq_2)
  then have "filter (\<lambda>h. fst h = 0) hist = hist" by (auto simp: filter_id_conv)
  with of(1) have snd: "map snd hist = [e]" by (simp add: effects_of_def)
  then have "(0, e) \<in> set hist" using \<open>\<And>x i. (i, x) \<in> set hist \<Longrightarrow> i = 0\<close> by (cases hist) auto
  with range have eff: "request_effect ref_decimal ref_uuid (TransferRequest sample_cmd) e"
    using race_clients(1) by (force simp: cls)
  then obtain p where "e = Paid p" by (cases e) simp_all
  with snd eff hist e show ?thesis by (auto simp: serial_history_def cls)
qed


lemma race_clients_nth:
  assumes "s < 2"
  shows "s < length (sy_clients race_end_system)"
    and "cl_request (sy_clients race_end_system ! s) = TransferRequest sample_cmd"
    and "\<exists>t. cl_prog (sy_clients race_end_system ! s) = Return (TransferReply (Inr t)) \<and> tr_ID t = 1"
    and "length (cl_done (sy_clients race_end_system ! s)) = 1 - s"
proof -
  have two: "length (sy_clients race_end_system) = 2" using arg_cong [OF race_clients(1), of length] by simp
  with assms show l: "s < length (sy_clients race_end_system)" by simp
  have s: "s = 0 \<or> s = 1" using assms by auto
  show "cl_request (sy_clients race_end_system ! s) = TransferRequest sample_cmd"
    using arg_cong [OF race_clients(1), of "\<lambda>xs. xs ! s"] nth_map [OF l, of cl_request] s by auto
  have "(case cl_prog (sy_clients race_end_system ! s) of Return (TransferReply (Inr t)) \<Rightarrow> Some (tr_ID t) | _ \<Rightarrow> None) = Some 1"
    using arg_cong [OF race_clients(3), of "\<lambda>xs. xs ! s"] s l by auto
  then show "\<exists>t. cl_prog (sy_clients race_end_system ! s) = Return (TransferReply (Inr t)) \<and> tr_ID t = 1"
    by (auto split: prog.splits reply.splits sum.splits)
  show "length (cl_done (sy_clients race_end_system ! s)) = 1 - s"
    using arg_cong [OF race_clients(2), of "\<lambda>xs. xs ! s"] s l by auto
qed


text \<open>C3: Requests that race with one idempotency key pay once. When two concurrent transfers with the same
  key are both answered with a transfer, whatever the interleaving and the failures, they are answered
  with the same transaction id, one of them at least moved nothing, and the committed ledger holds
  exactly one payment with that key.\<close>

theorem racing_requests_pay_once:
  assumes "decimal_laws D" and "uuid_laws U" and "tables_ok t sq"
    and "schedule D U evs (quiet_system t sq) = Some sy"
    and "i < length (sy_clients sy)" and "j < length (sy_clients sy)" and "i \<noteq> j"
    and "cl_request (sy_clients sy ! i) = TransferRequest cmd" and "cl_request (sy_clients sy ! j) = TransferRequest cmd'"
    and "requested_key U cmd = Some (Some k)" and "requested_key U cmd' = Some (Some k)"
    and "cl_prog (sy_clients sy ! i) = Return (TransferReply (Inr x))"
    and "cl_prog (sy_clients sy ! j) = Return (TransferReply (Inr y))"
  shows "tr_ID x = tr_ID y \<and> (cl_done (sy_clients sy ! i) = [] \<or> cl_done (sy_clients sy ! j) = []) \<and>
    length (filter (\<lambda>p. pay_key p = Some k) (payments (abs_ledger (sy_tables sy)))) = 1"
proof -
  let ?L = "abs_ledger (sy_tables sy)"
  obtain hist where ok: "system_ok D U (abs_ledger t) hist sy"
    by (rule postgres.quiet_schedule [OF postgresI [OF assms(1,2)] assms(3,4)])
  have post: "transfer_post D U cmd x (cl_done (sy_clients sy ! i)) ?L" "transfer_post D U cmd' y (cl_done (sy_clients sy ! j)) ?L"
    using system_client(2) [OF ok assms(5,12)] system_client(2) [OF ok assms(6,13)] assms(8,9) by simp_all
  obtain p where p: "p \<in> set (payments ?L)" "pay_key p = Some k" "tr_ID x = pay_id p"
    "cl_done (sy_clients sy ! i) = [Paid p] \<or> cl_done (sy_clients sy ! i) = []"
    using post(1) assms(10) by (auto simp: transfer_post_def transfer_denotes_def)
  obtain q where q: "q \<in> set (payments ?L)" "pay_key q = Some k" "tr_ID y = pay_id q"
    "cl_done (sy_clients sy ! j) = [Paid q] \<or> cl_done (sy_clients sy ! j) = []"
    using post(2) assms(11) by (auto simp: transfer_post_def transfer_denotes_def)
  have "p = q"
    using filter_two [OF p(1) q(1), of "\<lambda>p. pay_key p = Some k"] p(2) q(2)
      payments_per_key [OF system_tables(1) [OF ok], of k] by fastforce
  moreover have "cl_done (sy_clients sy ! i) = [] \<or> cl_done (sy_clients sy ! j) = []"
    using one_effect_per_key [OF ok assms(5,6,7), of "Paid p" k "Paid q"] p q by auto
  moreover have "0 < length (filter (\<lambda>p. pay_key p = Some k) (payments ?L))"
    by (rule length_pos_if_in_set [of p]) (use p in simp)
  then have "length (filter (\<lambda>p. pay_key p = Some k) (payments ?L)) = 1"
    using payments_per_key [OF system_tables(1) [OF ok], of k] by linarith
  ultimately show ?thesis using p(3) q(3) by (intro conjI) (simp only:, assumption, assumption)
qed

theorem racing_requests_pay_once_witness:
  "\<exists>k. requested_key ref_uuid sample_cmd = Some (Some k) \<and>
     length (filter (\<lambda>p. pay_key p = Some k) (payments (abs_ledger (sy_tables race_end_system)))) = 1"
proof -
  have s: "(0 :: nat) < 2" "(1 :: nat) < 2" by simp_all
  note c0 = race_clients_nth [OF s(1)] and c1 = race_clients_nth [OF s(2)]
  have "case requested_key ref_uuid sample_cmd of Some (Some k) \<Rightarrow> True | _ \<Rightarrow> False" by code_simp
  then obtain k where k: "requested_key ref_uuid sample_cmd = Some (Some k)" by (auto split: option.splits)
  obtain x y where "cl_prog (sy_clients race_end_system ! 0) = Return (TransferReply (Inr x))"
    "cl_prog (sy_clients race_end_system ! 1) = Return (TransferReply (Inr y))" using c0(3) c1(3) by blast
  from racing_requests_pay_once [OF ref_laws sample_tables(1) race_whole [unfolded quiet_sample_def] c0(1) c1(1) _
      c0(2) c1(2) k k this] k show ?thesis by auto
qed

text \<open>C4: The books balance at every moment of every interleaving. From a database whose books are in order,
  whatever requests come and wherever each of them stands or fails, the committed rows are well formed,
  no balance is negative, the balances add up to the deposits, debits, credits and the recorded
  balances agree, the audit script finds nothing, and no committed record is ever lost or changed.\<close>

theorem concurrent_books_balance:
  assumes "decimal_laws D" and "uuid_laws U" and "tables_ok t sq" and "ledger_ok (abs_ledger t)"
    and "schedule D U evs (quiet_system t sq) = Some sy"
  shows "tables_ok (sy_tables sy) (sy_seqs sy) \<and> ledger_ok (abs_ledger (sy_tables sy)) \<and>
    audit_database (sy_tables sy) \<and> ledger_extends (abs_ledger t) (abs_ledger (sy_tables sy))"
proof -
  obtain hist where "system_ok D U (abs_ledger t) hist sy"
    by (rule postgres.quiet_schedule [OF postgresI [OF assms(1,2)] assms(3,5)])
  note tables = system_tables [OF this] and ledger = system_tables(2) [OF this assms(4)]
  from audit_passes [OF tables(1)] tables(1) ledger show ?thesis by blast
qed

theorem concurrent_books_balance_witness:
  "audit_database (sy_tables race_end_system) \<and> nonnegative (abs_ledger (sy_tables race_end_system)) \<and>
   map ar_balance (accounts (sy_tables race_end_system)) = [69500000000000000000, 30500000000000000000]"
  using concurrent_books_balance [OF ref_laws sample_tables race_whole [unfolded quiet_sample_def]] race_clients(4)
  by (simp add: ledger_ok_def)



text \<open>C6: Every request ends. Whatever other requests do and whatever fails, a request has its reply after at
  most 31 interactions with the database: ten in each of the three attempts of a transfer and one for
  the lookup after a lost race. And none is ever stuck: from every state that a schedule reaches, each
  client can be brought to its reply by its own interactions alone, within what is left of the 31,
  because an interaction whose connection breaks waits for nobody.\<close>

theorem requests_end:
  assumes "schedule D U evs (quiet_system t sq) = Some sy" and "s < length (sy_clients sy)"
  shows "interactions s evs \<le> 31 \<and>
    (interactions s evs = 31 \<longrightarrow> returned (cl_prog (sy_clients sy ! s))) \<and>
    (\<exists>evs' sy'. length evs' \<le> 31 - interactions s evs \<and> list_all (interacts_as s) evs' \<and>
       schedule D U evs' sy = Some sy' \<and> returned (cl_prog (sy_clients sy' ! s)))"
proof -
  let ?n = "interactions s evs"
  have "paced 31 evs sy"
    using paced_schedule [OF ends_in_serve_request assms(1), of "[]"] by (simp add: paced_def quiet_system_def)
  then have n: "?n \<le> 31" "ends_in (cl_prog (sy_clients sy ! s)) (31 - ?n)"
    using assms(2) by (simp_all add: paced_def)
  have "claims_apart sy"
    by (rule claims_apart_schedule [OF assms(1)]) (simp add: claims_apart_iff quiet_system_def)
  from can_reply [OF this assms(2) n(2)] n show ?thesis
    using ends_in_0 [of "cl_prog (sy_clients sy ! s)"] by auto
qed

text \<open>The second client of the race waits for the first one's rows after two interactions.\<close>

theorem requests_end_witness:
  "\<exists>evs' sy'. length evs' \<le> 29 \<and> list_all (interacts_as 1) evs' \<and>
     schedule ref_decimal ref_uuid evs' race_middle_system = Some sy' \<and> returned (cl_prog (sy_clients sy' ! 1))"
proof -
  have n: "interactions 1 race_start = 2" by code_simp
  have "1 < length (sy_clients race_middle_system)"
  proof -
    have "case schedule ref_decimal ref_uuid race_start quiet_sample of None \<Rightarrow> False | Some sy \<Rightarrow> length (sy_clients sy) = 2"
      by code_simp
    then show ?thesis by (simp add: race_middle)
  qed
  from requests_end [OF race_middle [unfolded quiet_sample_def] this] show ?thesis unfolding n by simp
qed

end
