(* ===== verification/Schema_Scripts.thy ===== *)
theory Schema_Scripts
  imports Main
begin

text \<open>
  The migration scripts \<open>migrations/0001_init.up.sql\<close> and \<open>0001_init.down.sql\<close> on the catalog of the
  database: which tables exist, which tables their foreign keys refer to, and which indexes exist.
  The server applies the up script at every start (\<open>Migrate\<close>), so it has to be repeatable; a script
  is sent as one command, so it takes effect as a whole or not at all.
\<close>

subsection \<open>The catalog\<close>

record catalog =
  ct_tables :: "(string \<times> string list) list"
  ct_indexes :: "(string \<times> string) list"

definition has_table :: "catalog \<Rightarrow> string \<Rightarrow> bool" where
  "has_table c n = (n \<in> fst ` set (ct_tables c))"

definition has_index :: "catalog \<Rightarrow> string \<Rightarrow> bool" where
  "has_index c i = (i \<in> fst ` set (ct_indexes c))"

text \<open>\<open>CREATE TABLE IF NOT EXISTS\<close> with the tables it references, \<open>CREATE INDEX IF NOT EXISTS\<close> (unique or
  not) on a table, and \<open>DROP TABLE IF EXISTS\<close>, which refuses to drop a table that another one
  references and takes the indexes of a dropped table with it.\<close>

datatype ddl = CreateTable string "string list" | CreateIndex string string | DropTable string

datatype ddl_error = UndefinedTable string | DependentObjects string

fun ddl_step :: "ddl \<Rightarrow> catalog \<Rightarrow> ddl_error + catalog" where
  "ddl_step (CreateTable n refs) c =
     (if has_table c n then Inr c
      else case filter (\<lambda>r. r \<noteq> n \<and> \<not> has_table c r) refs of
        r # _ \<Rightarrow> Inl (UndefinedTable r)
      | [] \<Rightarrow> Inr (c\<lparr>ct_tables := ct_tables c @ [(n, refs)]\<rparr>))"
| "ddl_step (CreateIndex i n) c =
     (if has_index c i then Inr c
      else if \<not> has_table c n then Inl (UndefinedTable n)
      else Inr (c\<lparr>ct_indexes := ct_indexes c @ [(i, n)]\<rparr>))"
| "ddl_step (DropTable n) c =
     (if \<not> has_table c n then Inr c
      else if list_ex (\<lambda>(t, refs). t \<noteq> n \<and> n \<in> set refs) (ct_tables c) then Inl (DependentObjects n)
      else Inr \<lparr>ct_tables = filter (\<lambda>t. fst t \<noteq> n) (ct_tables c),
                ct_indexes = filter (\<lambda>i. snd i \<noteq> n) (ct_indexes c)\<rparr>)"

fun run_ddl :: "ddl list \<Rightarrow> catalog \<Rightarrow> ddl_error + catalog" where
  "run_ddl [] c = Inr c"
| "run_ddl (s # ss) c = (case ddl_step s c of Inl e \<Rightarrow> Inl e | Inr c' \<Rightarrow> run_ddl ss c')"

text \<open>A script as one command: the catalog afterwards, with the error if there was one.\<close>

definition run_script :: "ddl list \<Rightarrow> catalog \<Rightarrow> ddl_error option \<times> catalog" where
  "run_script script c = (case run_ddl script c of Inl e \<Rightarrow> (Some e, c) | Inr c' \<Rightarrow> (None, c'))"

subsection \<open>The scripts\<close>

definition up_script :: "ddl list" where
  "up_script =
     [CreateTable ''accounts'' [],
      CreateTable ''deposits'' [''accounts''],
      CreateTable ''transfers'' [''accounts'', ''accounts''],
      CreateIndex ''uq_transfers_idempotency_key'' ''transfers'',
      CreateIndex ''idx_transfers_source'' ''transfers'',
      CreateIndex ''idx_transfers_destination'' ''transfers'',
      CreateTable ''ledger_entries'' [''transfers'', ''accounts''],
      CreateIndex ''idx_ledger_account'' ''ledger_entries'',
      CreateIndex ''idx_ledger_transfer'' ''ledger_entries'']"

definition down_script :: "ddl list" where
  "down_script = [DropTable ''ledger_entries'', DropTable ''transfers'', DropTable ''accounts'']"

definition empty_catalog :: catalog where
  "empty_catalog = \<lparr>ct_tables = [], ct_indexes = []\<rparr>"

subsection \<open>The up script can be repeated\<close>

text \<open>What a statement that only creates leaves behind, it and every later creation keep.\<close>

fun creates :: "ddl \<Rightarrow> bool" where
  "creates (DropTable n) = False"
| "creates _ = True"

fun created :: "ddl \<Rightarrow> catalog \<Rightarrow> bool" where
  "created (CreateTable n refs) c = has_table c n"
| "created (CreateIndex i n) c = has_index c i"
| "created (DropTable n) c = (\<not> has_table c n)"

lemma created_step: "created s c \<Longrightarrow> ddl_step s c = Inr c"
  by (cases s) simp_all

lemma step_creates:
  assumes "creates s" and "ddl_step s c = Inr c'"
  shows "created s c'" and "creates s0 \<Longrightarrow> created s0 c \<Longrightarrow> created s0 c'"
  using assms by (cases s; cases s0; auto simp: has_table_def has_index_def split: if_splits list.splits)+

lemma run_created: "list_all creates ss \<Longrightarrow> run_ddl ss c = Inr c' \<Longrightarrow> creates s0 \<Longrightarrow> created s0 c \<Longrightarrow> created s0 c'"
  by (induction ss arbitrary: c) (auto split: sum.splits dest: step_creates(2))

lemma run_creates: "list_all creates ss \<Longrightarrow> run_ddl ss c = Inr c' \<Longrightarrow> list_all (\<lambda>s. created s c') ss"
proof (induction ss arbitrary: c)
  case (Cons s ss)
  then obtain c1 where c1: "ddl_step s c = Inr c1" "run_ddl ss c1 = Inr c'" by (auto split: sum.splits)
  with Cons.prems have "created s c1" by (auto intro: step_creates(1))
  with Cons c1(2) show ?case by (auto intro: run_created)
qed simp

lemma run_again: "list_all (\<lambda>s. created s c) ss \<Longrightarrow> run_ddl ss c = Inr c"
  by (induction ss) (simp_all add: created_step)

text \<open>Whatever was in the database: once the script has been applied, applying it again does nothing.\<close>

theorem up_script_repeatable:
  assumes "run_script up_script c = (None, c')"
  shows "run_script up_script c' = (None, c')"
proof -
  have "run_ddl up_script c = Inr c'" using assms by (simp add: run_script_def split: sum.splits)
  moreover have "list_all creates up_script" by (simp add: up_script_def)
  ultimately have "run_ddl up_script c' = Inr c'" by (intro run_again run_creates)
  then show ?thesis by (simp add: run_script_def)
qed

theorem up_script_repeatable_witness:
  "\<exists>c. run_script up_script empty_catalog = (None, c) \<and> run_script up_script c = (None, c) \<and>
     map fst (ct_tables c) = [''accounts'', ''deposits'', ''transfers'', ''ledger_entries'']"
proof -
  obtain r c where c: "run_script up_script empty_catalog = (r, c)" by fastforce
  have "case run_script up_script empty_catalog of (r, c) \<Rightarrow> r = None \<and>
      map fst (ct_tables c) = [''accounts'', ''deposits'', ''transfers'', ''ledger_entries'']" by code_simp
  with c up_script_repeatable [of empty_catalog c] show ?thesis by auto
qed

subsection \<open>The down script fails\<close>

text \<open>\<open>deposits\<close> references \<open>accounts\<close> and is not dropped: on the database that the up script made, the
  down script fails and leaves everything in place.\<close>

theorem down_script_fails:
  "run_script up_script empty_catalog = (None, c) \<Longrightarrow>
     run_script down_script c = (Some (DependentObjects ''accounts''), c)"
proof -
  assume c: "run_script up_script empty_catalog = (None, c)"
  have "fst (run_script down_script (snd (run_script up_script empty_catalog))) = Some (DependentObjects ''accounts'')"
    by code_simp
  with c show ?thesis by (simp add: run_script_def split: sum.splits)
qed

end
