(* ===== verification/Spec2Isabelle.thy ===== *)
theory Spec2Isabelle
  imports Samples Http_Properties Platform_Properties Concurrent_Properties Schema_Scripts
begin

text \<open>
  Internal transfers: an HTTP service, written in Go on the Hertz framework, that opens accounts, shows
  balances and moves money between accounts in PostgreSQL. This development models the service from
  the HTTP request down to the rows of the database, and the process around it, and proves what makes
  it correct.

  \<^bold>\<open>The program.\<close> A request reaches \<open>internal/api\<close> (middlewares, handlers, error mapping), which calls
  \<open>internal/service\<close> (checks, idempotency, the transfer itself), which runs \<open>internal/repository\<close>
  (statements, transactions with retries) on the database of \<open>migrations/\<close>. \<open>internal/observability\<close>
  holds the metrics and the logger, \<open>internal/platform/postgres\<close> the pool, the query tracer and the
  migrations, \<open>internal/config\<close> the configuration, and \<open>cmd/server/main.go\<close> wires and runs it all.

  \<^bold>\<open>Theories, in the order of their layers.\<close>
  \<^item> \<open>Prelude\<close>, \<open>Go_Strings\<close> (\<open>strconv\<close>, \<open>fmt\<close>): shared lemmas and collections.
  \<^item> \<open>Domain\<close> (\<open>internal/domain\<close>): entities, and Go errors as a datatype with \<open>errors.Is\<close> and \<open>errors.As\<close>.
    \<open>Decimal\<close>, \<open>Uuid\<close>: \<open>decimal.Decimal\<close> and \<open>uuid\<close> as records of operations; the locale \<open>decimal_laws\<close>
    and the predicate \<open>uuid_laws\<close> state what their documentation promises, and reference instances
    (\<open>ref_decimal\<close>, \<open>ref_uuid\<close>) satisfy them. \<open>Money\<close> (\<open>service/money.go\<close>): the checks.
  \<^item> \<open>Querier\<close>, \<open>Repository\<close> (\<open>internal/repository\<close>): repository code is a program tree whose nodes are its
    interactions with the database (begin, commit, rollback, statements); every node has one
    continuation per answer, so every error branch of the Go code is a branch of the tree. \<open>run\<close> runs a
    tree on a handler, which is any database.
  \<^item> \<open>Schema\<close>, \<open>Database\<close>, \<open>Integrity\<close>: the tables of \<open>0001_init.up.sql\<close> with their constraints, the meaning
    of each statement on them, and the handler \<open>pg\<close>: one transaction at a time, a log of its writes that
    a commit applies, sequences that do not roll back, and a script of failures that the environment
    chooses freely for every interaction (server errors, lost connections, lost acknowledgements of
    commits).
  \<^item> \<open>Ledger_Spec\<close>: the abstract ledger (balances, deposits, payments, postings) and the specifications
    \<open>transfer_spec\<close> and \<open>open_spec\<close>. \<open>Ledger_Invariant\<close>: conservation, double entry and replay.
  \<^item> \<open>Deps\<close> (\<open>service/deps.go\<close>): the interfaces of the services as records, with their contracts as the
    locales \<open>account_store\<close>, \<open>transfer_store\<close> and \<open>tx_manager\<close> over a \<open>ledger_world\<close>.
    \<open>Account_Service\<close> and \<open>Transfer_Service\<close> prove the services once, for every provider.
    \<open>Postgres\<close>, \<open>Tx_Contract\<close>, \<open>Stores\<close>, \<open>Providers\<close>: the repositories on \<open>pg\<close> satisfy the contracts.
  \<^item> \<open>Service_System\<close>, \<open>Reconciliation\<close>, \<open>Samples\<close>: the wired services, their histories, the checks of
    \<open>audit_script.py\<close>, and concrete worlds for the witnesses.
  \<^item> \<open>Interference\<close>: programs whose database changes between their interactions, with rely/guarantee
    triples and a rule per way in which the code composes its calls. \<open>Claims\<close>, \<open>Sessions\<close>: what an open
    transaction keeps others away from (row locks, entries of unique indexes), what it can rely on and
    what it guarantees. \<open>Interleaved_Tx\<close>, \<open>Interleaved_Stores\<close>, \<open>Interleaved_Services\<close>: the transaction
    manager, the repositories and the services among other sessions. \<open>Concurrent_System\<close>: any number of
    requests at once, scheduled interaction by interaction, and the invariant of the whole system.
    \<open>Sequential_Schedules\<close>: a request scheduled alone is the sequential one. \<open>Request_Length\<close>: how many
    interactions a request can make. \<open>Concurrent_Properties\<close>.
  \<^item> \<open>Effects\<close>: Go code that changes a state and may panic. \<open>Metrics\<close> (\<open>observability/metrics.go\<close>), \<open>Http\<close>
    (\<open>api/dto.go\<close>, the request context), \<open>Api\<close> (\<open>response.go\<close>, \<open>middleware.go\<close>, the handlers), \<open>Router\<close>
    (\<open>health_handler.go\<close>, \<open>router.go\<close>). \<open>Endpoints\<close>, \<open>Public_Server\<close>, \<open>Http_System\<close>: what a handler, the
    chain around it and a running server do. \<open>Http_Samples\<close>, \<open>Http_Properties\<close>.
  \<^item> \<open>Tracer\<close> (\<open>platform/postgres/tracer.go\<close>), \<open>Url\<close> and \<open>Config\<close> (\<open>internal/config\<close>), \<open>Migrate\<close>
    (\<open>migrate.go\<close>), \<open>Platform\<close> (\<open>db.go\<close>, \<open>metrics_db.go\<close>, \<open>logger.go\<close>), \<open>Lifecycle\<close> (\<open>main.go\<close>),
    \<open>Row_Locks\<close> (the locks of concurrent transfers). \<open>Platform_Properties\<close>. \<open>Schema_Scripts\<close>: the two
    scripts of \<open>migrations/\<close> on the database's catalog.

  \<^bold>\<open>What is shown.\<close> In \<open>Concurrent_Properties\<close>, on concurrent requests: strict serialisability (C1), what
  answers mean (C2), one payment per key in a race (C3), the books at every moment (C4), agreement with
  the sequential model (C5), and the end of every request (C6). In this theory, on one request after
  another: atomicity of transfers and account creation under any failures (C7, C13), what an answer
  means (C8, C15), refinement of the specifications (C9, C14), the books in every reachable world (C10),
  idempotency (C11, C12), the round trip of an opening balance (C16), the exact range of amounts (C17),
  and the failures (C18 to C22); also the audit, the integrity of the rows, append-only records and one
  payment per key in reachable worlds, which C3 and C4 have for schedules. In \<open>Http_Properties\<close>:
  recording and truth of responses (C23, C24), refinement at the HTTP interface (C25, C29, C30), the
  books and the business metrics of a running server (C26), panics (C27) and draining (C28). In
  \<open>Platform_Properties\<close>: query labels (C31), the database URL and the configuration (C32 to C34),
  migrations (C35, C36), metrics registration (C37), start and shutdown (C38, C39) and deadlock freedom
  (C40), with lemmas on label panics and the pool. \<open>Schema_Scripts\<close>: the up script can be applied at
  every start, and the down script fails.

  \<^bold>\<open>How the proofs go.\<close> A statement's effect on the rows is abstracted to the ledger in \<open>Postgres\<close> and
  \<open>Stores\<close>, as triples: \<open>ensures\<close> (whatever fails, the transaction stays open, nothing is settled, and an
  answer comes with the postcondition), \<open>yields\<close> (where nothing fails it answers) and \<open>refuses\<close> (it
  answers an error of a kind). The locales of \<open>Deps\<close> carry them to the services, whose contracts are
  instantiated at \<open>pg\<close> by the sublocales of \<open>Providers\<close>; \<open>attempting\<close> instantiates the transaction
  manager with any number of attempts left, so that the contracts also hold after failed ones.
  Among other sessions the same code is verified by rely/guarantee triples: what a transfer has locked
  and claimed stays as it saw it (\<open>grows\<close>, \<open>tables_ok_interfered\<close>), so its log posts one payment on the
  tables of its commit, whatever others committed in between (\<open>payment_log_posts\<close>).

  \<^bold>\<open>Bounds.\<close> Account, transfer and row ids are 64-bit words. Balances and amounts are integers of
  \<open>10 ^ (-18)\<close> units below \<open>numeric_limit = 10 ^ 38\<close>, as in \<open>NUMERIC(38, 18)\<close>; a write outside fails as in
  PostgreSQL. A schedule is a finite list of events of any length, over any number of clients; 31
  interactions are enough for every request (C6). Calm worlds (\<open>pg_calm_idle c\<close>) have no failure to
  come and room for \<open>c\<close> more rows in every sequence; five are enough for a transfer. \<open>WithTx\<close> makes at
  most three attempts, so no fuel is needed; every function here terminates.

  \<^bold>\<open>Concurrency.\<close> Requests interleave at their interactions with the database; Go code between two of
  them touches nothing that is shared. Statements see what is committed when they run, with their own
  transaction's writes on top (\<open>READ COMMITTED\<close>, the level of the code's transactions), and an
  interaction that needs a lock or a unique entry of another open transaction is scheduled only after
  that transaction's end, unless it fails. \<open>LockForUpdate\<close> takes its rows at one moment here; the order
  in which it takes them, and that transfers do not deadlock in it, is \<open>Row_Locks\<close>. A deadlock that the
  database resolves all the same, a timeout or a crashed server is a failure of an interaction.

  \<^bold>\<open>Not modelled.\<close> The key-share locks that foreign keys take: a transaction of the program holds
  the rows that its new rows refer to already, locked or inserted by itself. The HTTP layer and its metrics are
  proved for one request after another. JSON text, path matching, the metrics page and viper are
  parameters; cancellation of a context appears as a failing interaction. The logger's rendering and
  its level filter are left out: the log of a server is what was handed to the logger. The functions
  of Go's \<open>strings\<close> and \<open>slog\<close> are modelled on ASCII text, and label values are not checked for being
  UTF-8. The goroutines of \<open>main\<close> are events without an end of their own, and the signal is assumed to
  arrive after the servers started. The columns of the indexes that change no result, the tests,
  the deployment files, the OpenAPI document and the audit script beyond its two reconciliations are
  not part of the model.
\<close>

section \<open>The money\<close>

text \<open>C7: A transfer request is all or nothing. Whatever goes wrong during it (any script of server
  errors, lost connections and lost acknowledgements, at any of its database interactions), the
  committed ledger afterwards is the one before it, or the one before it with exactly one payment of
  this request posted: both balances moved by the amount, one payment record and its debit and credit
  postings, from a source that could cover it, under an unused key and a new id. No transaction is
  left open.\<close>

theorem transfer_all_or_nothing:
  assumes "decimal_laws D" and "uuid_laws U" and "pg_idle w"
    and "run (pg D U) (TransferService_Transfer D U (transferSvc D) cmd) w = (r, w')"
  shows "pg_idle w' \<and> (settled_ledger w' = settled_ledger w \<or>
    (\<exists>key p. requested_key U cmd = Some key \<and>
       payment_posted key (cmd_SourceID cmd) (cmd_DestinationID cmd) (cmd_units D cmd) p
         (settled_ledger w) (settled_ledger w')))"
  using postgres.transfer_contract [OF postgresI [OF assms(1,2)] assms(3,4)] by blast

text \<open>A commit whose acknowledgement is lost: the caller gets an error, and the payment is posted.\<close>

theorem transfer_all_or_nothing_witness:
  "(let (r, w') = ref_run (ref_transfer sample_cmd) lost_ack_world in
     r = Inl (Wrapf ''commit'' (ExternalError ''conn closed'')) \<and>
     map ar_balance (accounts (committed w')) = [69500000000000000000, 30500000000000000000] \<and>
     (settled_ledger w' = settled_ledger lost_ack_world \<or>
      (\<exists>key p. requested_key ref_uuid sample_cmd = Some key \<and>
         payment_posted key 1 2 (cmd_units ref_decimal sample_cmd) p
           (settled_ledger lost_ack_world) (settled_ledger w'))))"
proof -
  obtain r w' where run: "ref_run (ref_transfer sample_cmd) lost_ack_world = (r, w')" by fastforce
  have "(let (r, w') = ref_run (ref_transfer sample_cmd) lost_ack_world in
     r = Inl (Wrapf ''commit'' (ExternalError ''conn closed'')) \<and>
     map ar_balance (accounts (committed w')) = [69500000000000000000, 30500000000000000000])"
    by code_simp
  with transfer_all_or_nothing [OF ref_laws lost_ack_idle run] run show ?thesis
    by (simp add: sample_cmd_def)
qed

text \<open>C8: What a success means. A transfer that is answered with a record \<open>t\<close> was a valid command,
  \<open>t\<close> shows the id, accounts, amount and status of a payment that the committed ledger now holds, and
  that payment is either the one this request posted, or, when the ledger did not change, an earlier
  one with the request's idempotency key, accounts and amount. This holds whatever went wrong on the
  way, and also when a lost race was resolved after the transaction.\<close>

theorem transfer_answer_is_recorded:
  assumes "decimal_laws D" and "uuid_laws U" and "pg_idle w"
    and "run (pg D U) (TransferService_Transfer D U (transferSvc D) cmd) w = (Inr t, w')"
  shows "TransferService_validate D U cmd = None \<and>
    (\<exists>key. requested_key U cmd = Some key \<and>
       transfer_answered D key cmd (settled_ledger w) t (settled_ledger w'))"
  using postgres.transfer_contract [OF postgresI [OF assms(1,2)] assms(3,4)] by blast

theorem transfer_answer_is_recorded_witness:
  "\<exists>key. requested_key ref_uuid sample_cmd = Some key \<and>
     transfer_answered ref_decimal key sample_cmd (settled_ledger sample_world) paid_transfer
       (settled_ledger paid_world)"
  using transfer_answer_is_recorded [OF ref_laws sample_idle paid_run] by simp

text \<open>C9: The transfer service implements \<open>transfer_spec\<close>. For a valid command whose key the database
  can read, when nothing outside the program fails and the destination can hold the sum, the answer
  and the committed ledger afterwards are those of the specification: replay or conflict for a known
  key, then unknown source, unknown destination and insufficient funds in this order, and otherwise
  one posted payment.\<close>

theorem transfer_implements_spec:
  assumes "decimal_laws D" and "uuid_laws U"
    and "TransferService_validate D U cmd = None" and "pg_calm_idle 5 w"
    and "requested_key U cmd = Some key"
    and "\<And>b. balance_of (settled_ledger w) (cmd_DestinationID cmd) = Some b \<Longrightarrow>
      b + cmd_units D cmd < numeric_limit"
  shows "\<exists>i r w'. run (pg D U) (TransferService_Transfer D U (transferSvc D) cmd) w = (r, w') \<and>
    (case transfer_spec i key (cmd_SourceID cmd) (cmd_DestinationID cmd) (cmd_units D cmd)
        (settled_ledger w) of
       (out, L') \<Rightarrow> outcome_denotes D r out \<and> settled_ledger w' = L')"
  by (rule postgres.transfer_refinement [OF postgresI [OF assms(1,2)] assms(3-6)])

text \<open>Sending 30.5 back: account 2 has nothing, and the specification and the service refuse.\<close>

theorem transfer_implements_spec_witness:
  "\<exists>i r w'. ref_run (ref_transfer back_cmd) sample_world = (r, w') \<and>
    (case transfer_spec i None 2 1 (cmd_units ref_decimal back_cmd) (settled_ledger sample_world) of
       (out, L') \<Rightarrow> outcome_denotes ref_decimal r out \<and> settled_ledger w' = L' \<and>
         out = Refused ErrInsufficientFunds)"
proof -
  have v: "TransferService_validate ref_decimal ref_uuid back_cmd = None" by code_simp
  have k: "requested_key ref_uuid back_cmd = Some None" by code_simp
  have b: "balance_of (settled_ledger sample_world) 1 = Some 100000000000000000000"
    "balance_of (settled_ledger sample_world) 2 = Some 0" by code_simp+
  have u: "cmd_units ref_decimal back_cmd = 30500000000000000000" by code_simp
  have room: "\<And>b. balance_of (settled_ledger sample_world) (cmd_DestinationID back_cmd) = Some b \<Longrightarrow>
      b + cmd_units ref_decimal back_cmd < numeric_limit"
    using \<open>balance_of (settled_ledger sample_world) 1 = Some 100000000000000000000\<close> u
    by (simp add: back_cmd_def numeric_limit_def)
  have ends: "cmd_SourceID back_cmd = 2" "cmd_DestinationID back_cmd = 1"
    by (simp_all add: back_cmd_def)
  have "\<exists>i r w'. ref_run (ref_transfer back_cmd) sample_world = (r, w') \<and>
    (case transfer_spec i None 2 1 (cmd_units ref_decimal back_cmd) (settled_ledger sample_world) of
       (out, L') \<Rightarrow> outcome_denotes ref_decimal r out \<and> settled_ledger w' = L')"
    by (rule transfer_implements_spec [OF ref_laws v sample_calm k, unfolded ends])
      (rule room [unfolded ends])
  then obtain i r w' where "ref_run (ref_transfer back_cmd) sample_world = (r, w')"
    "case transfer_spec i None 2 1 (cmd_units ref_decimal back_cmd) (settled_ledger sample_world) of
       (out, L') \<Rightarrow> outcome_denotes ref_decimal r out \<and> settled_ledger w' = L'" by (elim exE conjE)
  moreover have "transfer_spec i None 2 1 (cmd_units ref_decimal back_cmd) (settled_ledger sample_world) =
      (Refused ErrInsufficientFunds, settled_ledger sample_world)"
    using b by (simp add: transfer_spec_def pay_new_def u)
  ultimately show ?thesis
    by (intro exI [of _ i] exI [of _ r] exI [of _ w']) simp
qed

text \<open>C10: The books balance in every reachable world. After any history of requests from the empty
  database, with anything failing in between: no balance is negative, the balances add up to the
  deposits, every payment has exactly one debit of its source and one credit of its destination, both
  of its amount, every posting belongs to a payment, and replaying an account's postings from its
  deposits reproduces every recorded \<open>balance_after\<close> and ends in the account's balance.\<close>

theorem books_balance:
  assumes "decimal_laws D" and "uuid_laws U" and "reachable D U w"
  shows "nonnegative (settled_ledger w) \<and> conserved (settled_ledger w) \<and>
    double_entries (settled_ledger w) \<and> replayable (settled_ledger w)"
  using postgres.reachable_books_ok [OF postgresI [OF assms(1,2)] assms(3)]
  by (simp add: books_ok_def ledger_ok_def)

theorem books_balance_witness:
  "conserved (settled_ledger sample_world) \<and> replayable (settled_ledger sample_world) \<and>
   funding (settled_ledger sample_world) = [(1, 100000000000000000000)]"
proof -
  have "funding (settled_ledger sample_world) = [(1, 100000000000000000000)]" by code_simp
  with books_balance [OF ref_laws sample_reachable] show ?thesis by simp
qed

text \<open>The audit script never finds a discrepancy. In every reachable world the macro
  reconciliation (total of the balances against total of the deposits) and the reconciliation of every
  account (balance against deposits plus credits less debits) of \<open>audit_script.py\<close> pass.\<close>

theorem audit_always_passes:
  assumes "decimal_laws D" and "uuid_laws U" and "reachable D U w"
  shows "audit_database (committed w)"
  using postgres.reachable_books_ok [OF postgresI [OF assms(1,2)] assms(3)]
  by (auto simp: books_ok_def pg_idle_def settled_ledger_def intro: audit_passes)

theorem audit_always_passes_witness:
  "audit_database (committed sample_world) \<and> length (accounts (committed sample_world)) = 2"
proof -
  have "length (accounts (committed sample_world)) = 2" by code_simp
  with audit_always_passes [OF ref_laws sample_reachable] show ?thesis by simp
qed

text \<open>The stored data is well formed in every reachable world: account ids, row ids and
  idempotency keys are unique, every row refers to rows that exist, every amount and balance fits
  \<open>NUMERIC(38, 18)\<close> with the sign its column requires, sources differ from destinations, every stored
  transfer is completed, and no transaction is open between requests.\<close>

theorem stored_data_wellformed:
  assumes "decimal_laws D" and "uuid_laws U" and "reachable D U w"
  shows "txn w = None \<and> tables_ok (committed w) (seqs w)"
  using postgres.reachable_books_ok [OF postgresI [OF assms(1,2)] assms(3)]
  by (simp add: books_ok_def pg_idle_def)

theorem stored_data_wellformed_witness: "txn sample_world = None \<and> tables_ok (committed sample_world) (seqs sample_world)"
  by (rule stored_data_wellformed [OF ref_laws sample_reachable])

text \<open>The ledger is append-only: whatever requests run from a world whose books are in order,
  deposits, payments and postings that were committed stay, unchanged and in place, and no account
  disappears.\<close>

theorem ledger_is_append_only:
  assumes "decimal_laws D" and "uuid_laws U" and "books_ok w" and "history D U w w'"
  shows "ledger_extends (settled_ledger w) (settled_ledger w')"
  by (rule postgres.history_extends [OF postgresI [OF assms(1,2)] assms(4,3)])

theorem ledger_is_append_only_witness:
  "ledger_extends (settled_ledger sample_world) (settled_ledger paid_world) \<and>
   length (payments (settled_ledger paid_world)) = 1"
proof -
  have "length (payments (settled_ledger paid_world)) = 1" by code_simp
  with ledger_is_append_only [OF ref_laws sample_books_ok history.transfer [OF history.start paid_run]]
  show ?thesis by simp
qed

text \<open>C11: A success can be retried forever. Once a request with an idempotency key has been answered
  with a transfer, then after any further history of requests the same request, in a calm moment, is
  answered with the same transaction id, and moves no money.\<close>

theorem success_is_repeatable:
  assumes "decimal_laws D" and "uuid_laws U" and "books_ok w"
    and "run (pg D U) (TransferService_Transfer D U (transferSvc D) cmd) w = (Inr t, w1)"
    and "cmd_IdempotencyKey cmd \<noteq> []" and "history D U w1 w2" and "pg_calm_idle c w2"
  shows "\<exists>t' w3. run (pg D U) (TransferService_Transfer D U (transferSvc D) cmd) w2 = (Inr t', w3) \<and>
    tr_ID t' = tr_ID t \<and> settled_ledger w3 = settled_ledger w2"
proof -
  note pg = postgresI [OF assms(1,2)]
  have "pg_idle w" using assms(3) by (simp add: books_ok_def)
  with postgres.transfer_contract [OF pg _ assms(4)] obtain key where
    v: "TransferService_validate D U cmd = None" and key: "requested_key U cmd = Some key"
    and t: "transfer_answered D key cmd (settled_ledger w) t (settled_ledger w1)" by auto
  obtain k where k: "key = Some k"
    using key assms(5) by (auto simp: requested_key_def key_option_def optionalKey_def)
  obtain p where p: "find_payment k (settled_ledger w1) = Some p" "transfer_denotes D t p"
    "same_request p (cmd_SourceID cmd) (cmd_DestinationID cmd) (cmd_units D cmd)"
    using answered_payment [OF t [unfolded k]] by blast
  have "find_payment k (settled_ledger w2) = Some p"
    using find_payment_extends [OF postgres.history_extends [OF pg assms(6)] p(1)]
      postgres.transfer_books_ok [OF pg assms(3,4)] by blast
  from postgres.transfer_known_key [OF pg v assms(7) key [unfolded k] this] p show ?thesis
    by (auto simp: transfer_denotes_def)
qed

theorem success_is_repeatable_witness:
  "\<exists>t' w3. ref_run (ref_transfer sample_cmd) paid_world = (Inr t', w3) \<and> tr_ID t' = 1 \<and>
    settled_ledger w3 = settled_ledger paid_world"
  using success_is_repeatable [OF ref_laws sample_books_ok paid_run _ history.start paid_calm]
  by (simp add: sample_cmd_def sample_key_def paid_transfer_def)


subsection \<open>Idempotency keys\<close>

text \<open>C12: A request with a key that a payment carries already moves no money: in a calm moment it is
  answered with that payment when source, destination and amount are the same (the amount as a number,
  however it was written), and refused with the conflict error otherwise.\<close>

theorem known_key_is_replayed_or_refused:
  assumes "decimal_laws D" and "uuid_laws U"
    and "TransferService_validate D U cmd = None" and "pg_calm_idle c w"
    and "requested_key U cmd = Some (Some k)" and "find_payment k (settled_ledger w) = Some p"
  shows "\<exists>r w'. run (pg D U) (TransferService_Transfer D U (transferSvc D) cmd) w = (r, w') \<and>
    settled_ledger w' = settled_ledger w \<and>
    (if same_request p (cmd_SourceID cmd) (cmd_DestinationID cmd) (cmd_units D cmd)
     then \<exists>t. r = Inr t \<and> transfer_denotes D t p else r = Inl ErrIdempotencyConflict)"
  by (rule postgres.transfer_known_key [OF postgresI [OF assms(1,2)] assms(3-6)])

text \<open>The sample key again, with another amount.\<close>

theorem known_key_is_replayed_or_refused_witness:
  "\<exists>w'. ref_run (ref_transfer (sample_cmd\<lparr>cmd_Amount := (306, - 1)\<rparr>)) paid_world = (Inl ErrIdempotencyConflict, w') \<and>
     settled_ledger w' = settled_ledger paid_world"
proof -
  let ?cmd = "sample_cmd\<lparr>cmd_Amount := (306, - 1)\<rparr>"
  have v: "TransferService_validate ref_decimal ref_uuid ?cmd = None" by code_simp
  obtain k p where k: "requested_key ref_uuid ?cmd = Some (Some k)"
    and p: "find_payment k (settled_ledger paid_world) = Some p" and n: "pay_amount p = 30500000000000000000"
  proof -
    have "requested_key ref_uuid ?cmd = Some (Some (the (ref_pg_uuid_in sample_key)))" by code_simp
    moreover have "map_option pay_amount
      (find_payment (the (ref_pg_uuid_in sample_key)) (settled_ledger paid_world)) = Some 30500000000000000000"
      by code_simp
    ultimately show thesis using that by auto
  qed
  have "\<not> same_request p (cmd_SourceID ?cmd) (cmd_DestinationID ?cmd) (cmd_units ref_decimal ?cmd)"
    by (simp add: same_request_def n units_def)
  with known_key_is_replayed_or_refused [OF ref_laws v paid_calm k p] show ?thesis by simp
qed

text \<open>At most one payment per idempotency key, in every reachable world: two payments of the
  committed ledger that carry the same key are the same payment.\<close>

theorem one_payment_per_key:
  assumes "decimal_laws D" and "uuid_laws U" and "reachable D U w"
    and "p \<in> set (payments (settled_ledger w))" and "q \<in> set (payments (settled_ledger w))"
    and "pay_key p = Some k" and "pay_key q = Some k"
  shows "p = q"
proof -
  have keys: "distinct (stored_keys (transfers (committed w)))"
    using postgres.reachable_books_ok [OF postgresI [OF assms(1,2)] assms(3)]
    by (simp add: books_ok_def pg_idle_def tables_ok_def transfers_ok_def)
  obtain r r' where r: "r \<in> set (transfers (committed w))" "p = payment_of_row r"
    "r' \<in> set (transfers (committed w))" "q = payment_of_row r'"
    using assms(4,5) by (auto simp: settled_ledger_def)
  have "r = r'"
    using stored_keys_unique [OF keys r(1,3), of k] assms(6,7) r(2,4) by (simp add: payment_of_row_def)
  with r(2,4) show ?thesis by simp
qed

theorem one_payment_per_key_witness:
  "hd (payments (settled_ledger paid_world)) = last (payments (settled_ledger paid_world)) \<and>
   pay_key (hd (payments (settled_ledger paid_world))) = ref_pg_uuid_in sample_key \<and>
   ref_pg_uuid_in sample_key \<noteq> None"
proof -
  let ?ps = "payments (settled_ledger paid_world)"
  have "?ps \<noteq> []" "pay_key (hd ?ps) = ref_pg_uuid_in sample_key"
    "pay_key (last ?ps) = ref_pg_uuid_in sample_key" by code_simp+
  moreover obtain k where "ref_pg_uuid_in sample_key = Some k" using ref_uuid_sample(2) by (auto simp: ref_uuid_def)
  ultimately show ?thesis
    using one_payment_per_key [OF ref_laws paid_reachable, of "hd ?ps" "last ?ps" k] by simp
qed


section \<open>Accounts\<close>

text \<open>C13: Opening an account is all or nothing: whatever goes wrong, the committed ledger afterwards is
  the one before, or the one before with the new account at its opening balance and, when that is
  positive, its one deposit. A success means the latter, for an id that was free.\<close>

theorem create_all_or_nothing:
  assumes "decimal_laws D" and "uuid_laws U" and "pg_idle w"
    and "run (pg D U) (AccountService_Create D (accountSvc D) i b) w = (r, w')"
  shows "pg_idle w' \<and>
    (settled_ledger w' = settled_ledger w \<or>
     balance_of (settled_ledger w) i = None \<and>
     settled_ledger w' = open_account i (units D b) (settled_ledger w)) \<and>
    (r = Inr () \<longrightarrow> 0 < sint i \<and> validateInitialBalance D b = None \<and>
     balance_of (settled_ledger w) i = None \<and>
     settled_ledger w' = open_account i (units D b) (settled_ledger w))"
  using postgres.create_contract [OF postgresI [OF assms(1,2)] assms(3,4)] by blast

text \<open>The connection breaks between the account and its deposit: nothing is kept.\<close>

theorem create_all_or_nothing_witness:
  "\<exists>e w'. ref_run (ref_create 1 (100, 0)) broken_deposit_world = (Inl e, w') \<and> pg_idle w' \<and>
     accounts (committed w') = []"
proof -
  obtain r w' where run: "ref_run (ref_create 1 (100, 0)) broken_deposit_world = (r, w')" by fastforce
  have "(case ref_run (ref_create 1 (100, 0)) broken_deposit_world of
      (r, w') \<Rightarrow> (case r of Inl e \<Rightarrow> accounts (committed w') = [] | Inr _ \<Rightarrow> False))" by code_simp
  with create_all_or_nothing [OF ref_laws broken_deposit_idle run] run show ?thesis
    by (cases r) simp_all
qed

text \<open>C14: Account creation implements \<open>open_spec\<close>: with a valid id and opening balance, when nothing
  outside the program fails, an id that is taken is refused with \<open>ErrAccountAlreadyExists\<close> and changes
  nothing, and a free one is opened.\<close>

theorem create_implements_spec:
  assumes "decimal_laws D" and "uuid_laws U" and "0 < sint i" and "validateInitialBalance D b = None"
    and "pg_calm_idle (Suc c) w"
  shows "\<exists>r w'. run (pg D U) (AccountService_Create D (accountSvc D) i b) w = (r, w') \<and>
    (r, settled_ledger w') = open_spec i (units D b) (settled_ledger w)"
  by (rule postgres.create_refinement [OF postgresI [OF assms(1,2)] assms(3-5)])

text \<open>Account 1 again, with another balance.\<close>

theorem create_implements_spec_witness:
  "\<exists>w'. ref_run (ref_create 1 (55, - 1)) sample_world = (Inl ErrAccountAlreadyExists, w') \<and>
     settled_ledger w' = settled_ledger sample_world"
proof -
  have v: "validateInitialBalance ref_decimal (55, - 1) = None" by code_simp
  have "balance_of (settled_ledger sample_world) 1 = Some 100000000000000000000" by code_simp
  moreover have "pg_calm_idle (Suc 4) sample_world" using sample_calm by simp
  ultimately show ?thesis
    using create_implements_spec [OF ref_laws _ v, of 1 4 sample_world] by (simp add: open_spec_def)
qed

text \<open>C15: Reading an account never writes, and what it answers is true: whatever goes wrong, the
  committed ledger is unchanged and no transaction is left open; an answer shows the account's id and
  its committed balance; and when nothing fails, the answer is the account, or \<open>ErrAccountNotFound\<close>
  exactly for an account that does not exist.\<close>

theorem get_reads_committed_balance:
  assumes "decimal_laws D" and "uuid_laws U" and "pg_idle w"
    and "run (pg D U) (AccountService_Get (accountSvc D) i) w = (r, w')"
  shows "pg_idle w' \<and> settled_ledger w' = settled_ledger w \<and>
    (case r of
       Inr a \<Rightarrow> 0 < sint i \<and> acc_ID a = i \<and>
         (\<exists>n. balance_of (settled_ledger w) i = Some n \<and> decimal_value D (acc_Balance a) = numeric_value n)
     | Inl e \<Rightarrow> pg_calm_idle 0 w \<and> 0 < sint i \<longrightarrow>
         balance_of (settled_ledger w) i = None \<and> e = AccountNotFound i)"
proof -
  note pg = postgresI [OF assms(1,2)]
  have "r = Inl e \<Longrightarrow> pg_calm_idle 0 w \<Longrightarrow> 0 < sint i \<Longrightarrow>
      balance_of (settled_ledger w) i = None \<and> e = AccountNotFound i" for e
    using postgres.get_refinement [OF pg, of i 0 w] assms(4) by (auto split: option.splits)
  with postgres.get_contract [OF pg assms(3,4)] show ?thesis
    by (auto simp: account_denotes_Some split: sum.split)
qed

theorem get_reads_committed_balance_witness:
  "\<exists>a w'. ref_run (AccountService_Get (accountSvc ref_decimal) 1) sample_world = (Inr a, w') \<and>
     acc_ID a = 1 \<and> decimal_value ref_decimal (acc_Balance a) = 100"
proof -
  obtain r w' where run: "ref_run (AccountService_Get (accountSvc ref_decimal) 1) sample_world = (r, w')"
    by fastforce
  have "(case fst (ref_run (AccountService_Get (accountSvc ref_decimal) 1) sample_world) of
      Inl e \<Rightarrow> False | Inr a \<Rightarrow> True)" by code_simp
  moreover have "balance_of (settled_ledger sample_world) 1 = Some 100000000000000000000" by code_simp
  ultimately show ?thesis
    using get_reads_committed_balance [OF ref_laws sample_idle run] run
    by (cases r) (auto simp: numeric_value_def)
qed

text \<open>C16: An account that was opened reads back with its opening balance, as a number, whatever
  precision it was written with.\<close>

theorem created_account_reads_back:
  assumes "decimal_laws D" and "uuid_laws U" and "pg_idle w"
    and "run (pg D U) (AccountService_Create D (accountSvc D) i b) w = (Inr (), w1)"
    and "pg_calm_idle c w1"
  shows "\<exists>a w2. run (pg D U) (AccountService_Get (accountSvc D) i) w1 = (Inr a, w2) \<and>
    acc_ID a = i \<and> decimal_value D (acc_Balance a) = decimal_value D b"
proof -
  note pg = postgresI [OF assms(1,2)]
  have c: "0 < sint i" "validateInitialBalance D b = None"
    "balance_of (settled_ledger w1) i = Some (units D b)"
    using postgres.create_contract [OF pg assms(3,4)] by (simp_all add: open_account_def)
  with postgres.get_refinement [OF pg c(1) assms(5)]
    decimal_laws.validateInitialBalance_units [OF assms(1) c(2)] show ?thesis by auto
qed

theorem created_account_reads_back_witness:
  "\<exists>a w2. ref_run (AccountService_Get (accountSvc ref_decimal) 2) sample_world = (Inr a, w2) \<and>
     acc_ID a = 2 \<and> decimal_value ref_decimal (acc_Balance a) = 0"
proof -
  have "pg_idle one_account_world" using one_account_books_ok by (simp add: books_ok_def)
  from created_account_reads_back [OF ref_laws this sample_creates(2) sample_calm] show ?thesis
    by (simp add: ref_decimal_value)
qed

section \<open>The checks of a request\<close>

text \<open>C17: The amount checks are exact. A transfer amount passes when it is written with at most 18
  decimals and is a positive number that \<open>NUMERIC(38, 18)\<close> can hold, and an opening balance
  likewise, zero allowed; everything else is refused with \<open>ErrInvalidAmount\<close>.\<close>

theorem amount_checks_exact:
  assumes "decimal_laws D"
  shows "validateAmount D a =
      (if - 18 \<le> Exponent D a \<and> 0 < units D a \<and> units D a < numeric_limit then None
       else Some ErrInvalidAmount) \<and>
    validateInitialBalance D a =
      (if - 18 \<le> Exponent D a \<and> 0 \<le> units D a \<and> units D a < numeric_limit then None
       else Some ErrInvalidAmount)"
  using decimal_laws.units_bounds [OF assms, of a] decimal_laws.validateAmount_None_iff [OF assms, of a]
    decimal_laws.validateInitialBalance_None_iff [OF assms, of a] validate_errors(2,3) [of D a]
  by (auto simp: not_None_eq)

text \<open>The largest amount, and one unit more.\<close>

theorem amount_checks_exact_witness:
  "validateAmount ref_decimal (10 ^ 38 - 1, - 18) = None \<and>
   validateAmount ref_decimal (10 ^ 38, - 18) = Some ErrInvalidAmount \<and>
   validateInitialBalance ref_decimal (0, - 19) = Some ErrInvalidAmount"
proof -
  have "units ref_decimal (10 ^ 38 - 1, - 18) = 10 ^ 38 - 1" "units ref_decimal (10 ^ 38, - 18) = 10 ^ 38"
    by (simp_all add: units_def ref_decimal_value power_int_def)
  then show ?thesis
    using amount_checks_exact [OF ref_laws(1), of "(10 ^ 38 - 1, - 18)"]
      amount_checks_exact [OF ref_laws(1), of "(10 ^ 38, - 18)"]
      amount_checks_exact [OF ref_laws(1), of "(0, - 19)"] by (simp add: numeric_limit_def)
qed

text \<open>C18: An invalid command is refused before the database is touched, by a service over any stores,
  with the error of the first check that fails: the ids, then equal accounts, the amount, the key.\<close>

theorem invalid_commands_stop_early:
  assumes "decimal_laws D"
    and "\<not> (0 < sint (cmd_SourceID cmd) \<and> 0 < sint (cmd_DestinationID cmd) \<and>
      cmd_SourceID cmd \<noteq> cmd_DestinationID cmd \<and>
      - 18 \<le> Exponent D (cmd_Amount cmd) \<and> 0 < cmd_units D cmd \<and> cmd_units D cmd < numeric_limit \<and>
      (cmd_IdempotencyKey cmd = [] \<or> uuid_Parse U (cmd_IdempotencyKey cmd)))"
  shows "TransferService_Transfer D U s cmd = Return (Inl (
    if sint (cmd_SourceID cmd) \<le> 0 \<or> sint (cmd_DestinationID cmd) \<le> 0 then ErrInvalidAccountID
    else if cmd_SourceID cmd = cmd_DestinationID cmd then ErrSameAccount
    else if validateAmount D (cmd_Amount cmd) \<noteq> None then ErrInvalidAmount
    else ErrInvalidIdempotency))"
proof -
  have "validateAmount D (cmd_Amount cmd) = None \<longleftrightarrow>
      - 18 \<le> Exponent D (cmd_Amount cmd) \<and> 0 < cmd_units D cmd \<and> cmd_units D cmd < numeric_limit"
    using decimal_laws.validateAmount_None_iff [OF assms(1)]
      decimal_laws.units_bounds [OF assms(1), of "cmd_Amount cmd"] by auto
  with assms(2) show ?thesis
    using validate_errors(2) [of D "cmd_Amount cmd"]
    by (auto simp: TransferService_Transfer_def TransferService_validate_def validateAccountID_def
        split: option.split)
qed

theorem invalid_commands_stop_early_witness:
  "TransferService_Transfer ref_decimal ref_uuid (transferSvc ref_decimal) (sample_cmd\<lparr>cmd_DestinationID := 1\<rparr>) =
     Return (Inl ErrSameAccount)"
  using invalid_commands_stop_early [OF ref_laws(1), of "sample_cmd\<lparr>cmd_DestinationID := 1\<rparr>" ref_uuid "transferSvc ref_decimal"]
  by (simp add: sample_cmd_def)


section \<open>Failures\<close>

text \<open>C19: A credit that the destination cannot hold is not a domain error. When the sum would exceed
  \<open>NUMERIC(38, 18)\<close>, a request that is otherwise in order fails with the server's own error, which no
  check turns into a domain error, and changes nothing.\<close>

theorem credit_overflow_is_internal:
  assumes "decimal_laws D" and "uuid_laws U"
    and "TransferService_validate D U cmd = None" and "pg_calm_idle 5 w"
    and "requested_key U cmd = Some k" "\<forall>k'. k = Some k' \<longrightarrow> find_payment k' (settled_ledger w) = None"
    and "balance_of (settled_ledger w) (cmd_SourceID cmd) = Some a" "cmd_units D cmd \<le> a"
    and "balance_of (settled_ledger w) (cmd_DestinationID cmd) = Some b"
      "numeric_limit \<le> b + cmd_units D cmd"
  shows "\<exists>e w'. run (pg D U) (TransferService_Transfer D U (transferSvc D) cmd) w = (Inl e, w') \<and>
    internal_error e \<and> settled_ledger w' = settled_ledger w"
  using postgres.transfer_overflow [OF postgresI [OF assms(1,2)] assms(3-10)]
  by (auto simp: plain_internal_def)

theorem credit_overflow_is_internal_witness:
  "\<exists>e w'. ref_run (ref_transfer (sample_cmd\<lparr>cmd_IdempotencyKey := []\<rparr>)) full_world = (Inl e, w') \<and>
     internal_error e \<and> settled_ledger w' = settled_ledger full_world"
proof -
  let ?cmd = "sample_cmd\<lparr>cmd_IdempotencyKey := []\<rparr>"
  have v: "TransferService_validate ref_decimal ref_uuid ?cmd = None" by code_simp
  have k: "requested_key ref_uuid ?cmd = Some None" by code_simp
  have b: "balance_of (settled_ledger full_world) (cmd_SourceID ?cmd) = Some 100000000000000000000"
    "balance_of (settled_ledger full_world) (cmd_DestinationID ?cmd) = Some 99999999999999999999000000000000000000"
    by code_simp+
  have u: "cmd_units ref_decimal ?cmd = 30500000000000000000" by code_simp
  show ?thesis
    by (rule credit_overflow_is_internal [OF ref_laws v full_calm k _ b(1) _ b(2)])
      (simp_all only: u, simp_all add: numeric_limit_def)
qed

text \<open>C20: A key that only \<open>uuid.Parse\<close> accepts fails the request: a command with a key that passes the
  service's check and that the database cannot read as a \<open>uuid\<close> is answered with the server's own error,
  not with \<open>ErrInvalidIdempotency\<close>, and changes nothing.\<close>

theorem unreadable_key_is_internal:
  assumes "decimal_laws D" and "uuid_laws U"
    and "TransferService_validate D U cmd = None" and "pg_calm_idle c w"
    and "cmd_IdempotencyKey cmd \<noteq> []" and "pg_uuid_in U (cmd_IdempotencyKey cmd) = None"
  shows "\<exists>e w'. run (pg D U) (TransferService_Transfer D U (transferSvc D) cmd) w = (Inl e, w') \<and>
    internal_error e \<and> settled_ledger w' = settled_ledger w"
  using postgres.transfer_unreadable_key [OF postgresI [OF assms(1,2)] assms(3-6)]
  by (auto simp: plain_internal_def)

theorem unreadable_key_is_internal_witness:
  "\<exists>e w'. ref_run (ref_transfer urn_cmd) sample_world = (Inl e, w') \<and> internal_error e \<and>
     settled_ledger w' = settled_ledger sample_world"
proof -
  have v: "TransferService_validate ref_decimal ref_uuid urn_cmd = None" by code_simp
  have k: "cmd_IdempotencyKey urn_cmd \<noteq> [] \<and> pg_uuid_in ref_uuid (cmd_IdempotencyKey urn_cmd) = None"
    by code_simp
  show ?thesis
    by (rule unreadable_key_is_internal [OF ref_laws v sample_calm conjunct1 [OF k] conjunct2 [OF k]])
qed

text \<open>C21: \<open>WithTx\<close> makes at most three attempts, each from where the last one ended. It answers the
  result of its last attempt, repeats an attempt only after a serialization failure or a deadlock, and
  only when the third fails that way too it wraps that error. This is so on any database.\<close>

theorem withTx_attempts:
  assumes "run h (WithTx fn) w = (r, w')"
  shows "\<exists>rs last_result. length rs \<le> 2 \<and> attempts h fn (rs @ [last_result]) w w' \<and>
    list_all retryable_result rs \<and>
    (if retryable_result last_result
     then length rs = 2 \<and> (\<exists>e. last_result = Inl e \<and> r = Inl (retries_exhausted e))
     else r = last_result)"
  using withTxLoop_attempts [of h 2 None fn w r w'] assms
  by (simp add: WithTx_def maxTxRetries_def eval_nat_numeral list_all_iff del: withTxLoop.simps)

text \<open>A deadlock at the third statement of the first attempt.\<close>

theorem withTx_attempts_witness:
  "\<exists>rs last_result w'. attempts (pg ref_decimal ref_uuid)
      (TransferService_body ref_decimal (transferSvc ref_decimal) sample_cmd) (rs @ [last_result])
      (deadlock_world 3) w' \<and> length rs \<le> 2 \<and> last_result = Inr paid_transfer"
proof -
  let ?fn = "TransferService_body ref_decimal (transferSvc ref_decimal) sample_cmd"
  obtain r w' where run: "ref_run (WithTx ?fn) (deadlock_world 3) = (r, w')" by fastforce
  have "fst (ref_run (WithTx ?fn) (deadlock_world 3)) = Inr paid_transfer" by code_simp
  then have r: "r = Inr paid_transfer" by (simp only: run fst_conv)
  from withTx_attempts [OF run] obtain rs lr where
    "length rs \<le> 2" "attempts (pg ref_decimal ref_uuid) ?fn (rs @ [lr]) (deadlock_world 3) w'"
    "if retryable_result lr then length rs = 2 \<and> (\<exists>e. lr = Inl e \<and> r = Inl (retries_exhausted e)) else r = lr"
    by blast
  with r show ?thesis by (auto split: if_splits)
qed

text \<open>C22: Transient failures are absorbed. When one or two attempts of a valid transfer end in a
  serialization failure or a deadlock, wherever in the transaction it struck, and nothing fails after
  them, the caller never sees it: the answer and the committed ledger are those of \<open>transfer_spec\<close> on
  the ledger before the request.\<close>

theorem transient_failures_are_absorbed:
  assumes "decimal_laws D" and "uuid_laws U"
    and "pg_idle w" and "TransferService_validate D U cmd = None"
    and "attempts (pg D U) (TransferService_body D (transferSvc D) cmd) rs w w1"
      "\<forall>x \<in> set rs. retryable_result x" "length rs < maxTxRetries"
    and "pg_calm_idle 5 w1" and "requested_key U cmd = Some key"
    and "\<And>b. balance_of (settled_ledger w) (cmd_DestinationID cmd) = Some b \<Longrightarrow>
      b + cmd_units D cmd < numeric_limit"
  shows "\<exists>i r w'. run (pg D U) (TransferService_Transfer D U (transferSvc D) cmd) w = (r, w') \<and>
    (case transfer_spec i key (cmd_SourceID cmd) (cmd_DestinationID cmd) (cmd_units D cmd)
        (settled_ledger w) of
       (out, L') \<Rightarrow> outcome_denotes D r out \<and> settled_ledger w' = L')"
  by (rule postgres.transfer_after_attempts [OF postgresI [OF assms(1,2)] assms(3-10)])

text \<open>The deadlock again: the payment is made as if nothing had happened.\<close>

theorem transient_failures_are_absorbed_witness:
  "\<exists>i r w'. ref_run (ref_transfer sample_cmd) (deadlock_world 3) = (r, w') \<and>
    (case transfer_spec i (ref_pg_uuid_in sample_key) 1 2 30500000000000000000
        (settled_ledger (deadlock_world 3)) of
       (out, L') \<Rightarrow> outcome_denotes ref_decimal r out \<and> settled_ledger w' = L')"
proof -
  have v: "TransferService_validate ref_decimal ref_uuid sample_cmd = None" by code_simp
  have k: "requested_key ref_uuid sample_cmd = Some (ref_pg_uuid_in sample_key)" by code_simp
  have cmd: "cmd_SourceID sample_cmd = 1 \<and> cmd_DestinationID sample_cmd = 2 \<and>
      cmd_units ref_decimal sample_cmd = 30500000000000000000" by code_simp
  have b: "balance_of (settled_ledger (deadlock_world 3)) (cmd_DestinationID sample_cmd) = Some 0" by code_simp
  have "\<exists>i r w'. ref_run (ref_transfer sample_cmd) (deadlock_world 3) = (r, w') \<and>
    (case transfer_spec i (ref_pg_uuid_in sample_key) (cmd_SourceID sample_cmd) (cmd_DestinationID sample_cmd)
        (cmd_units ref_decimal sample_cmd) (settled_ledger (deadlock_world 3)) of
       (out, L') \<Rightarrow> outcome_denotes ref_decimal r out \<and> settled_ledger w' = L')"
    by (rule transient_failures_are_absorbed [OF ref_laws deadlock_idle v deadlock_attempt _ _ deadlocked_calm k])
      (use b cmd deadlock_retryable in \<open>simp_all add: maxTxRetries_def numeric_limit_def\<close>)
  then show ?thesis using cmd by simp
qed

end
